(* ===== verification/Prelude.thy ===== *)
theory Prelude
  imports Main "HOL-Library.Word" "HOL-Library.Multiset"
begin

text \<open>
  Shared vocabulary of the development: the C types of the 32-bit target as words, the result
  type of code that may call FATAL, little-endian access to 32-bit fields of a byte buffer,
  and the list and word lemmas that the components use.
\<close>

unbundle bit_operations_syntax

type_synonym byte = "8 word"
type_synonym u32 = "32 word"
type_synonym u64 = "64 word"

named_theorems layout_defs \<open>constants of the memory and disk layout\<close>
named_theorems ref_simps \<open>reading back a 32-bit field of a block\<close>

section \<open>Words\<close>

lemma unat_u32_bound: "unat (x :: u32) < 2 ^ 32"
  using unsigned_less [of x, where 'a = nat] by simp

lemma unat_plus1_less:
  assumes "(x :: u32) < y"
  shows "unat (x + 1) = unat x + 1"
proof -
  have "unat x < unat y" using assms by (simp add: word_less_nat_alt)
  moreover have "unat y < 2 ^ 32" by (rule unat_u32_bound)
  ultimately show ?thesis by (simp add: unat_word_ariths)
qed

section \<open>Results of code that may stop in FATAL\<close>

text \<open>
  FATAL prints its message and loops for ever (tty_fatal), so a call that reaches it never
  returns: the value is the message, and nothing after the call is executed.
\<close>

datatype 'a outcome = Ret 'a | Fatal string

primrec obind :: "'a outcome \<Rightarrow> ('a \<Rightarrow> 'b outcome) \<Rightarrow> 'b outcome" where
  "obind (Ret x) f = f x"
| "obind (Fatal e) f = Fatal e"

lemma obind_eq_Ret [simp]: "obind m f = Ret y \<longleftrightarrow> (\<exists>x. m = Ret x \<and> f x = Ret y)"
  by (cases m) auto

lemma obind_assoc: "obind (obind m f) g = obind m (\<lambda>x. obind (f x) g)"
  by (cases m) auto

lemma obind_cong [fundef_cong]:
  "m = m' \<Longrightarrow> (\<And>x. m' = Ret x \<Longrightarrow> f x = g x) \<Longrightarrow> obind m f = obind m' g"
  by (cases m') auto

text \<open>
  Total correctness of a call: it returns, and what it returns satisfies the postcondition.
\<close>

primrec owp :: "'a outcome \<Rightarrow> ('a \<Rightarrow> bool) \<Rightarrow> bool" where
  "owp (Ret x) Q = Q x"
| "owp (Fatal e) Q = False"

lemma owp_obind [simp]: "owp (obind m f) Q = owp m (\<lambda>x. owp (f x) Q)"
  by (cases m) auto

lemma owp_mono: "owp m P \<Longrightarrow> (\<And>x. P x \<Longrightarrow> Q x) \<Longrightarrow> owp m Q"
  by (cases m) auto

lemma owp_conj: "owp m P \<Longrightarrow> owp m Q \<Longrightarrow> owp m (\<lambda>x. P x \<and> Q x)"
  by (cases m) auto

lemma owp_iff: "owp m Q \<longleftrightarrow> (\<exists>x. m = Ret x \<and> Q x)"
  by (cases m) auto

lemma owpE:
  assumes "owp m Q"
  obtains x where "m = Ret x" "Q x"
  using assms by (cases m) auto

lemma obind_Fatal_rule: "owp m (\<lambda>x. f x = Fatal e) \<Longrightarrow> obind m f = Fatal e"
  by (cases m) auto

text \<open>A for loop over a list of indices that threads a state.\<close>

primrec ofold :: "('a \<Rightarrow> 's \<Rightarrow> 's outcome) \<Rightarrow> 'a list \<Rightarrow> 's \<Rightarrow> 's outcome" where
  "ofold f [] s = Ret s"
| "ofold f (x # xs) s = obind (f x s) (ofold f xs)"

lemma ofold_append: "ofold f (xs @ ys) s = obind (ofold f xs s) (ofold f ys)"
  by (induction xs arbitrary: s) (auto simp: obind_assoc cong: obind_cong)

lemma ofold_upt_rule:
  assumes "I 0 s" "\<And>i s. i < n \<Longrightarrow> I i s \<Longrightarrow> owp (f i s) (I (Suc i))"
  shows "owp (ofold f [0..<n] s) (I n)"
  using assms
proof (induction n)
  case (Suc n)
  have "owp (ofold f [0..<n] s) (I n)" using Suc by simp
  then show ?case by (auto simp: ofold_append intro!: Suc.prems(2) elim!: owp_mono)
qed simp

section \<open>Little-endian 32-bit fields\<close>

definition word32_of :: "byte \<Rightarrow> byte \<Rightarrow> byte \<Rightarrow> byte \<Rightarrow> u32" where
  "word32_of b0 b1 b2 b3 =
     (ucast b0 OR push_bit 8 (ucast b1)) OR (push_bit 16 (ucast b2) OR push_bit 24 (ucast b3))"

definition byte_of :: "u32 \<Rightarrow> nat \<Rightarrow> byte" where
  "byte_of w k = ucast (drop_bit (8 * k) w)"

lemma word32_of_byte_of [simp]:
  "word32_of (byte_of w 0) (byte_of w (Suc 0)) (byte_of w 2) (byte_of w 3) = w"
proof (rule bit_word_eqI)
  fix n assume "n < LENGTH(32)"
  then consider "n < 8" | "8 \<le> n" "n < 16" | "16 \<le> n" "n < 24" | "24 \<le> n" "n < 32"
    by fastforce
  then show "bit (word32_of (byte_of w 0) (byte_of w (Suc 0)) (byte_of w 2) (byte_of w 3)) n
      \<longleftrightarrow> bit w n"
    by cases (auto simp: word32_of_def byte_of_def bit_simps)
qed

lemma byte_of_word32_of [simp]:
  "byte_of (word32_of b0 b1 b2 b3) 0 = b0"
  "byte_of (word32_of b0 b1 b2 b3) (Suc 0) = b1"
  "byte_of (word32_of b0 b1 b2 b3) 2 = b2"
  "byte_of (word32_of b0 b1 b2 b3) 3 = b3"
  by (rule bit_word_eqI;
      auto simp: word32_of_def byte_of_def bit_simps dest: bit_imp_le_length)+

section \<open>Replacing a part of a list\<close>

definition splice_at :: "nat \<Rightarrow> 'a list \<Rightarrow> 'a list \<Rightarrow> 'a list" where
  "splice_at off ys xs = take off xs @ ys @ drop (off + length ys) xs"

lemma length_splice_at [simp]: "off + length ys \<le> length xs \<Longrightarrow> length (splice_at off ys xs) = length xs"
  by (simp add: splice_at_def)

lemma nth_splice_at:
  "off + length ys \<le> length xs \<Longrightarrow> i < length xs \<Longrightarrow>
    splice_at off ys xs ! i = (if off \<le> i \<and> i < off + length ys then ys ! (i - off) else xs ! i)"
  by (auto simp: splice_at_def nth_append min_def)

lemma take_drop_splice_at:
  "off + length ys \<le> length xs \<Longrightarrow> take (length ys) (drop off (splice_at off ys xs)) = ys"
  by (simp add: splice_at_def)

end
