(* ===== verification/Inode_Store.thy ===== *)
theory Inode_Store
  imports Prelude
begin

text \<open>
  Blocks and inode stores: the block type of library/file/disk.h with its 32-bit fields, and
  the interface of library/file/inode.h, a struct of four function pointers. An inode store is
  a record of functions over a store state, so that one store can be layered over another the
  way treedisk_init layers a file system over a disk.
\<close>

section \<open>Sizes\<close>

definition BLOCK_SIZE :: nat where [layout_defs]: "BLOCK_SIZE = 512"
definition REFS_PER_BLOCK :: nat where [layout_defs]: "REFS_PER_BLOCK = BLOCK_SIZE div 4"
definition INODES_PER_BLOCK :: nat where [layout_defs]: "INODES_PER_BLOCK = BLOCK_SIZE div 8"

lemma block_consts [simp]:
  "BLOCK_SIZE = 512" "REFS_PER_BLOCK = 128" "INODES_PER_BLOCK = 64"
  by (simp_all add: layout_defs)

section \<open>Blocks\<close>

type_synonym block_no = u32
type_synonym block = "byte list"

definition null_block :: block where
  "null_block = replicate BLOCK_SIZE 0"

text \<open>
  The members of union treedisk_block (superblock, inode block, free list block and indirect
  block) are all arrays of 32-bit fields: field number \<open>i\<close> is at byte \<open>4 * i\<close>.
\<close>

definition get_ref :: "block \<Rightarrow> nat \<Rightarrow> u32" where
  "get_ref b i = word32_of (b ! (4 * i)) (b ! (4 * i + 1)) (b ! (4 * i + 2)) (b ! (4 * i + 3))"

definition set_ref :: "block \<Rightarrow> nat \<Rightarrow> u32 \<Rightarrow> block" where
  "set_ref b i v =
     b[4 * i := byte_of v 0, 4 * i + 1 := byte_of v 1,
       4 * i + 2 := byte_of v 2, 4 * i + 3 := byte_of v 3]"

lemma length_null_block [simp]: "length null_block = 512"
  by (simp add: null_block_def)

lemma length_set_ref [simp]: "length (set_ref b i v) = length b"
  by (simp add: set_ref_def)

lemma get_ref_set_ref_same [ref_simps]:
  "length b = 512 \<Longrightarrow> i < 128 \<Longrightarrow> get_ref (set_ref b i v) i = v"
  by (simp add: get_ref_def set_ref_def nth_list_update)

lemma get_ref_set_ref_other [ref_simps]:
  assumes "length b = 512" "i < 128" "j < 128" "i \<noteq> j"
  shows "get_ref (set_ref b i v) j = get_ref b j"
proof -
  have "4 * i + k \<noteq> 4 * j + l" if "k < 4" "l < 4" for k l
    using that assms(4) by presburger
  from this [of 0] this [of 1] this [of 2] this [of 3] show ?thesis
    using assms by (simp add: get_ref_def set_ref_def nth_list_update)
qed

lemma get_ref_null_block [ref_simps]: "i < 128 \<Longrightarrow> get_ref null_block i = 0"
  by (simp add: get_ref_def null_block_def word32_of_def)

section \<open>The interface of an inode store\<close>

text \<open>
  A negative status is an error. A read takes the previous contents of the caller's buffer and
  returns its contents after the call.
\<close>

record 'd inode_store =
  st_getsize :: "u32 \<Rightarrow> 'd \<Rightarrow> (int \<times> 'd) outcome"
  st_setsize :: "u32 \<Rightarrow> block_no \<Rightarrow> 'd \<Rightarrow> (int \<times> 'd) outcome"
  st_read :: "u32 \<Rightarrow> block_no \<Rightarrow> block \<Rightarrow> 'd \<Rightarrow> (int \<times> block \<times> 'd) outcome"
  st_write :: "u32 \<Rightarrow> block_no \<Rightarrow> block \<Rightarrow> 'd \<Rightarrow> (int \<times> 'd) outcome"

text \<open>
  What a client relies on when it keeps its data in one inode of a store: below the size,
  reads return the contents, and a write replaces one block of them. \<open>inv\<close> is the store's own
  invariant, \<open>nblk\<close> the number of blocks of the inode.
\<close>

locale block_store =
  fixes bs :: "'d inode_store"
    and bino :: u32
    and content :: "'d \<Rightarrow> block_no \<Rightarrow> block"
    and nblk :: nat
    and inv :: "'d \<Rightarrow> bool"
  assumes size_ok: "inv d \<Longrightarrow> owp (st_getsize bs bino d)
      (\<lambda>(r, d'). r = int nblk \<and> inv d' \<and> content d' = content d)"
    and read_ok: "inv d \<Longrightarrow> unat off < nblk \<Longrightarrow> owp (st_read bs bino off buf d)
      (\<lambda>(r, b, d'). r = 0 \<and> b = content d off \<and> inv d' \<and> content d' = content d)"
    and write_ok: "inv d \<Longrightarrow> unat off < nblk \<Longrightarrow> length b = BLOCK_SIZE \<Longrightarrow>
      owp (st_write bs bino off b d)
      (\<lambda>(r, d'). r = 0 \<and> inv d' \<and> content d' = (content d)(off := b))"
    and content_length: "inv d \<Longrightarrow> unat off < nblk \<Longrightarrow> length (content d off) = BLOCK_SIZE"
    and nblk_bound: "nblk < 2 ^ 31"
begin

lemma read_rule:
  assumes "inv d" "unat off < nblk"
    and "\<And>d'. inv d' \<Longrightarrow> content d' = content d \<Longrightarrow> Q (0, content d off, d')"
  shows "owp (st_read bs bino off buf d) Q"
  by (rule owp_mono [OF read_ok [OF assms(1,2)]]) (auto intro: assms(3))

lemma write_rule:
  assumes "inv d" "unat off < nblk" "length b = 512"
    and "\<And>d'. inv d' \<Longrightarrow> content d' = (content d)(off := b) \<Longrightarrow> Q (0, d')"
  shows "owp (st_write bs bino off b d) Q"
  by (rule owp_mono [OF write_ok [OF assms(1,2)]]) (auto simp: assms(3) intro: assms(4))

end

end
