(* ===== verification/Layout.thy ===== *)
theory Layout
  imports Inode_Store
begin

text \<open>
  The constants of the headers: the disk layout of library/file/disk.h, the memory layout of
  library/egos.h, the message structs of library/servers/servers.h and grass/syscall.h, and the
  process table of grass/process.h. Sizes and offsets are natural numbers, addresses 32-bit words.
\<close>

section \<open>The disk\<close>

definition PAGING_DEV_SIZE :: nat where [layout_defs]: "PAGING_DEV_SIZE = 1024 * 1024"
definition GRASS_NEXEC :: nat where [layout_defs]: "GRASS_NEXEC = 8"
definition GRASS_EXEC_SIZE :: nat where [layout_defs]: "GRASS_EXEC_SIZE = 1024 * 1024"
definition FS_DISK_SIZE :: nat where [layout_defs]: "FS_DISK_SIZE = 1024 * 1024 * 2"
definition GRASS_EXEC_SEGMENT :: nat where [layout_defs]:
  "GRASS_EXEC_SEGMENT = GRASS_EXEC_SIZE div GRASS_NEXEC div BLOCK_SIZE"
definition GRASS_EXEC_START :: nat where [layout_defs]:
  "GRASS_EXEC_START = PAGING_DEV_SIZE div BLOCK_SIZE"
definition SYS_PROC_EXEC_START :: nat where [layout_defs]:
  "SYS_PROC_EXEC_START = GRASS_EXEC_START + GRASS_EXEC_SEGMENT"
definition SYS_FILE_EXEC_START :: nat where [layout_defs]:
  "SYS_FILE_EXEC_START = GRASS_EXEC_START + GRASS_EXEC_SEGMENT * 2"
definition SYS_DIR_EXEC_START :: nat where [layout_defs]:
  "SYS_DIR_EXEC_START = GRASS_EXEC_START + GRASS_EXEC_SEGMENT * 3"
definition SYS_SHELL_EXEC_START :: nat where [layout_defs]:
  "SYS_SHELL_EXEC_START = GRASS_EXEC_START + GRASS_EXEC_SEGMENT * 4"
definition GRASS_FS_START :: nat where [layout_defs]:
  "GRASS_FS_START = (PAGING_DEV_SIZE + GRASS_EXEC_SIZE) div BLOCK_SIZE"
definition NINODES :: nat where [layout_defs]: "NINODES = 128"

section \<open>Memory\<close>

definition PAGE_SIZE :: nat where [layout_defs]: "PAGE_SIZE = 4096"
definition FRAME_CACHE_END :: u32 where [layout_defs]: "FRAME_CACHE_END = 0x80020000"
definition FRAME_CACHE_START :: u32 where [layout_defs]: "FRAME_CACHE_START = 0x80004000"
definition GRASS_STACK_TOP :: u32 where [layout_defs]: "GRASS_STACK_TOP = 0x80003f80"
definition APPS_STACK_TOP :: u32 where [layout_defs]: "APPS_STACK_TOP = 0x80002000"
definition SYSCALL_ARG :: u32 where [layout_defs]: "SYSCALL_ARG = 0x80000400"
definition APPS_ARG :: u32 where [layout_defs]: "APPS_ARG = 0x80000000"
definition APPS_SIZE :: u32 where [layout_defs]: "APPS_SIZE = 0x00003000"
definition APPS_ENTRY :: u32 where [layout_defs]: "APPS_ENTRY = 0x08005000"
definition GRASS_SIZE :: u32 where [layout_defs]: "GRASS_SIZE = 0x00002800"
definition GRASS_ENTRY :: u32 where [layout_defs]: "GRASS_ENTRY = 0x08002800"

datatype translation_mode = PAGE_TABLE | SOFT_TLB
datatype platform_type = ARTY | QEMU_SIFIVE | QEMU_LATEST

definition MSIP :: "platform_type \<Rightarrow> u32" where [layout_defs]:
  "MSIP p = (if p = ARTY then 0x2000000 else 0x2000004)"
definition SPI_BASE :: "platform_type \<Rightarrow> u32" where [layout_defs]:
  "SPI_BASE p = (if p = ARTY then 0x10024000 else 0x10050000)"
definition UART0_BASE :: "platform_type \<Rightarrow> u32" where [layout_defs]:
  "UART0_BASE p = (if p = QEMU_LATEST then 0x10010000 else 0x10013000)"

section \<open>Processes and messages\<close>

definition GPID_UNUSED :: int where [layout_defs]: "GPID_UNUSED = 0"
definition GPID_PROCESS :: int where [layout_defs]: "GPID_PROCESS = 1"
definition GPID_FILE :: int where [layout_defs]: "GPID_FILE = 2"
definition GPID_DIR :: int where [layout_defs]: "GPID_DIR = 3"
definition GPID_SHELL :: int where [layout_defs]: "GPID_SHELL = 4"
definition GPID_USER_START :: int where [layout_defs]: "GPID_USER_START = 5"

definition MAX_NPROCESS :: nat where [layout_defs]: "MAX_NPROCESS = 8"
definition SAVED_REGISTER_NUM :: nat where [layout_defs]: "SAVED_REGISTER_NUM = 29"
definition SAVED_REGISTER_SIZE :: nat where [layout_defs]:
  "SAVED_REGISTER_SIZE = SAVED_REGISTER_NUM * 4"
definition SAVED_REGISTER_ADDR :: u32 where [layout_defs]:
  "SAVED_REGISTER_ADDR = GRASS_STACK_TOP - of_nat SAVED_REGISTER_SIZE"

definition SYSCALL_MSG_LEN :: nat where [layout_defs]: "SYSCALL_MSG_LEN = 1024"
definition CMD_NARGS :: nat where [layout_defs]: "CMD_NARGS = 16"
definition CMD_ARG_LEN :: nat where [layout_defs]: "CMD_ARG_LEN = 32"
definition DIR_NAME_SIZE :: nat where [layout_defs]: "DIR_NAME_SIZE = 32"

text \<open>
  Sizes of the structs on RV32, where an int, an enum and a pointer take four bytes and no
  member needs padding, and offsets of the members of struct syscall.
\<close>

definition sizeof_proc_request :: nat where [layout_defs]:
  "sizeof_proc_request = 4 + 4 + CMD_NARGS * CMD_ARG_LEN"
definition sizeof_proc_reply :: nat where [layout_defs]: "sizeof_proc_reply = 4"
definition sizeof_file_request :: nat where [layout_defs]:
  "sizeof_file_request = 4 + 4 + 4 + BLOCK_SIZE"
definition sizeof_file_reply :: nat where [layout_defs]: "sizeof_file_reply = 4 + BLOCK_SIZE"
definition sizeof_dir_request :: nat where [layout_defs]:
  "sizeof_dir_request = 4 + 4 + DIR_NAME_SIZE"
definition sizeof_dir_reply :: nat where [layout_defs]: "sizeof_dir_reply = 4 + 4"
definition sizeof_sys_msg :: nat where [layout_defs]: "sizeof_sys_msg = 4 + 4 + SYSCALL_MSG_LEN"
definition sizeof_syscall :: nat where [layout_defs]: "sizeof_syscall = 4 + sizeof_sys_msg + 4"

definition SC_TYPE :: u32 where [layout_defs]: "SC_TYPE = SYSCALL_ARG"
definition SC_MSG :: u32 where [layout_defs]: "SC_MSG = SYSCALL_ARG + 4"
definition SC_SENDER :: u32 where [layout_defs]: "SC_SENDER = SYSCALL_ARG + 4"
definition SC_RECEIVER :: u32 where [layout_defs]: "SC_RECEIVER = SYSCALL_ARG + 8"
definition SC_CONTENT :: u32 where [layout_defs]: "SC_CONTENT = SYSCALL_ARG + 12"
definition SC_RETVAL :: u32 where [layout_defs]:
  "SC_RETVAL = SYSCALL_ARG + 4 + of_nat sizeof_sys_msg"

definition SYS_UNUSED :: u32 where [layout_defs]: "SYS_UNUSED = 0"
definition SYS_RECV :: u32 where [layout_defs]: "SYS_RECV = 1"
definition SYS_SEND :: u32 where [layout_defs]: "SYS_SEND = 2"

end
