(* ===== verification/Memory.thy ===== *)
theory Memory
  imports Layout
begin

text \<open>
  Byte-addressed memory, a function on 32-bit addresses, with the accesses the C code makes:
  loads and stores of words, memcpy and memset. Addresses wrap around at the end of the address
  space like the pointers of the machine.
\<close>

type_synonym mem = "u32 \<Rightarrow> byte"

definition mem_read :: "mem \<Rightarrow> u32 \<Rightarrow> nat \<Rightarrow> byte list" where
  "mem_read m a n = map (\<lambda>i. m (a + of_nat i)) [0..<n]"

definition mem_write :: "mem \<Rightarrow> u32 \<Rightarrow> byte list \<Rightarrow> mem" where
  "mem_write m a bs = (\<lambda>x. if unat (x - a) < length bs then bs ! unat (x - a) else m x)"

definition load32 :: "mem \<Rightarrow> u32 \<Rightarrow> u32" where
  "load32 m a = word32_of (m a) (m (a + 1)) (m (a + 2)) (m (a + 3))"

definition word_bytes :: "u32 \<Rightarrow> byte list" where
  "word_bytes v = [byte_of v 0, byte_of v 1, byte_of v 2, byte_of v 3]"

definition store32 :: "mem \<Rightarrow> u32 \<Rightarrow> u32 \<Rightarrow> mem" where
  "store32 m a v = mem_write m a (word_bytes v)"

definition memcpy :: "mem \<Rightarrow> u32 \<Rightarrow> u32 \<Rightarrow> nat \<Rightarrow> mem" where
  "memcpy m dst src n = mem_write m dst (mem_read m src n)"

definition memset :: "mem \<Rightarrow> u32 \<Rightarrow> byte \<Rightarrow> nat \<Rightarrow> mem" where
  "memset m dst b n = mem_write m dst (replicate n b)"

section \<open>Regions\<close>

text \<open>The region of \<open>n\<close> bytes at address \<open>a\<close>, modulo the size of the address space.\<close>

definition in_region :: "u32 \<Rightarrow> nat \<Rightarrow> u32 \<Rightarrow> bool" where
  "in_region a n x \<longleftrightarrow> unat (x - a) < n"

definition disjoint_regions :: "u32 \<Rightarrow> nat \<Rightarrow> u32 \<Rightarrow> nat \<Rightarrow> bool" where
  "disjoint_regions a n b k \<longleftrightarrow> (\<forall>x. \<not> (in_region a n x \<and> in_region b k x))"

lemma disjoint_regions_sym: "disjoint_regions a n b k \<longleftrightarrow> disjoint_regions b k a n"
  by (auto simp: disjoint_regions_def)

lemma in_region_nat:
  assumes "unat a + n \<le> 2 ^ 32"
  shows "in_region a n x \<longleftrightarrow> unat a \<le> unat x \<and> unat x < unat a + n"
proof (cases "a \<le> x")
  case True
  then have "unat (x - a) = unat x - unat a" by (simp add: unat_sub)
  with True show ?thesis by (auto simp: in_region_def word_le_nat_alt)
next
  case False
  then have lt: "unat x < unat a" by (simp add: word_le_nat_alt)
  have "unat (x - a) = unat x + 2 ^ 32 - unat a"
    using lt unat_u32_bound [of a] unat_u32_bound [of x] by (simp add: unat_sub_if_size word_size word_le_nat_alt)
  with lt assms show ?thesis by (auto simp: in_region_def)
qed

lemma disjoint_regionsI:
  assumes "unat a + n \<le> 2 ^ 32" "unat b + k \<le> 2 ^ 32" "unat a + n \<le> unat b \<or> unat b + k \<le> unat a"
  shows "disjoint_regions a n b k"
  using assms by (auto simp: disjoint_regions_def in_region_nat)

lemma in_region_offset: "i < n \<Longrightarrow> n \<le> 2 ^ 32 \<Longrightarrow> in_region a n (a + of_nat i)"
  by (simp add: in_region_def unat_of_nat take_bit_nat_eq_self)

section \<open>Reading after writing\<close>

lemma length_mem_read [simp]: "length (mem_read m a n) = n"
  by (simp add: mem_read_def)

lemma length_word_bytes [simp]: "length (word_bytes v) = 4"
  by (simp add: word_bytes_def)

lemma nth_mem_read [simp]: "i < n \<Longrightarrow> mem_read m a n ! i = m (a + of_nat i)"
  by (simp add: mem_read_def)

lemma mem_read_cong:
  assumes "\<And>x. in_region a n x \<Longrightarrow> m x = m' x" "n \<le> 2 ^ 32"
  shows "mem_read m a n = mem_read m' a n"
  using assms in_region_offset by (auto simp: mem_read_def)

lemma mem_read_const:
  assumes "\<And>x. in_region a n x \<Longrightarrow> m x = b" "n \<le> 2 ^ 32"
  shows "mem_read m a n = replicate n b"
  using assms in_region_offset by (auto intro!: nth_equalityI)

lemma mem_write_outside: "\<not> in_region a (length bs) x \<Longrightarrow> mem_write m a bs x = m x"
  by (simp add: mem_write_def in_region_def)

lemma mem_read_write_same [simp]:
  assumes "length bs = n" "n \<le> 2 ^ 32"
  shows "mem_read (mem_write m a bs) a n = bs"
  using assms by (auto intro!: nth_equalityI simp: mem_write_def unat_of_nat take_bit_nat_eq_self)

lemma mem_read_write_disjoint:
  assumes "disjoint_regions a n b (length bs)" "n \<le> 2 ^ 32"
  shows "mem_read (mem_write m b bs) a n = mem_read m a n"
  by (rule mem_read_cong) (use assms in \<open>auto simp: disjoint_regions_def mem_write_outside\<close>)

lemma load32_mem_read: "load32 m a = word32_of (mem_read m a 4 ! 0) (mem_read m a 4 ! 1)
    (mem_read m a 4 ! 2) (mem_read m a 4 ! 3)"
  by (simp add: load32_def)

lemma load32_store32_same [simp]: "load32 (store32 m a v) a = v"
  by (simp add: load32_mem_read store32_def) (simp add: word_bytes_def)

lemma load32_cong: "mem_read m a 4 = mem_read m' a 4 \<Longrightarrow> load32 m a = load32 m' a"
  by (simp add: load32_mem_read)

lemma load32_write_disjoint:
  "disjoint_regions a 4 b (length bs) \<Longrightarrow> load32 (mem_write m b bs) a = load32 m a"
  by (rule load32_cong) (simp add: mem_read_write_disjoint)

lemma load32_store32_disjoint:
  "disjoint_regions a 4 b 4 \<Longrightarrow> load32 (store32 m b v) a = load32 m a"
  by (simp add: store32_def load32_write_disjoint)

lemma mem_write_self: "n \<le> 2 ^ 32 \<Longrightarrow> mem_write m a (mem_read m a n) = m"
  by (auto simp: mem_write_def fun_eq_iff)

lemma mem_read_write_part:
  assumes "off + length bs \<le> n" "n < 2 ^ 32"
  shows "mem_read (mem_write m (a + of_nat off) bs) a n = splice_at off bs (mem_read m a n)"
proof (rule nth_equalityI)
  show "length (mem_read (mem_write m (a + of_nat off) bs) a n) = length (splice_at off bs (mem_read m a n))"
    using assms by simp
  fix i assume "i < length (mem_read (mem_write m (a + of_nat off) bs) a n)"
  then have i: "i < n" by simp
  define x :: u32 where "x = of_nat i - of_nat off"
  have x: "unat x = (if off \<le> i then i - off else 2 ^ 32 - (off - i))"
    using i assms by (auto simp: x_def unat_sub_if_size word_size unat_of_nat take_bit_nat_eq_self word_le_nat_alt)
  then have "unat x < length bs \<longleftrightarrow> off \<le> i \<and> i < off + length bs"
    using i assms by auto
  then show "mem_read (mem_write m (a + of_nat off) bs) a n ! i = splice_at off bs (mem_read m a n) ! i"
    using i assms x by (simp add: nth_splice_at mem_write_def x_def [symmetric])
qed

lemma mem_read_part:
  assumes "off + n \<le> N"
  shows "mem_read m (a + of_nat off) n = take n (drop off (mem_read m a N))"
  using assms by (auto intro!: nth_equalityI simp: add.assoc)

end
