(* ===== verification/Earth.thy ===== *)
theory Earth
  imports Memory
begin

text \<open>
  The state of the earth layer, the paging device of earth/dev_page.c and the memory management
  unit of earth/cpu_mmu.c. Function pointers of struct earth that reach a device are fields of
  the state record, functions over the state \<open>'d\<close> of the devices.
\<close>

section \<open>State\<close>

record frame_mapping =
  fm_use :: int
  fm_pid :: int
  fm_page_no :: u32

text \<open>
  \<open>rands\<close> is the sequence of values that the coming calls of rand() return. The cache slots are
  ints in the source and compared with unsigned frame numbers; they are words here and -1 is
  0xFFFFFFFF.
\<close>

record 'd earth =
  mem :: mem
  platform :: platform_type
  translation :: translation_mode
  table :: "frame_mapping list"
  curr_vm_pid :: int
  cache_slots :: "u32 list"
  rands :: "nat \<Rightarrow> u32"
  dev :: 'd
  disk_read :: "u32 \<Rightarrow> u32 \<Rightarrow> 'd \<Rightarrow> (int \<times> byte list \<times> 'd) outcome"
  disk_write :: "u32 \<Rightarrow> u32 \<Rightarrow> byte list \<Rightarrow> 'd \<Rightarrow> (int \<times> 'd) outcome"
  timer_reset :: "'d \<Rightarrow> int \<times> 'd"
  tty_recv_intr :: "'d \<Rightarrow> int \<times> 'd"

section \<open>The paging device\<close>

definition ARTY_CACHED_NFRAMES :: nat where [layout_defs]: "ARTY_CACHED_NFRAMES = 28"
definition NBLOCKS_PER_PAGE :: nat where [layout_defs]: "NBLOCKS_PER_PAGE = PAGE_SIZE div BLOCK_SIZE"

definition pages_start :: u32 where
  "pages_start = FRAME_CACHE_START"

definition slot_addr :: "nat \<Rightarrow> u32" where
  "slot_addr i = pages_start + of_nat (PAGE_SIZE * i)"

definition cache_eviction :: "'d earth \<Rightarrow> (nat \<times> 'd earth) outcome" where
  "cache_eviction e =
     (let idx = unat (rands e 0 mod of_nat ARTY_CACHED_NFRAMES);
          e = e\<lparr>rands := (\<lambda>n. rands e (Suc n))\<rparr>;
          frame_id = cache_slots e ! idx in
      obind (disk_write e (frame_id * of_nat NBLOCKS_PER_PAGE) (of_nat NBLOCKS_PER_PAGE)
               (mem_read (mem e) (slot_addr idx) PAGE_SIZE) (dev e)) (\<lambda>(_, d).
      Ret (idx, e\<lparr>dev := d\<rparr>)))"

definition paging_init :: "'d earth \<Rightarrow> 'd earth" where
  "paging_init e = e\<lparr>cache_slots := replicate ARTY_CACHED_NFRAMES 0xFFFFFFFF\<rparr>"

definition paging_invalidate_cache :: "u32 \<Rightarrow> 'd earth \<Rightarrow> 'd earth" where
  "paging_invalidate_cache frame_id e =
     e\<lparr>cache_slots := map (\<lambda>c. if c = frame_id then 0xFFFFFFFF else c) (cache_slots e)\<rparr>"

text \<open>The loop that looks for a slot of the cache that holds a frame.\<close>

fun find_slot :: "u32 \<Rightarrow> nat \<Rightarrow> u32 list \<Rightarrow> nat option" where
  "find_slot frame_id i [] = None"
| "find_slot frame_id i (c # cs) = (if c = frame_id then Some i else find_slot frame_id (Suc i) cs)"

definition paging_write :: "u32 \<Rightarrow> u32 \<Rightarrow> 'd earth \<Rightarrow> 'd earth outcome" where
  "paging_write frame_id page_no e =
     (let src = push_bit 12 page_no in
      if platform e \<noteq> ARTY then
        Ret (e\<lparr>mem := memcpy (mem e) (pages_start + frame_id * of_nat PAGE_SIZE) src PAGE_SIZE\<rparr>)
      else case find_slot frame_id 0 (cache_slots e) of
        Some i \<Rightarrow> Ret (e\<lparr>mem := memcpy (mem e) (slot_addr i) src PAGE_SIZE\<rparr>)
      | None \<Rightarrow>
          obind (cache_eviction e) (\<lambda>(free_idx, e).
          Ret (e\<lparr>cache_slots := (cache_slots e)[free_idx := frame_id],
                 mem := memcpy (mem e) (slot_addr free_idx) src PAGE_SIZE\<rparr>)))"

text \<open>
  The loop of paging_read: the slot of the frame if there is one, and otherwise the first empty
  slot, which may not exist.
\<close>

fun read_scan :: "u32 \<Rightarrow> nat \<Rightarrow> nat option \<Rightarrow> u32 list \<Rightarrow> nat option \<times> nat option" where
  "read_scan frame_id i free_idx [] = (None, free_idx)"
| "read_scan frame_id i free_idx (c # cs) =
     (let free_idx = (if c = 0xFFFFFFFF \<and> free_idx = None then Some i else free_idx) in
      if c = frame_id then (Some i, free_idx) else read_scan frame_id (Suc i) free_idx cs)"

definition paging_read :: "u32 \<Rightarrow> bool \<Rightarrow> 'd earth \<Rightarrow> (u32 \<times> 'd earth) outcome" where
  "paging_read frame_id alloc_only e =
     (if platform e \<noteq> ARTY then Ret (pages_start + frame_id * of_nat PAGE_SIZE, e)
      else case read_scan frame_id 0 None (cache_slots e) of
        (Some i, _) \<Rightarrow> Ret (slot_addr i, e)
      | (None, free) \<Rightarrow>
          obind (case free of Some j \<Rightarrow> Ret (j, e) | None \<Rightarrow> cache_eviction e) (\<lambda>(free_idx, e).
          let e = e\<lparr>cache_slots := (cache_slots e)[free_idx := frame_id]\<rparr> in
          if alloc_only then Ret (slot_addr free_idx, e)
          else obind (disk_read e (frame_id * of_nat NBLOCKS_PER_PAGE) (of_nat NBLOCKS_PER_PAGE) (dev e))
            (\<lambda>(_, bs, d).
            Ret (slot_addr free_idx,
                 e\<lparr>dev := d, mem := mem_write (mem e) (slot_addr free_idx) bs\<rparr>))))"

section \<open>Frames\<close>

definition NFRAMES :: nat where [layout_defs]: "NFRAMES = 256"

text \<open>The loop of mmu_alloc that looks for an unused frame.\<close>

fun find_unused :: "nat \<Rightarrow> frame_mapping list \<Rightarrow> nat option" where
  "find_unused i [] = None"
| "find_unused i (f # fs) = (if fm_use f = 0 then Some i else find_unused (Suc i) fs)"

definition mmu_alloc :: "'d earth \<Rightarrow> (u32 \<times> u32 \<times> 'd earth) outcome" where
  "mmu_alloc e =
     (case find_unused 0 (table e) of
        None \<Rightarrow> Fatal ''mmu_alloc: no more available frames''
      | Some i \<Rightarrow>
          obind (paging_read (of_nat i) True e) (\<lambda>(cached_addr, e).
          Ret (of_nat i, cached_addr, e\<lparr>table := (table e)[i := (table e ! i)\<lparr>fm_use := 1\<rparr>]\<rparr>)))"

definition zero_mapping :: frame_mapping where
  "zero_mapping = \<lparr>fm_use = 0, fm_pid = 0, fm_page_no = 0\<rparr>"

definition free_frame :: "int \<Rightarrow> nat \<Rightarrow> 'd earth \<Rightarrow> 'd earth" where
  "free_frame pid i e =
     (if fm_use (table e ! i) \<noteq> 0 \<and> fm_pid (table e ! i) = pid then
        let e = paging_invalidate_cache (of_nat i) e in
        e\<lparr>table := (table e)[i := zero_mapping]\<rparr>
      else e)"

definition mmu_free :: "int \<Rightarrow> 'd earth \<Rightarrow> 'd earth" where
  "mmu_free pid e = fold (free_frame pid) [0..<NFRAMES] e"

section \<open>Software TLB\<close>

text \<open>A frame number beyond the table is an error of the model.\<close>

definition soft_tlb_map :: "int \<Rightarrow> u32 \<Rightarrow> u32 \<Rightarrow> 'd earth \<Rightarrow> 'd earth outcome" where
  "soft_tlb_map pid page_no frame_id e =
     (if unat frame_id < length (table e) then
        Ret (e\<lparr>table := (table e)[unat frame_id :=
               (table e ! unat frame_id)\<lparr>fm_pid := pid, fm_page_no := page_no\<rparr>]\<rparr>)
      else Fatal ''soft_tlb_map: out of bounds'')"

definition unmap_frame :: "int \<Rightarrow> nat \<Rightarrow> 'd earth \<Rightarrow> 'd earth outcome" where
  "unmap_frame pid i e =
     (if fm_use (table e ! i) \<noteq> 0 \<and> fm_pid (table e ! i) = pid
      then paging_write (of_nat i) (fm_page_no (table e ! i)) e else Ret e)"

definition map_frame :: "int \<Rightarrow> nat \<Rightarrow> 'd earth \<Rightarrow> 'd earth outcome" where
  "map_frame pid i e =
     (if fm_use (table e ! i) \<noteq> 0 \<and> fm_pid (table e ! i) = pid
      then obind (paging_read (of_nat i) False e) (\<lambda>(src, e).
        Ret (e\<lparr>mem := memcpy (mem e) (push_bit 12 (fm_page_no (table e ! i))) src PAGE_SIZE\<rparr>))
      else Ret e)"

definition soft_tlb_switch :: "int \<Rightarrow> 'd earth \<Rightarrow> 'd earth outcome" where
  "soft_tlb_switch pid e =
     (if pid = curr_vm_pid e then Ret e
      else obind (ofold (unmap_frame (curr_vm_pid e)) [0..<NFRAMES] e) (\<lambda>e.
        obind (ofold (map_frame pid) [0..<NFRAMES] e) (\<lambda>e.
        Ret (e\<lparr>curr_vm_pid := pid\<rparr>))))"

definition page_table_map :: "int \<Rightarrow> u32 \<Rightarrow> u32 \<Rightarrow> 'd earth \<Rightarrow> 'd earth outcome" where
  "page_table_map pid page_no frame_id e =
     (if pid \<ge> 32 then Fatal ''page_table_map: pid too large''
      else soft_tlb_map pid page_no frame_id e)"

definition page_table_switch :: "int \<Rightarrow> 'd earth \<Rightarrow> 'd earth outcome" where
  "page_table_switch pid e = soft_tlb_switch pid e"

text \<open>The function pointers mmu_map and mmu_switch of struct earth, as mmu_init sets them.\<close>

definition mmu_map :: "int \<Rightarrow> u32 \<Rightarrow> u32 \<Rightarrow> 'd earth \<Rightarrow> 'd earth outcome" where
  "mmu_map pid page_no frame_id e =
     (case translation e of PAGE_TABLE \<Rightarrow> page_table_map pid page_no frame_id e
      | SOFT_TLB \<Rightarrow> soft_tlb_map pid page_no frame_id e)"

definition mmu_switch :: "int \<Rightarrow> 'd earth \<Rightarrow> 'd earth outcome" where
  "mmu_switch pid e =
     (case translation e of PAGE_TABLE \<Rightarrow> page_table_switch pid e
      | SOFT_TLB \<Rightarrow> soft_tlb_switch pid e)"

end
