(* ===== verification/Sd_Driver.thy ===== *)
theory Sd_Driver
  imports Earth
begin

text \<open>
  The SD card driver of earth/sd/ and the disk of earth/dev_disk.c. The SPI controller and the card
  behind it are not part of the code: they are a parameter, the effect of loads and stores of the
  registers of the controller on a state \<open>'c\<close>. Waiting loops may run for ever, so a call that does
  not return is \<open>None\<close>.
\<close>

section \<open>Device code\<close>

type_synonym ('c, 'a) dev_op = "'c \<Rightarrow> ('a \<times> 'c) outcome option"

definition dret :: "'a \<Rightarrow> ('c, 'a) dev_op" where
  "dret x = (\<lambda>c. Some (Ret (x, c)))"

definition dfatal :: "string \<Rightarrow> ('c, 'a) dev_op" where
  "dfatal e = (\<lambda>c. Some (Fatal e))"

definition dbind :: "('c, 'a) dev_op \<Rightarrow> ('a \<Rightarrow> ('c, 'b) dev_op) \<Rightarrow> ('c, 'b) dev_op" where
  "dbind m f = (\<lambda>c. case m c of None \<Rightarrow> None | Some (Fatal e) \<Rightarrow> Some (Fatal e) | Some (Ret (x, c')) \<Rightarrow> f x c')"

text \<open>Repeat an operation until its result has a property.\<close>

partial_function (option) poll :: "('c, 'a) dev_op \<Rightarrow> ('a \<Rightarrow> bool) \<Rightarrow> 'c \<Rightarrow> ('a \<times> 'c) outcome option" where
  "poll rd P c = Option.bind (rd c) (\<lambda>r. case r of Fatal e \<Rightarrow> Some (Fatal e)
     | Ret (x, c') \<Rightarrow> if P x then Some (Ret (x, c')) else poll rd P c')"

primrec drepeat :: "nat \<Rightarrow> ('c, 'a) dev_op \<Rightarrow> ('c, 'a list) dev_op" where
  "drepeat 0 m = dret []"
| "drepeat (Suc n) m = dbind m (\<lambda>x. dbind (drepeat n m) (\<lambda>xs. dret (x # xs)))"

primrec dmap :: "('b \<Rightarrow> ('c, 'a) dev_op) \<Rightarrow> 'b list \<Rightarrow> ('c, 'a list) dev_op" where
  "dmap f [] = dret []"
| "dmap f (y # ys) = dbind (f y) (\<lambda>x. dbind (dmap f ys) (\<lambda>xs. dret (x # xs)))"

section \<open>SPI\<close>

text \<open>Loads and stores of the registers of the SPI controller, by offset.\<close>

record 'c spi =
  spi_load :: "u32 \<Rightarrow> 'c \<Rightarrow> u32 \<times> 'c"
  spi_store :: "u32 \<Rightarrow> u32 \<Rightarrow> 'c \<Rightarrow> 'c"

definition SPI_SCKDIV :: u32 where "SPI_SCKDIV = 0"
definition SPI_CSDEF :: u32 where "SPI_CSDEF = 20"
definition SPI_CSMODE :: u32 where "SPI_CSMODE = 24"
definition SPI_TXDATA :: u32 where "SPI_TXDATA = 72"
definition SPI_RXDATA :: u32 where "SPI_RXDATA = 76"
definition SPI_FCTRL :: u32 where "SPI_FCTRL = 96"

definition reg_load :: "'c spi \<Rightarrow> u32 \<Rightarrow> ('c, u32) dev_op" where
  "reg_load s r = (\<lambda>c. Some (Ret (spi_load s r c)))"

definition reg_store :: "'c spi \<Rightarrow> u32 \<Rightarrow> u32 \<Rightarrow> ('c, unit) dev_op" where
  "reg_store s r v = (\<lambda>c. Some (Ret ((), spi_store s r v c)))"

text \<open>The byte store on the Arty board and the word store on QEMU are the same store of one byte.\<close>

definition send_data_byte :: "'c spi \<Rightarrow> byte \<Rightarrow> ('c, byte) dev_op" where
  "send_data_byte s b =
     dbind (poll (reg_load s SPI_TXDATA) (\<lambda>v. \<not> bit v 31)) (\<lambda>_.
     dbind (reg_store s SPI_TXDATA (ucast b)) (\<lambda>_.
     dbind (poll (reg_load s SPI_RXDATA) (\<lambda>v. \<not> bit v 31)) (\<lambda>rxdata.
     dret (ucast rxdata))))"

definition recv_data_byte :: "'c spi \<Rightarrow> ('c, byte) dev_op" where
  "recv_data_byte s = send_data_byte s 0xFF"

section \<open>Commands\<close>

text \<open>The wait for the reply to a command, with \<open>n\<close> attempts left.\<close>

primrec cmd_reply :: "'c spi \<Rightarrow> nat \<Rightarrow> ('c, byte) dev_op" where
  "cmd_reply s 0 = dfatal ''SD card not responding cmd''"
| "cmd_reply s (Suc n) = dbind (recv_data_byte s) (\<lambda>reply. if reply \<noteq> 0xFF then dret reply else cmd_reply s n)"

definition sd_exec_cmd :: "'c spi \<Rightarrow> byte list \<Rightarrow> ('c, byte) dev_op" where
  "sd_exec_cmd s cmd = dbind (dmap (send_data_byte s) cmd) (\<lambda>_. cmd_reply s 8000)"

definition wait_ready :: "'c spi \<Rightarrow> ('c, byte) dev_op" where
  "wait_ready s = poll (recv_data_byte s) (\<lambda>b. b = 0xFF)"

definition sd_exec_acmd :: "'c spi \<Rightarrow> byte list \<Rightarrow> ('c, byte) dev_op" where
  "sd_exec_acmd s cmd =
     dbind (wait_ready s) (\<lambda>_.
     dbind (sd_exec_cmd s [0x77, 0, 0, 0, 0, 0xFF]) (\<lambda>_.
     dbind (wait_ready s) (\<lambda>_.
     sd_exec_cmd s cmd)))"

definition spi_set_clock :: "'c spi \<Rightarrow> int \<Rightarrow> int \<Rightarrow> ('c, unit) dev_op" where
  "spi_set_clock s cpu_clock baud =
     (let d = cpu_clock div (2 * baud) - 1 in reg_store s SPI_SCKDIV (of_int d AND 0xFFF))"

datatype sd_type = SD_TYPE_SD1 | SD_TYPE_SD2 | SD_TYPE_SDHC | SD_TYPE_UNKNOWN

text \<open>The reply to cmd8, the start of the card, and the reply to cmd58, as sdinit handles them.\<close>

definition sd_check_type :: "'c spi \<Rightarrow> ('c, sd_type) dev_op" where
  "sd_check_type s =
     dbind (sd_exec_cmd s [0x48, 0, 0, 1, 0xAA, 0x87]) (\<lambda>reply.
     if reply AND 4 \<noteq> 0 then dret SD_TYPE_SD1
     else
       dbind (drepeat 4 (recv_data_byte s)) (\<lambda>p.
       if word32_of (p ! 3) (p ! 2) (p ! 1) (p ! 0) AND 0xFFF \<noteq> 0x1AA then dfatal ''Fail to check SD card type''
       else dret SD_TYPE_SD2))"

definition sd_check_capacity :: "'c spi \<Rightarrow> ('c, sd_type) dev_op" where
  "sd_check_capacity s =
     dbind (sd_exec_cmd s [0x7A, 0, 0, 0, 0, 0xFF]) (\<lambda>_.
     dbind (drepeat 4 (recv_data_byte s)) (\<lambda>p.
     dbind (wait_ready s) (\<lambda>_.
     dret (if p ! 0 AND 0xC0 = 0xC0 then SD_TYPE_SDHC else SD_TYPE_SD2))))"

definition sdinit :: "'c spi \<Rightarrow> int \<Rightarrow> ('c, sd_type) dev_op" where
  "sdinit s cpu_clock =
     dbind (spi_set_clock s cpu_clock 100000) (\<lambda>_.
     dbind (reg_store s SPI_CSMODE 1) (\<lambda>_.
     dbind (reg_store s SPI_CSDEF 0) (\<lambda>_.
     dbind (reg_store s SPI_FCTRL 0) (\<lambda>_.
     dbind (drepeat 1000 (send_data_byte s 0xFF)) (\<lambda>_.
     dbind (reg_store s SPI_CSDEF 1) (\<lambda>_.
     dbind (sd_exec_cmd s [0x40, 0, 0, 0, 0, 0x95]) (\<lambda>reply.
     dbind (if reply = 1 then dret reply else poll (recv_data_byte s) (\<lambda>b. b = 1)) (\<lambda>_.
     dbind (wait_ready s) (\<lambda>_.
     dbind (spi_set_clock s cpu_clock (cpu_clock div 4)) (\<lambda>_.
     dbind (sd_check_type s) (\<lambda>type.
     dbind (wait_ready s) (\<lambda>_.
     dbind (poll (sd_exec_acmd s [0x69, if type = SD_TYPE_SD2 then 0x40 else 0, 0, 0, 0, 0xFF]) (\<lambda>r. r = 0)) (\<lambda>_.
     dbind (wait_ready s) (\<lambda>_.
     dbind (sd_exec_cmd s [0x50, 0, 0, 2, 0, 0xFF]) (\<lambda>_.
     dbind (wait_ready s) (\<lambda>_.
     if type = SD_TYPE_SD2 then sd_check_capacity s else dret type))))))))))))))))"

section \<open>Blocks\<close>

definition sd_address :: "sd_type \<Rightarrow> u32 \<Rightarrow> u32" where
  "sd_address type offset = (if type = SD_TYPE_SD2 then offset * of_nat BLOCK_SIZE else offset)"

definition cmd_arg :: "byte \<Rightarrow> u32 \<Rightarrow> byte list" where
  "cmd_arg cmd a = [cmd, byte_of a 3, byte_of a 2, byte_of a 1, byte_of a 0, 0xFF]"

definition single_read :: "'c spi \<Rightarrow> sd_type \<Rightarrow> u32 \<Rightarrow> ('c, byte list) dev_op" where
  "single_read s type offset =
     dbind (wait_ready s) (\<lambda>_.
     dbind (sd_exec_cmd s (cmd_arg 0x51 (sd_address type offset))) (\<lambda>reply.
     if reply \<noteq> 0 then dfatal ''SD card replies cmd17 with status''
     else
       dbind (poll (recv_data_byte s) (\<lambda>b. b = 0xFE)) (\<lambda>_.
       dbind (drepeat BLOCK_SIZE (recv_data_byte s)) (\<lambda>blk.
       dbind (recv_data_byte s) (\<lambda>_.
       dbind (recv_data_byte s) (\<lambda>_.
       dret blk))))))"

definition single_write :: "'c spi \<Rightarrow> sd_type \<Rightarrow> u32 \<Rightarrow> byte list \<Rightarrow> ('c, unit) dev_op" where
  "single_write s type offset src =
     dbind (wait_ready s) (\<lambda>_.
     dbind (sd_exec_cmd s (cmd_arg 0x58 (sd_address type offset))) (\<lambda>reply.
     if reply \<noteq> 0 then dfatal ''SD card replies cmd24 with status''
     else
       dbind (send_data_byte s 0xFE) (\<lambda>_.
       dbind (dmap (send_data_byte s) (take BLOCK_SIZE src)) (\<lambda>_.
       dbind (send_data_byte s 0xFF) (\<lambda>_.
       dbind (send_data_byte s 0xFF) (\<lambda>_.
       dbind (poll (recv_data_byte s) (\<lambda>b. b \<noteq> 0xFF)) (\<lambda>reply.
       if reply AND 0x1F \<noteq> 5 then dfatal ''SD card write ack with status'' else dret ())))))))"

primrec sdread :: "'c spi \<Rightarrow> sd_type \<Rightarrow> u32 \<Rightarrow> nat \<Rightarrow> ('c, byte list) dev_op" where
  "sdread s type offset 0 = dret []"
| "sdread s type offset (Suc n) =
     dbind (single_read s type offset) (\<lambda>b. dbind (sdread s type (offset + 1) n) (\<lambda>bs. dret (b @ bs)))"

primrec sdwrite :: "'c spi \<Rightarrow> sd_type \<Rightarrow> u32 \<Rightarrow> nat \<Rightarrow> byte list \<Rightarrow> ('c, unit) dev_op" where
  "sdwrite s type offset 0 src = dret ()"
| "sdwrite s type offset (Suc n) src =
     dbind (single_write s type offset (take BLOCK_SIZE src)) (\<lambda>_.
     sdwrite s type (offset + 1) n (drop BLOCK_SIZE src))"

section \<open>The disk\<close>

datatype disk_type = SD_CARD | FLASH_ROM

text \<open>\<open>rom\<close> is the memory that holds the disk image in the on-board ROM.\<close>

definition disk_read_op :: "'c spi \<Rightarrow> disk_type \<Rightarrow> sd_type \<Rightarrow> mem \<Rightarrow> u32 \<Rightarrow> u32 \<Rightarrow> ('c, int \<times> byte list) dev_op" where
  "disk_read_op s type sdt rom block_no nblocks =
     (case type of
        SD_CARD \<Rightarrow> dbind (sdread s sdt block_no (unat nblocks)) (\<lambda>bs. dret (0, bs))
      | FLASH_ROM \<Rightarrow>
          dret (0, mem_read rom (0x20800000 + block_no * of_nat BLOCK_SIZE) (unat (nblocks * of_nat BLOCK_SIZE))))"

definition disk_write_op :: "'c spi \<Rightarrow> disk_type \<Rightarrow> sd_type \<Rightarrow> u32 \<Rightarrow> u32 \<Rightarrow> byte list \<Rightarrow> ('c, int) dev_op" where
  "disk_write_op s type sdt block_no nblocks src =
     (case type of
        FLASH_ROM \<Rightarrow> dfatal ''disk_write: Writing to the read-only ROM''
      | SD_CARD \<Rightarrow> dbind (sdwrite s sdt block_no (unat nblocks) src) (\<lambda>_. dret 0))"

end
