(* ===== verification/Timer.thy ===== *)
theory Timer
  imports Sd_Driver
begin

text \<open>
  The timer of earth/cpu_timer.c. The devices behind the memory-mapped registers are a parameter: the
  effect of loads and stores of words on a state \<open>'c\<close>.
\<close>

section \<open>Memory-mapped registers\<close>

record 'c bus =
  bus_load :: "u32 \<Rightarrow> 'c \<Rightarrow> u32 \<times> 'c"
  bus_store :: "u32 \<Rightarrow> u32 \<Rightarrow> 'c \<Rightarrow> 'c"

definition REGW_load :: "'c bus \<Rightarrow> u32 \<Rightarrow> u32 \<Rightarrow> ('c, u32) dev_op" where
  "REGW_load b base off = (\<lambda>c. Some (Ret (bus_load b (base + off) c)))"

definition REGW_store :: "'c bus \<Rightarrow> u32 \<Rightarrow> u32 \<Rightarrow> u32 \<Rightarrow> ('c, unit) dev_op" where
  "REGW_store b base off v = (\<lambda>c. Some (Ret ((), bus_store b (base + off) v c)))"

section \<open>The timer\<close>

type_synonym u64 = "64 word"

text \<open>One iteration of the loop of mtime_get; the result is \<open>None\<close> when the loop goes on.\<close>

definition mtime_try :: "'c bus \<Rightarrow> ('c, u64 option) dev_op" where
  "mtime_try b =
     dbind (REGW_load b 0x200BFF8 4) (\<lambda>high.
     dbind (REGW_load b 0x200BFF8 0) (\<lambda>low.
     dbind (REGW_load b 0x200BFF8 4) (\<lambda>again.
     dret (if again \<noteq> high then None else Some (push_bit 32 (ucast high) OR ucast low)))))"

definition mtime_get :: "'c bus \<Rightarrow> ('c, u64) dev_op" where
  "mtime_get b = dbind (poll (mtime_try b) (\<lambda>r. r \<noteq> None)) (\<lambda>r. dret (the r))"

definition mtimecmp_set :: "'c bus \<Rightarrow> u32 \<Rightarrow> u64 \<Rightarrow> ('c, int) dev_op" where
  "mtimecmp_set b mhartid time =
     dbind (REGW_store b 0x2004000 (mhartid * 8 + 4) 0xFFFFFFFF) (\<lambda>_.
     dbind (REGW_store b 0x2004000 (mhartid * 8 + 0) (ucast time)) (\<lambda>_.
     dbind (REGW_store b 0x2004000 (mhartid * 8 + 4) (ucast (drop_bit 32 time))) (\<lambda>_.
     dret 0)))"

definition timer_reset_op :: "'c bus \<Rightarrow> u32 \<Rightarrow> u32 \<Rightarrow> ('c, int) dev_op" where
  "timer_reset_op b mhartid QUANTUM = dbind (mtime_get b) (\<lambda>t. mtimecmp_set b mhartid (t + ucast QUANTUM))"

text \<open>The result is the static variable QUANTUM.\<close>

definition timer_init :: "'c bus \<Rightarrow> u32 \<Rightarrow> platform_type \<Rightarrow> ('c, u32) dev_op" where
  "timer_init b mhartid p =
     dbind (mtimecmp_set b mhartid 0x0FFFFFFFFFFFFFFF) (\<lambda>_. dret (if p = ARTY then 5000 else 500000))"

section \<open>A clock\<close>

text \<open>
  What the manual promises of the registers: mtime is a counter that never goes back, here of at most
  \<open>D\<close> ticks between two accesses, read in two halves; the two halves of mtimecmp can be stored one at
  a time and change by nothing else.
\<close>

definition is_clint :: "'c bus \<Rightarrow> u32 \<Rightarrow> ('c \<Rightarrow> nat) \<Rightarrow> ('c \<Rightarrow> u64) \<Rightarrow> nat \<Rightarrow> bool" where
  "is_clint b mhartid now cmp D \<longleftrightarrow>
     (\<forall>c w c'. bus_load b 0x200BFFC c = (w, c') \<longrightarrow>
        w = of_nat (now c' div 2 ^ 32) \<and> now c \<le> now c' \<and> now c' \<le> now c + D \<and> cmp c' = cmp c) \<and>
     (\<forall>c w c'. bus_load b 0x200BFF8 c = (w, c') \<longrightarrow>
        w = of_nat (now c' mod 2 ^ 32) \<and> now c \<le> now c' \<and> now c' \<le> now c + D \<and> cmp c' = cmp c) \<and>
     (\<forall>c v. let c' = bus_store b (0x2004000 + (mhartid * 8 + 4)) v c in
        cmp c' = push_bit 32 (ucast v) OR take_bit 32 (cmp c) \<and> now c \<le> now c' \<and> now c' \<le> now c + D) \<and>
     (\<forall>c v. let c' = bus_store b (0x2004000 + mhartid * 8) v c in
        cmp c' = push_bit 32 (drop_bit 32 (cmp c)) OR ucast v \<and> now c \<le> now c' \<and> now c' \<le> now c + D)"

lemma is_clint_loads:
  assumes "is_clint b h now cmp D"
  obtains t1 t2 t3 c' where "mtime_try b c = Some (Ret (if (of_nat (t3 div 2 ^ 32) :: u32) \<noteq> of_nat (t1 div 2 ^ 32) then None
      else Some (push_bit 32 (ucast (of_nat (t1 div 2 ^ 32) :: u32)) OR ucast (of_nat (t2 mod 2 ^ 32) :: u32)), c'))"
    "now c \<le> t1" "t1 \<le> t2" "t2 \<le> t3" "t3 = now c'" "t3 \<le> now c + 3 * D" "cmp c' = cmp c"
proof -
  obtain w1 c1 where 1: "bus_load b 0x200BFFC c = (w1, c1)" by (cases "bus_load b 0x200BFFC c")
  obtain w2 c2 where 2: "bus_load b 0x200BFF8 c1 = (w2, c2)" by (cases "bus_load b 0x200BFF8 c1")
  obtain w3 c3 where 3: "bus_load b 0x200BFFC c2 = (w3, c3)" by (cases "bus_load b 0x200BFFC c2")
  have a: "w1 = of_nat (now c1 div 2 ^ 32) \<and> now c \<le> now c1 \<and> now c1 \<le> now c + D \<and> cmp c1 = cmp c"
    and b: "w2 = of_nat (now c2 mod 2 ^ 32) \<and> now c1 \<le> now c2 \<and> now c2 \<le> now c1 + D \<and> cmp c2 = cmp c1"
    and c: "w3 = of_nat (now c3 div 2 ^ 32) \<and> now c2 \<le> now c3 \<and> now c3 \<le> now c2 + D \<and> cmp c3 = cmp c2"
    using assms 1 2 3 unfolding is_clint_def by blast+
  have "mtime_try b c = Some (Ret (if w3 \<noteq> w1 then None else Some (push_bit 32 (ucast w1) OR ucast w2), c3))"
    by (simp add: mtime_try_def REGW_load_def dbind_def dret_def 1 2 3)
  then show thesis using a b c by (intro that [of "now c3" "now c1" "now c2" c3]) auto
qed

lemma of_nat_hi_eq: "m < 2 ^ 64 \<Longrightarrow> n < 2 ^ 64 \<Longrightarrow> (of_nat (m div 2 ^ 32) :: u32) = of_nat (n div 2 ^ 32) \<longleftrightarrow> m div 2 ^ 32 = n div 2 ^ 32"
proof -
  assume "m < 2 ^ 64" "n < 2 ^ 64"
  then have "m div 2 ^ 32 < 2 ^ 32" "n div 2 ^ 32 < 2 ^ 32" by (simp_all add: less_mult_imp_div_less)
  then have "unat (of_nat (m div 2 ^ 32) :: u32) = m div 2 ^ 32" "unat (of_nat (n div 2 ^ 32) :: u32) = n div 2 ^ 32"
    by (simp_all only: unat_of_nat take_bit_nat_eq_self_iff len_num1 len_bit0) simp_all
  then show ?thesis by metis
qed

lemma ucast_of_nat_u32: "n < 2 ^ 32 \<Longrightarrow> ucast (of_nat n :: u32) = (of_nat n :: u64)"
  by (simp add: word_unat_eq_iff unsigned_ucast_eq unat_of_nat take_bit_nat_eq_self)

lemma unat_halves:
  assumes "t < 2 ^ 64" "m div 2 ^ 32 = t div 2 ^ 32"
  shows "unat (push_bit 32 (ucast (of_nat (m div 2 ^ 32) :: u32)) OR ucast (of_nat (t mod 2 ^ 32) :: u32) :: u64) = t"
proof -
  define h l where "h = t div 2 ^ 32" and "l = t mod 2 ^ 32"
  have h: "h < 2 ^ 32" "l < 2 ^ 32" "t = h * 2 ^ 32 + l" using assms(1) by (simp_all add: h_def l_def less_mult_imp_div_less)
  have "push_bit 32 (ucast (of_nat h :: u32)) OR ucast (of_nat l :: u32) = (push_bit 32 (ucast (of_nat h :: u32)) + ucast (of_nat l :: u32) :: u64)"
    by (rule disjunctive_add [symmetric]) (auto simp: bit_simps dest: bit_imp_le_length)
  also have "\<dots> = of_nat t" using ucast_of_nat_u32 [OF h(1)] ucast_of_nat_u32 [OF h(2)] by (simp add: h(3) push_bit_eq_mult)
  also have "unat \<dots> = t" using assms(1) by (simp add: unat_of_nat take_bit_nat_eq_self)
  finally show ?thesis unfolding assms(2) h_def l_def .
qed

lemma mtime_try_ok:
  assumes cl: "is_clint b h now cmp D" and n: "now c + 3 * D < 2 ^ 64"
  obtains r c' where "mtime_try b c = Some (Ret (r, c'))" "now c \<le> now c'" "now c' \<le> now c + 3 * D" "cmp c' = cmp c"
    "\<And>t. r = Some t \<Longrightarrow> now c \<le> unat t \<and> unat t \<le> now c'"
    "r = None \<Longrightarrow> now c div 2 ^ 32 < now c' div 2 ^ 32"
proof -
  obtain t1 t2 t3 c' where l: "mtime_try b c = Some (Ret (if (of_nat (t3 div 2 ^ 32) :: u32) \<noteq> of_nat (t1 div 2 ^ 32) then None
      else Some (push_bit 32 (ucast (of_nat (t1 div 2 ^ 32) :: u32)) OR ucast (of_nat (t2 mod 2 ^ 32) :: u32)), c'))"
    and t: "now c \<le> t1" "t1 \<le> t2" "t2 \<le> t3" "t3 = now c'" "t3 \<le> now c + 3 * D" and cmp: "cmp c' = cmp c"
    by (rule is_clint_loads [OF cl])
  have lt: "t1 < 2 ^ 64" "t2 < 2 ^ 64" "t3 < 2 ^ 64" using t n by linarith+
  have d: "now c div 2 ^ 32 \<le> t1 div 2 ^ 32" "t1 div 2 ^ 32 \<le> t2 div 2 ^ 32" "t2 div 2 ^ 32 \<le> t3 div 2 ^ 32"
    using t by (simp_all only: div_le_mono)
  have eq: "(of_nat (t3 div 2 ^ 32) :: u32) = of_nat (t1 div 2 ^ 32) \<longleftrightarrow> t3 div 2 ^ 32 = t1 div 2 ^ 32" by (rule of_nat_hi_eq [OF lt(3,1)])
  have val: "unat (push_bit 32 (ucast (of_nat (t1 div 2 ^ 32) :: u32)) OR ucast (of_nat (t2 mod 2 ^ 32) :: u32) :: u64) = t2"
    if "t3 div 2 ^ 32 = t1 div 2 ^ 32" by (rule unat_halves [OF lt(2)]) (use that d in linarith)
  show thesis
  proof (rule that [OF l])
    show "now c \<le> now c'" "now c' \<le> now c + 3 * D" "cmp c' = cmp c" using t cmp by linarith+
  qed (use eq val t d in \<open>auto split: if_splits\<close>)
qed

lemma mtime_get_ok:
  assumes cl: "is_clint b h now cmp D" and n: "now c + 6 * D < 2 ^ 64" "6 * D \<le> 2 ^ 32"
  shows "\<exists>t c'. mtime_get b c = Some (Ret (t, c')) \<and> now c \<le> unat t \<and> unat t \<le> now c' \<and> now c' \<le> now c + 6 * D \<and> cmp c' = cmp c"
proof -
  have n3: "now c + 3 * D < 2 ^ 64" using n(1) by linarith
  obtain r1 c1 where 1: "mtime_try b c = Some (Ret (r1, c1))" "now c \<le> now c1" "now c1 \<le> now c + 3 * D" "cmp c1 = cmp c"
    "\<And>t. r1 = Some t \<Longrightarrow> now c \<le> unat t \<and> unat t \<le> now c1" "r1 = None \<Longrightarrow> now c div 2 ^ 32 < now c1 div 2 ^ 32"
    using mtime_try_ok [OF cl, of c] n3 by blast
  show ?thesis
  proof (cases r1)
    case (Some t)
    then show ?thesis using 1(1-4) 1(5) [OF Some] by (simp add: mtime_get_def poll.simps dbind_def dret_def)
  next
    case None
    have n3: "now c1 + 3 * D < 2 ^ 64" using n(1) 1(3) by linarith
    obtain r2 c2 where 2: "mtime_try b c1 = Some (Ret (r2, c2))" "now c1 \<le> now c2" "now c2 \<le> now c1 + 3 * D" "cmp c2 = cmp c1"
      "\<And>t. r2 = Some t \<Longrightarrow> now c1 \<le> unat t \<and> unat t \<le> now c2" "r2 = None \<Longrightarrow> now c1 div 2 ^ 32 < now c2 div 2 ^ 32"
      using mtime_try_ok [OF cl, of c1] n3 by blast
    have "r2 \<noteq> None"
    proof
      assume "r2 = None"
      then have "now c div 2 ^ 32 + 2 \<le> now c2 div 2 ^ 32" using 1(6) [OF None] 2(6) by linarith
      then have "(now c div 2 ^ 32 + 2) * 2 ^ 32 \<le> now c2 div 2 ^ 32 * 2 ^ 32" by (rule mult_le_mono1)
      then have "(now c div 2 ^ 32 + 2) * 2 ^ 32 \<le> now c2" using div_times_less_eq_dividend le_trans by blast
      moreover have "now c < (now c div 2 ^ 32 + 1) * 2 ^ 32" using dividend_less_div_times [of "2 ^ 32" "now c"] by (simp add: algebra_simps)
      ultimately show False using 1(3) 2(3) n(2) by (simp add: algebra_simps)
    qed
    then obtain t where t: "r2 = Some t" by blast
    then show ?thesis using None 1(1-4) 2(1-4) 2(5) [OF t] by (simp add: mtime_get_def poll.simps dbind_def dret_def)
  qed
qed

lemma cmp_writes:
  fixes z t z1 z2 :: u64
  defines "z1 \<equiv> push_bit 32 (ucast (mask 32 :: u32)) OR take_bit 32 z"
  defines "z2 \<equiv> push_bit 32 (drop_bit 32 z1) OR ucast (ucast t :: u32)"
  shows "push_bit 32 (mask 32) \<le> z1" "push_bit 32 (mask 32) \<le> z2" "push_bit 32 (ucast (ucast (drop_bit 32 t) :: u32)) OR take_bit 32 z2 = t"
proof -
  have m: "(ucast (mask 32 :: u32) :: u64) = mask 32" by (rule bit_word_eqI) (auto simp: bit_simps)
  show "push_bit 32 (mask 32) \<le> z1" unfolding z1_def m by (rule le_word_or2)
  have "drop_bit 32 z1 = mask 32" unfolding z1_def m by (rule bit_word_eqI) (auto simp: bit_simps)
  then show "push_bit 32 (mask 32) \<le> z2" unfolding z2_def by (simp only: le_word_or2)
  show "push_bit 32 (ucast (ucast (drop_bit 32 t) :: u32)) OR take_bit 32 z2 = t"
    unfolding z2_def by (rule bit_word_eqI) (auto simp: bit_simps)
qed

lemma mtimecmp_set_ok:
  assumes "is_clint b h now cmp D"
  shows "\<exists>c1 c2 c3. c1 = bus_store b (0x2004000 + (h * 8 + 4)) 0xFFFFFFFF c \<and> c2 = bus_store b (0x2004000 + h * 8) (ucast time) c1 \<and>
    c3 = bus_store b (0x2004000 + (h * 8 + 4)) (ucast (drop_bit 32 time)) c2 \<and> mtimecmp_set b h time c = Some (Ret (0, c3)) \<and> 0xFFFFFFFF00000000 \<le> cmp c1 \<and> 0xFFFFFFFF00000000 \<le> cmp c2 \<and> cmp c3 = time \<and>
    now c \<le> now c1 \<and> now c1 \<le> now c2 \<and> now c2 \<le> now c3 \<and> now c3 \<le> now c + 3 * D"
proof -
  let ?c1 = "bus_store b (0x2004000 + (h * 8 + 4)) 0xFFFFFFFF c"
  let ?c2 = "bus_store b (0x2004000 + h * 8) (ucast time) ?c1"
  let ?c3 = "bus_store b (0x2004000 + (h * 8 + 4)) (ucast (drop_bit 32 time)) ?c2"
  have hi: "cmp (bus_store b (0x2004000 + (h * 8 + 4)) v x) = push_bit 32 (ucast v) OR take_bit 32 (cmp x) \<and>
      now x \<le> now (bus_store b (0x2004000 + (h * 8 + 4)) v x) \<and> now (bus_store b (0x2004000 + (h * 8 + 4)) v x) \<le> now x + D" for v x
    using assms unfolding is_clint_def Let_def by blast
  have lo: "cmp (bus_store b (0x2004000 + h * 8) v x) = push_bit 32 (drop_bit 32 (cmp x)) OR ucast v \<and>
      now x \<le> now (bus_store b (0x2004000 + h * 8) v x) \<and> now (bus_store b (0x2004000 + h * 8) v x) \<le> now x + D" for v x
    using assms unfolding is_clint_def Let_def by blast
  have k: "(0xFFFFFFFF :: u32) = mask 32" "(0xFFFFFFFF00000000 :: u64) = push_bit 32 (mask 32)" by (simp_all add: mask_eq_exp_minus_1)
  have c1: "0xFFFFFFFF00000000 \<le> cmp ?c1" unfolding k using hi cmp_writes(1) by metis
  have c2: "0xFFFFFFFF00000000 \<le> cmp ?c2" unfolding k using hi lo cmp_writes(2) by metis
  have c3: "cmp ?c3 = time" unfolding k using hi lo cmp_writes(3) by metis
  have "mtimecmp_set b h time c = Some (Ret (0, ?c3))"
    by (simp add: mtimecmp_set_def REGW_store_def dbind_def dret_def)
  then show ?thesis using c1 c2 c3 hi [where v = "0xFFFFFFFF" and x = c] lo [where v = "ucast time" and x = ?c1]
      hi [where v = "ucast (drop_bit 32 time)" and x = ?c2] by fastforce
qed

end
