(* ===== verification/Cstring.thy ===== *)
theory Cstring
  imports Memory
begin

text \<open>
  Characters and strings of C on byte arrays: the functions of the C library that the servers and
  the applications use. A char array is the list of its bytes; reading past its end stops with the
  message \<open>undefined\<close>, because C leaves the value open.
\<close>

section \<open>Characters\<close>

definition chr :: "char \<Rightarrow> byte" where
  "chr c = of_char c"

abbreviation chars :: "string \<Rightarrow> byte list" where
  "chars s \<equiv> map chr s"

definition undefined_read :: string where
  "undefined_read = ''undefined: read past the end of an array''"

definition undefined_write :: string where
  "undefined_write = ''undefined: write past the end of an array''"

text \<open>An access to an array, and a store to it.\<close>

definition at :: "byte list \<Rightarrow> nat \<Rightarrow> byte outcome" where
  "at b i = (if i < length b then Ret (b ! i) else Fatal undefined_read)"

definition put :: "byte list \<Rightarrow> nat \<Rightarrow> byte \<Rightarrow> byte list outcome" where
  "put b i c = (if i < length b then Ret (b[i := c]) else Fatal undefined_write)"

lemma at_Ret [simp]: "i < length b \<Longrightarrow> at b i = Ret (b ! i)"
  by (simp add: at_def)

lemma put_Ret [simp]: "i < length b \<Longrightarrow> put b i c = Ret (b[i := c])"
  by (simp add: put_def)

section \<open>Strings\<close>

text \<open>The characters of a string in an array, up to its terminator.\<close>

definition cstr :: "byte list \<Rightarrow> byte list" where
  "cstr b = takeWhile (\<lambda>c. c \<noteq> 0) b"

definition strlen :: "byte list \<Rightarrow> nat outcome" where
  "strlen b = (if 0 \<in> set b then Ret (length (cstr b)) else Fatal undefined_read)"

definition strcpy :: "byte list \<Rightarrow> byte list \<Rightarrow> byte list outcome" where
  "strcpy dst src =
     (if 0 \<notin> set src then Fatal undefined_read
      else if length (cstr src) < length dst then Ret (splice_at 0 (cstr src @ [0]) dst)
      else Fatal undefined_write)"

definition strncat :: "byte list \<Rightarrow> byte list \<Rightarrow> nat \<Rightarrow> byte list outcome" where
  "strncat dst src n =
     obind (strlen dst) (\<lambda>len.
     if 0 \<notin> set src \<and> length src < n then Fatal undefined_read
     else if len + length (take n (cstr src)) < length dst
       then Ret (splice_at len (take n (cstr src) @ [0]) dst)
     else Fatal undefined_write)"

definition strcat :: "byte list \<Rightarrow> byte list \<Rightarrow> byte list outcome" where
  "strcat dst src =
     obind (strlen dst) (\<lambda>len.
     if 0 \<notin> set src then Fatal undefined_read
     else if len + length (cstr src) < length dst then Ret (splice_at len (cstr src @ [0]) dst)
     else Fatal undefined_write)"

text \<open>strcmp(a, b) == 0 and strncmp(a, b, n) == 0.\<close>

fun strcmp_eq :: "byte list \<Rightarrow> byte list \<Rightarrow> bool outcome" where
  "strcmp_eq (c # cs) (d # ds) = (if c \<noteq> d then Ret False else if c = 0 then Ret True else strcmp_eq cs ds)"
| "strcmp_eq _ _ = Fatal undefined_read"

fun strncmp_eq :: "byte list \<Rightarrow> byte list \<Rightarrow> nat \<Rightarrow> bool outcome" where
  "strncmp_eq _ _ 0 = Ret True"
| "strncmp_eq (c # cs) (d # ds) (Suc n) =
     (if c \<noteq> d then Ret False else if c = 0 then Ret True else strncmp_eq cs ds n)"
| "strncmp_eq _ _ (Suc n) = Fatal undefined_read"

lemma strncmp_eq_prefix:
  assumes "0 \<notin> set s" "length s = n" "n \<le> length t"
  shows "strncmp_eq (s @ u) t n = Ret (take n t = s)"
  using assms
proof (induction s arbitrary: t n)
  case (Cons c cs)
  obtain d ds where t: "t = d # ds" using Cons.prems by (cases t) auto
  show ?case using Cons.prems Cons.IH [of "n - 1" ds] by (auto simp: t take_Cons')
qed simp

section \<open>Numbers\<close>

definition is_space :: "byte \<Rightarrow> bool" where
  "is_space c \<longleftrightarrow> c = 32 \<or> 9 \<le> c \<and> c \<le> 13"

definition is_digit :: "byte \<Rightarrow> bool" where
  "is_digit c \<longleftrightarrow> 48 \<le> c \<and> c \<le> 57"

definition digit_val :: "byte \<Rightarrow> int" where
  "digit_val c = int (unat c) - 48"

definition digits_val :: "byte list \<Rightarrow> int" where
  "digits_val ds = foldl (\<lambda>n c. n * 10 + digit_val c) 0 ds"

text \<open>
  atoi: white space, an optional sign, and the digits that follow. A value outside the range of
  int is undefined, and so is a text that runs to the end of the array.
\<close>

definition atoi :: "byte list \<Rightarrow> int outcome" where
  "atoi b =
     (let s = dropWhile is_space b;
          neg = (s \<noteq> [] \<and> hd s = chr (CHR ''-''));
          s = (if s \<noteq> [] \<and> (hd s = chr (CHR ''-'') \<or> hd s = chr (CHR ''+'')) then tl s else s);
          v = digits_val (takeWhile is_digit s);
          v = (if neg then - v else v) in
      if dropWhile is_digit s = [] then Fatal undefined_read
      else if - (2 ^ 31) \<le> v \<and> v < 2 ^ 31 then Ret v else Fatal ''undefined: value out of range'')"

section \<open>Fields of structs\<close>

text \<open>The 32-bit member at byte offset \<open>off\<close> of a struct in an array.\<close>

definition field32 :: "byte list \<Rightarrow> nat \<Rightarrow> u32" where
  "field32 b off = word32_of (b ! off) (b ! (off + 1)) (b ! (off + 2)) (b ! (off + 3))"

lemma field32_app: "field32 (p @ b) (length p + off) = field32 b off"
  by (simp add: field32_def nth_append)

lemma field32_word [simp]: "field32 (word_bytes v @ b) 0 = v"
  by (simp add: field32_def word_bytes_def)

lemma field32_at:
  "length p = off \<Longrightarrow> field32 (p @ word_bytes v @ b) off = v"
  using field32_app [of p "word_bytes v @ b" 0] by simp

end
