(* ===== verification/Tty.thy ===== *)
theory Tty
  imports Timer Cstring
begin

text \<open>
  The UART of earth/bus_uart.c and the terminal of earth/dev_tty.c. printf and fflush of the C library,
  with which the terminal echoes what is typed, are a parameter \<open>out\<close>, the operation that prints bytes.
\<close>

section \<open>UART\<close>

definition UART0_TXDATA :: u32 where "UART0_TXDATA = 0"
definition UART0_RXDATA :: u32 where "UART0_RXDATA = 4"
definition UART0_TXCTRL :: u32 where "UART0_TXCTRL = 8"
definition UART0_RXCTRL :: u32 where "UART0_RXCTRL = 12"
definition UART0_DIV :: u32 where "UART0_DIV = 24"
definition GPIO0_BASE :: u32 where "GPIO0_BASE = 0x10012000"
definition GPIO0_IOF_ENABLE :: u32 where "GPIO0_IOF_ENABLE = 56"

text \<open>The statement \<open>REGW(base, off) |= v\<close>.\<close>

definition REGW_or :: "'c bus \<Rightarrow> u32 \<Rightarrow> u32 \<Rightarrow> u32 \<Rightarrow> ('c, unit) dev_op" where
  "REGW_or b base off v = dbind (REGW_load b base off) (\<lambda>w. REGW_store b base off (w OR v))"

text \<open>\<open>rate\<close> is CPU_CLOCK_RATE, which the build sets.\<close>

definition uart_init :: "'c bus \<Rightarrow> platform_type \<Rightarrow> int \<Rightarrow> int \<Rightarrow> ('c, unit) dev_op" where
  "uart_init b p rate baud_rate =
     dbind (REGW_store b (UART0_BASE p) UART0_DIV (of_int (rate div baud_rate - 1))) (\<lambda>_.
     dbind (REGW_or b (UART0_BASE p) UART0_TXCTRL 1) (\<lambda>_.
     dbind (REGW_or b (UART0_BASE p) UART0_RXCTRL 1) (\<lambda>_.
     REGW_or b GPIO0_BASE GPIO0_IOF_ENABLE (push_bit 16 1 OR push_bit 17 1))))"

definition uart_getc :: "'c bus \<Rightarrow> platform_type \<Rightarrow> ('c, int) dev_op" where
  "uart_getc b p =
     dbind (REGW_load b (UART0_BASE p) UART0_RXDATA) (\<lambda>ch.
     dret (if bit ch 31 then - 1 else uint (ch AND 0xFF)))"

definition uart_putc :: "'c bus \<Rightarrow> platform_type \<Rightarrow> int \<Rightarrow> ('c, unit) dev_op" where
  "uart_putc b p c =
     dbind (poll (REGW_load b (UART0_BASE p) UART0_TXDATA) (\<lambda>v. \<not> bit v 31)) (\<lambda>_.
     REGW_store b (UART0_BASE p) UART0_TXDATA (of_int c))"

section \<open>Terminal\<close>

text \<open>The static variables c and is_reading, and the device.\<close>

record 'c tty =
  tty_c :: int
  is_reading :: bool
  tty_dev :: 'c

text \<open>An operation of the device, and \<open>uart_getc(&c)\<close> for the static variable c.\<close>

definition on_dev :: "('c, 'a) dev_op \<Rightarrow> ('c tty, 'a) dev_op" where
  "on_dev m t = (case m (tty_dev t) of None \<Rightarrow> None | Some (Fatal e) \<Rightarrow> Some (Fatal e)
     | Some (Ret (x, d)) \<Rightarrow> Some (Ret (x, t\<lparr>tty_dev := d\<rparr>)))"

definition set_c :: "int \<Rightarrow> ('c tty, unit) dev_op" where
  "set_c x t = Some (Ret ((), t\<lparr>tty_c := x\<rparr>))"

definition set_reading :: "bool \<Rightarrow> ('c tty, unit) dev_op" where
  "set_reading r t = Some (Ret ((), t\<lparr>is_reading := r\<rparr>))"

definition getc_c :: "'c bus \<Rightarrow> platform_type \<Rightarrow> ('c tty, int) dev_op" where
  "getc_c b p = dbind (on_dev (uart_getc b p)) (\<lambda>x. dbind (set_c x) (\<lambda>_. dret x))"

definition tty_recv_intr_op :: "'c bus \<Rightarrow> platform_type \<Rightarrow> ('c tty, int) dev_op" where
  "tty_recv_intr_op b p t =
     (if is_reading t then Some (Ret (0, t))
      else dbind (getc_c b p) (\<lambda>x. dret (if x = 3 then 1 else 0)) t)"

text \<open>tty_write returns no value.\<close>

definition tty_write :: "'c bus \<Rightarrow> platform_type \<Rightarrow> byte list \<Rightarrow> ('c, unit) dev_op" where
  "tty_write b p bs = dbind (dmap (\<lambda>x. uart_putc b p (uint x)) bs) (\<lambda>_. dret ())"

text \<open>
  The loop of tty_read. \<open>i\<close> and \<open>len\<close> are unsigned; a store outside the buffer is an error of the
  model. The loop may run for ever.
\<close>

partial_function (option) tty_read_loop ::
  "'c bus \<Rightarrow> platform_type \<Rightarrow> (byte list \<Rightarrow> ('c, unit) dev_op) \<Rightarrow> u32 \<Rightarrow> u32 \<Rightarrow> byte list \<Rightarrow> 'c tty \<Rightarrow>
    ((u32 \<times> byte list) \<times> 'c tty) outcome option" where
  "tty_read_loop b p out len i buf t =
     (if i < len - 1 then
        Option.bind (dbind (set_c (- 1)) (\<lambda>_. poll (getc_c b p) (\<lambda>x. x \<noteq> - 1)) t) (\<lambda>r. case r of
          Fatal e \<Rightarrow> Some (Fatal e)
        | Ret (ch, t) \<Rightarrow> (case put buf (unat i) (of_int ch) of
            Fatal e \<Rightarrow> Some (Fatal e)
          | Ret buf \<Rightarrow>
              if ch = 0x03 \<or> ch = 0x0d then
                let buf = (if ch = 0x03 then buf[0 := 0] else buf)[unat i := 0] in
                dbind (set_reading False) (\<lambda>_. dbind (on_dev (out (chars [CHR 0x0D, CHR 0x0A]))) (\<lambda>_.
                dret (if ch = 0x03 then 0 else i, buf))) t
              else if ch = 0x7f then
                Option.bind (dbind (set_c 0) (\<lambda>_. if i \<noteq> 0 then on_dev (out (chars [CHR 0x08, CHR '' '', CHR 0x08])) else dret ()) t) (\<lambda>r. case r of
                  Fatal e \<Rightarrow> Some (Fatal e)
                | Ret (_, t) \<Rightarrow> tty_read_loop b p out len ((if i \<noteq> 0 then i - 2 else i - 1) + 1) buf t)
              else
                Option.bind ((if ch \<noteq> 0 then on_dev (out [of_int ch]) else dret ()) t) (\<lambda>r. case r of
                  Fatal e \<Rightarrow> Some (Fatal e)
                | Ret (_, t) \<Rightarrow> tty_read_loop b p out len (i + 1) buf t)))
      else (case put buf (unat (len - 1)) 0 of
          Fatal e \<Rightarrow> Some (Fatal e)
        | Ret buf \<Rightarrow> Some (Ret ((len - 1, buf), t\<lparr>is_reading := False\<rparr>))))"

definition tty_read :: "'c bus \<Rightarrow> platform_type \<Rightarrow> (byte list \<Rightarrow> ('c, unit) dev_op) \<Rightarrow> u32 \<Rightarrow> byte list \<Rightarrow> ('c tty, u32 \<times> byte list) dev_op" where
  "tty_read b p out len buf = dbind (set_reading True) (\<lambda>_. tty_read_loop b p out len 0 buf)"

text \<open>On the Arty board tty_init waits until the UART has no more input.\<close>

definition tty_init :: "'c bus \<Rightarrow> platform_type \<Rightarrow> int \<Rightarrow> ('c, unit) dev_op" where
  "tty_init b p rate =
     (if p = ARTY
      then dbind (uart_init b p rate 115200) (\<lambda>_. dbind (poll (uart_getc b p) (\<lambda>c. c = - 1)) (\<lambda>_. dret ()))
      else dret ())"

end
