(* ===== verification/Page_Table.thy ===== *)
theory Page_Table
  imports Earth
begin

text \<open>
  The identity mapping with page tables of earth/cpu_mmu.c, in memory words as the code writes them.
\<close>

section \<open>Building the tables\<close>

definition OS_RWX :: u32 where "OS_RWX = 0xF"

text \<open>The static variables root, leaf and pid_to_pagetable_base.\<close>

record page_tables =
  pt_root :: u32
  pt_leaf :: u32
  pid_to_pagetable_base :: "u32 list"

text \<open>The statement \<open>table[frame_id].pid = pid\<close>; an index beyond the table is an error of the model.\<close>

definition set_frame_pid :: "u32 \<Rightarrow> int \<Rightarrow> 'd earth \<Rightarrow> 'd earth outcome" where
  "set_frame_pid frame_id pid e =
     (if unat frame_id < length (table e)
      then Ret (e\<lparr>table := (table e)[unat frame_id := (table e ! unat frame_id)\<lparr>fm_pid := pid\<rparr>]\<rparr>)
      else Fatal ''table: out of bounds'')"

text \<open>The allocation of a page for a page table, with zeros in it.\<close>

definition alloc_table :: "int \<Rightarrow> 'd earth \<Rightarrow> (u32 \<times> 'd earth) outcome" where
  "alloc_table pid e =
     obind (mmu_alloc e) (\<lambda>(frame_id, addr, e).
     obind (set_frame_pid frame_id pid e) (\<lambda>e.
     Ret (addr, e\<lparr>mem := memset (mem e) addr 0 PAGE_SIZE\<rparr>)))"

definition region_leaf :: "int \<Rightarrow> u32 \<Rightarrow> 'd earth \<times> page_tables \<Rightarrow> ('d earth \<times> page_tables) outcome" where
  "region_leaf pid vpn1 = (\<lambda>(e, s).
     let ent = load32 (mem e) (pt_root s + 4 * vpn1) in
     if ent AND 1 \<noteq> 0 then Ret (e, s\<lparr>pt_leaf := push_bit 2 ent AND 0xFFFFF000\<rparr>)
     else obind (alloc_table pid e) (\<lambda>(leaf, e).
       Ret (e\<lparr>mem := store32 (mem e) (pt_root s + 4 * vpn1) (drop_bit 2 leaf OR 1)\<rparr>, s\<lparr>pt_leaf := leaf\<rparr>)))"

definition fill_leaf :: "u32 \<Rightarrow> u32 \<Rightarrow> u32 \<Rightarrow> nat \<Rightarrow> u32 \<Rightarrow> mem \<Rightarrow> mem" where
  "fill_leaf leaf vpn0 addr npages flag m =
     fold (\<lambda>i m. store32 m (leaf + 4 * (vpn0 + of_nat i)) (drop_bit 2 (addr + of_nat i * of_nat PAGE_SIZE) OR flag)) [0..<npages] m"

definition setup_identity_region :: "int \<Rightarrow> u32 \<times> nat \<Rightarrow> u32 \<Rightarrow> 'd earth \<times> page_tables \<Rightarrow> ('d earth \<times> page_tables) outcome" where
  "setup_identity_region pid = (\<lambda>(addr, npages) flag es.
     obind (region_leaf pid (drop_bit 22 addr) es) (\<lambda>(e, s).
     Ret (e\<lparr>mem := fill_leaf (pt_leaf s) (drop_bit 12 addr AND 0x3FF) addr npages flag (mem e)\<rparr>, s)))"

definition identity_regions :: "platform_type \<Rightarrow> (u32 \<times> nat) list" where
  "identity_regions p =
     [(0x02000000, 16), (UART0_BASE p, 1), (SPI_BASE p, 1), (0x20400000, 1024), (0x20800000, 1024), (0x80000000, 1024)] @
     map (\<lambda>i. (0x08000000 + of_nat i * 0x400000, 1024)) [0..<8]"

definition pagetable_identity_mapping :: "int \<Rightarrow> 'd earth \<times> page_tables \<Rightarrow> ('d earth \<times> page_tables) outcome" where
  "pagetable_identity_mapping pid = (\<lambda>(e, s).
     obind (alloc_table pid e) (\<lambda>(root, e).
     if 0 \<le> pid \<and> nat pid < length (pid_to_pagetable_base s) then
       ofold (\<lambda>r. setup_identity_region pid r OS_RWX) (identity_regions (platform e))
         (e, s\<lparr>pt_root := root, pid_to_pagetable_base := (pid_to_pagetable_base s)[nat pid := root]\<rparr>)
     else Fatal ''pid_to_pagetable_base: out of bounds''))"

section \<open>Sv32\<close>

text \<open>
  The address translation of the hardware, the result with the flags of the entry: an entry of the root
  table with one of the flags R, W and X maps a region of 4MB itself.
\<close>

definition sv32 :: "mem \<Rightarrow> u32 \<Rightarrow> u32 \<Rightarrow> (nat \<times> u32) option" where
  "sv32 m root va =
     (let pte1 = load32 m (root + 4 * drop_bit 22 va) in
      if pte1 AND 1 = 0 then None
      else if pte1 AND 0xE \<noteq> 0 then Some (unat (drop_bit 20 pte1) * 2 ^ 22 + unat va mod 2 ^ 22, pte1 AND 0xF)
      else let pte0 = load32 m (of_nat (unat (drop_bit 10 pte1) * 4096) + 4 * (drop_bit 12 va AND 0x3FF)) in
        if pte0 AND 1 = 0 then None
        else Some (unat (drop_bit 10 pte0) * 4096 + unat va mod 4096, pte0 AND 0xF))"

definition identity_mapped :: "platform_type \<Rightarrow> u32 \<Rightarrow> bool" where
  "identity_mapped p va \<longleftrightarrow> (\<exists>(addr, npages)\<in>set (identity_regions p). unat addr \<le> unat va \<and> unat va < unat addr + npages * 4096)"

end
