(* ===== verification/Boot.thy ===== *)
theory Boot
  imports Tty Page_Table
begin

text \<open>
  The start of the earth layer: earth/earth.c, earth/cpu_intr.c, mmu_init of earth/cpu_mmu.c and disk_init
  of earth/dev_disk.c. The messages it prints are left out, apart from the echo of typed characters.
\<close>

section \<open>State\<close>

record csrs =
  mtvec :: u32
  mie :: u32
  mstatus :: u32
  satp :: u32
  pmpaddr0 :: u32
  pmpcfg0 :: u32
  boot_mepc :: u32

text \<open>\<open>bt_type\<close> and \<open>bt_sd\<close> are the static variables type and SD_CARD_TYPE, and \<open>bt_quantum\<close> is QUANTUM.\<close>

record ('c, 'd) boot =
  bt_tty :: "'c tty"
  bt_earth :: "'d earth"
  bt_tables :: page_tables
  bt_csrs :: csrs
  bt_type :: disk_type
  bt_sd :: sd_type
  bt_quantum :: u32

text \<open>Operations of the terminal and of the devices, and changes of the rest of the state.\<close>

definition on_tty :: "('c tty, 'a) dev_op \<Rightarrow> (('c, 'd) boot, 'a) dev_op" where
  "on_tty m s = (case m (bt_tty s) of None \<Rightarrow> None | Some (Fatal e) \<Rightarrow> Some (Fatal e)
     | Some (Ret (x, t)) \<Rightarrow> Some (Ret (x, s\<lparr>bt_tty := t\<rparr>)))"

definition on_boot :: "(('c, 'd) boot \<Rightarrow> ('c, 'd) boot outcome) \<Rightarrow> (('c, 'd) boot, unit) dev_op" where
  "on_boot f s = Some (obind (f s) (\<lambda>s. Ret ((), s)))"

definition set_csrs :: "(csrs \<Rightarrow> csrs) \<Rightarrow> (('c, 'd) boot, unit) dev_op" where
  "set_csrs f = on_boot (\<lambda>s. Ret (s\<lparr>bt_csrs := f (bt_csrs s)\<rparr>))"

definition boot_platform :: "(('c, 'd) boot, platform_type) dev_op" where
  "boot_platform s = Some (Ret (platform (bt_earth s), s))"

definition boot_translation :: "(('c, 'd) boot, translation_mode) dev_op" where
  "boot_translation s = Some (Ret (translation (bt_earth s), s))"

section \<open>Choices\<close>

text \<open>The loop with which disk_init and mmu_init wait for a 0 or a 1.\<close>

partial_function (option) choose_loop ::
  "'c bus \<Rightarrow> platform_type \<Rightarrow> (byte list \<Rightarrow> ('c, unit) dev_op) \<Rightarrow> byte list \<Rightarrow> 'c tty \<Rightarrow> (byte \<times> 'c tty) outcome option" where
  "choose_loop b p out buf t =
     (if buf ! 0 \<noteq> chr CHR ''0'' \<and> buf ! 0 \<noteq> chr CHR ''1'' then
        Option.bind (tty_read b p out 2 buf t) (\<lambda>r. case r of
          Fatal e \<Rightarrow> Some (Fatal e) | Ret ((_, buf), t) \<Rightarrow> choose_loop b p out buf t)
      else Some (Ret (buf ! 0, t)))"

text \<open>\<open>junk\<close> is what the second byte of the buffer holds.\<close>

definition choose_01 :: "'c bus \<Rightarrow> platform_type \<Rightarrow> (byte list \<Rightarrow> ('c, unit) dev_op) \<Rightarrow> byte \<Rightarrow> ('c tty, byte) dev_op" where
  "choose_01 b p out junk = choose_loop b p out [0, junk]"

section \<open>Disk\<close>

definition spi_of :: "'c bus \<Rightarrow> platform_type \<Rightarrow> 'c spi" where
  "spi_of b p = \<lparr>spi_load = (\<lambda>r. bus_load b (SPI_BASE p + r)), spi_store = (\<lambda>r. bus_store b (SPI_BASE p + r))\<rparr>"

definition disk_init :: "'c bus \<Rightarrow> (byte list \<Rightarrow> ('c, unit) dev_op) \<Rightarrow> int \<Rightarrow> byte \<Rightarrow> (('c, 'd) boot, unit) dev_op" where
  "disk_init b out rate junk =
     dbind boot_platform (\<lambda>p.
     if p = QEMU_SIFIVE then on_boot (\<lambda>s. Ret (s\<lparr>bt_type := FLASH_ROM\<rparr>))
     else
       dbind (on_tty (choose_01 b p out junk)) (\<lambda>c.
       dbind (on_boot (\<lambda>s. Ret (s\<lparr>bt_type := if c = chr CHR ''0'' then SD_CARD else FLASH_ROM\<rparr>))) (\<lambda>_.
       if c = chr CHR ''0''
       then dbind (on_tty (on_dev (sdinit (spi_of b p) rate))) (\<lambda>ty. on_boot (\<lambda>s. Ret (s\<lparr>bt_sd := ty\<rparr>)))
       else dret ())))"

section \<open>MMU\<close>

definition mmu_init :: "'c bus \<Rightarrow> (byte list \<Rightarrow> ('c, unit) dev_op) \<Rightarrow> byte \<Rightarrow> (('c, 'd) boot, unit) dev_op" where
  "mmu_init b out junk =
     dbind (on_boot (\<lambda>s. Ret (s\<lparr>bt_earth := paging_init (bt_earth s)\<rparr>))) (\<lambda>_.
     dbind (set_csrs (\<lambda>r. r\<lparr>pmpaddr0 := 0x40000000, pmpcfg0 := 0xF\<rparr>)) (\<lambda>_.
     dbind (on_boot (\<lambda>s. Ret (s\<lparr>bt_earth := (bt_earth s)\<lparr>translation := SOFT_TLB\<rparr>\<rparr>))) (\<lambda>_.
     dbind boot_platform (\<lambda>p.
     if p = ARTY then dret ()
     else
       dbind (on_tty (choose_01 b p out junk)) (\<lambda>c.
       dbind (on_boot (\<lambda>s. Ret (s\<lparr>bt_earth := (bt_earth s)\<lparr>translation := if c = chr CHR ''0'' then PAGE_TABLE else SOFT_TLB\<rparr>\<rparr>))) (\<lambda>_.
       if c = chr CHR ''0'' then
         dbind (on_boot (\<lambda>s. obind (pagetable_identity_mapping 0 (bt_earth s, bt_tables s)) (\<lambda>(e, t). Ret (s\<lparr>bt_earth := e, bt_tables := t\<rparr>)))) (\<lambda>_.
         on_boot (\<lambda>s. Ret (s\<lparr>bt_csrs := (bt_csrs s)\<lparr>satp := drop_bit 12 (pt_root (bt_tables s)) OR push_bit 31 1\<rparr>\<rparr>)))
       else dret ()))))))"

section \<open>Interrupts\<close>

text \<open>\<open>trap_S\<close> and \<open>trap_M\<close> are the addresses of trap_from_S_mode and trap_from_M_mode.\<close>

definition intr_init :: "u32 \<Rightarrow> u32 \<Rightarrow> (('c, 'd) boot, unit) dev_op" where
  "intr_init trap_S trap_M =
     dbind boot_translation (\<lambda>tr.
     dbind (set_csrs (\<lambda>r. r\<lparr>mtvec := if tr = PAGE_TABLE then trap_S else trap_M\<rparr>)) (\<lambda>_.
     dbind (set_csrs (\<lambda>r. r\<lparr>mie := mie r OR 0x88\<rparr>)) (\<lambda>_.
     set_csrs (\<lambda>r. r\<lparr>mstatus := mstatus r OR 0x88\<rparr>))))"

text \<open>The arguments with which trap_entry calls the kernel.\<close>

definition trap_entry :: "u32 \<Rightarrow> u32 \<times> u32" where
  "trap_entry mcause = (mcause AND push_bit 31 1, mcause AND 0x3FF)"

section \<open>Boot\<close>

definition boot_magic :: "mem \<Rightarrow> platform_type" where
  "boot_magic m = (let magic = load32 m 0x8000002c in
     if magic = 90 then QEMU_LATEST else if magic = 52 then QEMU_SIFIVE else ARTY)"

definition earth_init :: "'c bus \<Rightarrow> (byte list \<Rightarrow> ('c, unit) dev_op) \<Rightarrow> int \<Rightarrow> u32 \<Rightarrow> u32 \<Rightarrow> u32 \<Rightarrow> byte \<Rightarrow> byte \<Rightarrow> (('c, 'd) boot, unit) dev_op" where
  "earth_init b out rate mhartid trap_S trap_M junk junk' =
     dbind (on_boot (\<lambda>s. Ret (s\<lparr>bt_earth := (bt_earth s)\<lparr>platform := boot_magic (mem (bt_earth s))\<rparr>\<rparr>))) (\<lambda>_.
     dbind boot_platform (\<lambda>p.
     dbind (on_tty (on_dev (tty_init b p rate))) (\<lambda>_.
     dbind (disk_init b out rate junk) (\<lambda>_.
     dbind (mmu_init b out junk') (\<lambda>_.
     dbind (on_tty (on_dev (timer_init b mhartid p))) (\<lambda>q.
     dbind (on_boot (\<lambda>s. Ret (s\<lparr>bt_quantum := q\<rparr>))) (\<lambda>_.
     intr_init trap_S trap_M)))))))"

text \<open>The part of main before earth_init; the linker script gives the addresses.\<close>

definition prepare_data :: "u32 \<Rightarrow> u32 \<Rightarrow> u32 \<Rightarrow> u32 \<Rightarrow> u32 \<Rightarrow> mem \<Rightarrow> mem" where
  "prepare_data bss_start bss_end data_rom data_start data_end m =
     memcpy (memset m bss_start 0 (unat (bss_end - bss_start))) data_start data_rom (unat (data_end - data_start))"

text \<open>The part of main that enters the grass layer: machine mode or supervisor mode.\<close>

definition enter_grass :: "(('c, 'd) boot, unit) dev_op" where
  "enter_grass =
     dbind boot_translation (\<lambda>tr.
     let GRASS_MODE = (if tr = SOFT_TLB then 3 else 1) in
     dbind (set_csrs (\<lambda>r. r\<lparr>mstatus := (mstatus r AND NOT (push_bit 11 3)) OR push_bit 11 GRASS_MODE OR push_bit 18 1\<rparr>)) (\<lambda>_.
     set_csrs (\<lambda>r. r\<lparr>boot_mepc := GRASS_ENTRY\<rparr>)))"

end
