(* ===== verification/Process.thy ===== *)
theory Process
  imports Earth
begin

text \<open>
  The process table of grass/process.c. The state of the kernel is the process table with its two
  counters, the register mepc, and the earth layer below, whose memory holds the system call
  arguments of the process that is mapped.
\<close>

section \<open>The process table\<close>

datatype proc_status = PROC_UNUSED | PROC_LOADING | PROC_READY | PROC_RUNNING | PROC_RUNNABLE
  | PROC_WAIT_TO_SEND | PROC_WAIT_TO_RECV

record process =
  p_pid :: int
  p_status :: proc_status
  p_mepc :: u32
  saved_register :: "u32 list"
  receiver_pid :: int

record 'd kernel =
  proc_set :: "process list"
  proc_curr_idx :: nat
  proc_nprocs :: u32
  csr_mepc :: u32
  k_earth :: "'d earth"

abbreviation curr_proc :: "'d kernel \<Rightarrow> process" where
  "curr_proc k \<equiv> proc_set k ! proc_curr_idx k"

abbreviation curr_pid :: "'d kernel \<Rightarrow> int" where
  "curr_pid k \<equiv> p_pid (curr_proc k)"

abbreviation curr_status :: "'d kernel \<Rightarrow> proc_status" where
  "curr_status k \<equiv> p_status (curr_proc k)"

definition update_curr :: "(process \<Rightarrow> process) \<Rightarrow> 'd kernel \<Rightarrow> 'd kernel" where
  "update_curr f k = k\<lparr>proc_set := (proc_set k)[proc_curr_idx k := f (curr_proc k)]\<rparr>"

definition update_mem :: "(mem \<Rightarrow> mem) \<Rightarrow> 'd kernel \<Rightarrow> 'd kernel" where
  "update_mem f k = k\<lparr>k_earth := (k_earth k)\<lparr>mem := f (mem (k_earth k))\<rparr>\<rparr>"

abbreviation k_mem :: "'d kernel \<Rightarrow> mem" where
  "k_mem k \<equiv> mem (k_earth k)"

text \<open>A call of an earth function that may fail.\<close>

definition earth_call :: "('d earth \<Rightarrow> 'd earth outcome) \<Rightarrow> 'd kernel \<Rightarrow> 'd kernel outcome" where
  "earth_call f k = obind (f (k_earth k)) (\<lambda>e. Ret (k\<lparr>k_earth := e\<rparr>))"

definition reset_timer :: "'d kernel \<Rightarrow> 'd kernel" where
  "reset_timer k = k\<lparr>k_earth := (k_earth k)\<lparr>dev := snd (timer_reset (k_earth k) (dev (k_earth k)))\<rparr>\<rparr>"

definition set_status :: "int \<Rightarrow> proc_status \<Rightarrow> process list \<Rightarrow> process list" where
  "set_status pid st = map (\<lambda>p. if p_pid p = pid then p\<lparr>p_status := st\<rparr> else p)"

definition proc_set_status :: "int \<Rightarrow> proc_status \<Rightarrow> 'd kernel \<Rightarrow> 'd kernel" where
  "proc_set_status pid st k = k\<lparr>proc_set := set_status pid st (proc_set k)\<rparr>"

definition proc_set_ready :: "int \<Rightarrow> 'd kernel \<Rightarrow> 'd kernel" where
  "proc_set_ready pid = proc_set_status pid PROC_READY"

definition proc_set_running :: "int \<Rightarrow> 'd kernel \<Rightarrow> 'd kernel" where
  "proc_set_running pid = proc_set_status pid PROC_RUNNING"

definition proc_set_runnable :: "int \<Rightarrow> 'd kernel \<Rightarrow> 'd kernel" where
  "proc_set_runnable pid = proc_set_status pid PROC_RUNNABLE"

text \<open>The index of the first process with a property, as the search loops find it.\<close>

fun find_proc :: "(process \<Rightarrow> bool) \<Rightarrow> nat \<Rightarrow> process list \<Rightarrow> nat option" where
  "find_proc P i [] = None"
| "find_proc P i (p # ps) = (if P p then Some i else find_proc P (Suc i) ps)"

definition proc_alloc :: "'d kernel \<Rightarrow> (int \<times> 'd kernel) outcome" where
  "proc_alloc k =
     (case find_proc (\<lambda>p. p_status p = PROC_UNUSED) 0 (proc_set k) of
        None \<Rightarrow> Fatal ''proc_alloc: reach the limit of processes''
      | Some i \<Rightarrow>
          let n = proc_nprocs k + 1 in
          Ret (sint n, k\<lparr>proc_nprocs := n, proc_set := (proc_set k)[i :=
                 (proc_set k ! i)\<lparr>p_pid := sint n, p_status := PROC_LOADING\<rparr>]\<rparr>))"

text \<open>The iteration of proc_free(-1) for the entry \<open>i\<close>.\<close>

definition free_user :: "nat \<Rightarrow> 'd kernel \<Rightarrow> 'd kernel" where
  "free_user i k =
     (let p = proc_set k ! i in
      if p_pid p \<ge> GPID_USER_START \<and> p_status p \<noteq> PROC_UNUSED
      then k\<lparr>k_earth := mmu_free (p_pid p) (k_earth k),
             proc_set := (proc_set k)[i := p\<lparr>p_status := PROC_UNUSED\<rparr>]\<rparr>
      else k)"

definition proc_free :: "int \<Rightarrow> 'd kernel \<Rightarrow> 'd kernel" where
  "proc_free pid k =
     (if pid \<noteq> - 1
      then proc_set_status pid PROC_UNUSED (k\<lparr>k_earth := mmu_free pid (k_earth k)\<rparr>)
      else fold free_user [0..<MAX_NPROCESS] k)"

end
