(* ===== verification/Io.thy ===== *)
theory Io
  imports Cstring
begin

text \<open>
  Programs of processes: what a process does is a tree of calls to the system, with the rest of the
  program as a function of what the call returns. The library functions of grass/syscall.c and
  library/servers/servers.c and the servers of apps/ are such programs. A system of processes runs
  by rendezvous: a send and a matching receive happen together.
\<close>

section \<open>Programs\<close>

text \<open>
  \<open>Send\<close> and \<open>Recv\<close> are the two system calls. \<open>Act\<close> is a step on the state \<open>'s\<close> outside the process
  that may be reached without a message: devices, the terminal, and the variables of the kernel.
\<close>

datatype ('s, 'a) io =
    Done 'a
  | Stop string
  | Send int "byte list" "int \<Rightarrow> ('s, 'a) io"
  | Recv "int \<times> byte list \<Rightarrow> ('s, 'a) io"
  | Act "'s \<Rightarrow> ('s, 'a) io \<times> 's"

primrec ibind :: "('s, 'a) io \<Rightarrow> ('a \<Rightarrow> ('s, 'b) io) \<Rightarrow> ('s, 'b) io" where
  "ibind (Done x) f = f x"
| "ibind (Stop e) f = Stop e"
| "ibind (Send p m k) f = Send p m (\<lambda>r. ibind (k r) f)"
| "ibind (Recv k) f = Recv (\<lambda>r. ibind (k r) f)"
| "ibind (Act g) f = Act (\<lambda>s. map_prod (\<lambda>t. ibind t f) (\<lambda>s. s) (g s))"

lemma ibind_assoc: "ibind (ibind t f) g = ibind t (\<lambda>x. ibind (f x) g)"
  by (induction t) (auto simp: fun_eq_iff map_prod_def split: prod.splits, metis rangeI)

lemma ibind_Done [simp]: "ibind t Done = t"
  by (induction t) (auto simp: fun_eq_iff map_prod_def split: prod.splits, metis rangeI)

text \<open>Code that does not call the system.\<close>

definition pure :: "'a outcome \<Rightarrow> ('s, 'a) io" where
  "pure m = (case m of Ret x \<Rightarrow> Done x | Fatal e \<Rightarrow> Stop e)"

lemma pure_simps [simp]: "pure (Ret x) = Done x" "pure (Fatal e) = Stop e"
  by (simp_all add: pure_def)

definition act :: "('s \<Rightarrow> ('a \<times> 's) outcome) \<Rightarrow> ('s, 'a) io" where
  "act f = Act (\<lambda>s. case f s of Ret (x, s') \<Rightarrow> (Done x, s') | Fatal e \<Rightarrow> (Stop e, s))"

section \<open>The system call library\<close>

text \<open>
  sys_send refuses messages longer than the buffer of the kernel; otherwise it is the system call.
  sys_recv receives the content of a whole message and copies as much as the caller wants. Both
  return the return value of the call, which is 0 for a receive.
\<close>

definition sys_send :: "int \<Rightarrow> byte list \<Rightarrow> ('s, int) io" where
  "sys_send receiver msg =
     (if length msg > SYSCALL_MSG_LEN then Done (- 1) else Send receiver msg Done)"

definition sys_recv :: "nat \<Rightarrow> ('s, int \<times> byte list) io" where
  "sys_recv n = (if n > SYSCALL_MSG_LEN then Done (0, []) else Recv (\<lambda>(s, m). Done (s, take n m)))"

section \<open>Systems of processes\<close>

text \<open>
  A configuration: the program of each process, and the state outside. The receiver sees the content
  buffer of the sender's message, whose bytes after the message are left over from earlier calls.
\<close>

inductive sys_step :: "(int \<Rightarrow> ('s, 'a) io) \<times> 's \<Rightarrow> (int \<Rightarrow> ('s, 'a) io) \<times> 's \<Rightarrow> bool" where
  rendezvous: "P p = Send q m k \<Longrightarrow> P q = Recv f \<Longrightarrow> p \<noteq> q \<Longrightarrow> length (m @ pad) = SYSCALL_MSG_LEN \<Longrightarrow>
    sys_step (P, s) (P(p := k 0, q := f (p, m @ pad)), s)"
| action: "P p = Act g \<Longrightarrow> g s = (t, s') \<Longrightarrow> sys_step (P, s) (P(p := t), s')"

abbreviation sys_steps :: "(int \<Rightarrow> ('s, 'a) io) \<times> 's \<Rightarrow> (int \<Rightarrow> ('s, 'a) io) \<times> 's \<Rightarrow> bool" where
  "sys_steps \<equiv> sys_step\<^sup>*\<^sup>*"

inductive_cases sys_stepE: "sys_step c c'"

end
