(* ===== verification/Io_Run.thy ===== *)
theory Io_Run
  imports Io
begin

text \<open>
  One process at a time: a program run against the rest of the system, given as a function from the
  message that is sent to the message that will be received next and the new state outside.
\<close>

type_synonym 's peers = "int \<Rightarrow> byte list \<Rightarrow> 's \<Rightarrow> ((int \<times> byte list) option \<times> 's) outcome"

text \<open>
  The state of a run is the message that waits for the process, if any, and the state outside. A
  receive without a message blocks, and so does the run.
\<close>

definition blocked :: string where
  "blocked = ''blocks in a receive''"

primrec run :: "'s peers \<Rightarrow> ('s, 'a) io \<Rightarrow> (int \<times> byte list) option \<times> 's \<Rightarrow>
    ('a \<times> ((int \<times> byte list) option \<times> 's)) outcome" where
  "run srv (Done x) = (\<lambda>c. Ret (x, c))"
| "run srv (Stop e) = (\<lambda>c. Fatal e)"
| "run srv (Send q m k) = (\<lambda>(p, s). obind (srv q m s) (\<lambda>(r, s).
     run srv (k 0) (if r = None then p else r, s)))"
| "run srv (Recv k) = (\<lambda>(p, s). case p of None \<Rightarrow> Fatal blocked | Some m \<Rightarrow> run srv (k m) (None, s))"
| "run srv (Act g) = (\<lambda>(p, s). case map_prod (run srv) (\<lambda>s. s) (g s) of (r, s) \<Rightarrow> r (p, s))"

lemma run_Act [simp]: "run srv (Act g) (p, s) = (case g s of (t, s) \<Rightarrow> run srv t (p, s))"
  by (simp add: map_prod_def split: prod.split)

declare run.simps(5) [simp del]

lemma run_ibind: "run srv (ibind t f) c = obind (run srv t c) (\<lambda>(x, c). run srv (f x) c)"
proof (induction t arbitrary: c)
  case (Send q m k)
  then show ?case by (cases c) (auto simp: obind_assoc split: prod.split intro!: obind_cong)
next
  case (Recv k)
  then show ?case by (cases c) (auto split: option.split)
next
  case (Act g)
  obtain p s where c: "c = (p, s)" by (cases c)
  obtain t s' where g: "g s = (t, s')" by (cases "g s")
  have "g s \<in> range g" by (rule rangeI)
  moreover have "t \<in> Basic_BNFs.fsts (g s)" using g by (auto simp: fsts.simps)
  ultimately have "run srv (ibind t f) (p, s') = obind (run srv t (p, s')) (\<lambda>(x, c). run srv (f x) c)" by (rule Act)
  then show ?case by (simp add: c g)
qed simp_all

lemma run_act: "run srv (act f) (p, s) = obind (f s) (\<lambda>(x, s). Ret (x, (p, s)))"
  by (cases "f s") (auto simp: act_def split: prod.split)

lemma run_pure: "run srv (pure m) c = obind m (\<lambda>x. Ret (x, c))"
  by (cases m) simp_all

lemma run_if: "run srv (if b then t else u) c = (if b then run srv t c else run srv u c)"
  by simp

end
