(* ===== verification/Elf.thy ===== *)
theory Elf
  imports Process Io_Run
begin

text \<open>
  The loader library/elf/elf.c. It runs in the grass layer for the first process and in the process
  server for all others, so a reader of blocks is a program: the one reads the disk, the other sends
  messages to the file server. The state outside is the kernel with the earth layer. The messages
  about file sizes are not modelled.
\<close>

section \<open>Headers\<close>

text \<open>Members of the structs in a block, at their offsets. A member outside the block is undefined.\<close>

definition get16 :: "byte list \<Rightarrow> nat \<Rightarrow> nat outcome" where
  "get16 b off = obind (at b off) (\<lambda>x. obind (at b (off + 1)) (\<lambda>y. Ret (unat x + 256 * unat y)))"

definition get32 :: "byte list \<Rightarrow> nat \<Rightarrow> u32 outcome" where
  "get32 b off = (if off + 4 \<le> length b then Ret (field32 b off) else Fatal undefined_read)"

definition e_phoff :: "byte list \<Rightarrow> u32 outcome" where
  "e_phoff buf = get32 buf 28"

definition e_phnum :: "byte list \<Rightarrow> nat outcome" where
  "e_phnum buf = get16 buf 44"

record elf32_program_header =
  p_offset :: u32
  p_vaddr :: u32
  p_filesz :: u32
  p_memsz :: u32

definition sizeof_program_header :: nat where "sizeof_program_header = 32"

definition program_header :: "byte list \<Rightarrow> nat \<Rightarrow> elf32_program_header outcome" where
  "program_header buf off =
     obind (get32 buf (off + 4)) (\<lambda>offset.
     obind (get32 buf (off + 8)) (\<lambda>vaddr.
     obind (get32 buf (off + 16)) (\<lambda>filesz.
     obind (get32 buf (off + 20)) (\<lambda>memsz.
     Ret \<lparr>p_offset = offset, p_vaddr = vaddr, p_filesz = filesz, p_memsz = memsz\<rparr>))))"

section \<open>Calls of the earth layer\<close>

definition earth_do :: "('d earth \<Rightarrow> ('a \<times> 'd earth) outcome) \<Rightarrow> ('d kernel, 'a) io" where
  "earth_do f = act (\<lambda>k. obind (f (k_earth k)) (\<lambda>(x, e). Ret (x, k\<lparr>k_earth := e\<rparr>)))"

definition mem_do :: "(mem \<Rightarrow> mem) \<Rightarrow> ('d kernel, unit) io" where
  "mem_do f = earth_do (\<lambda>e. Ret ((), e\<lparr>mem := f (mem e)\<rparr>))"

text \<open>
  A reader gets a block number and what the destination holds, and returns what it leaves there.
  \<open>read_to\<close> is the call reader(block_no, dst).
\<close>

type_synonym 'd elf_reader = "u32 \<Rightarrow> block \<Rightarrow> ('d kernel, block) io"

definition read_to :: "'d elf_reader \<Rightarrow> u32 \<Rightarrow> u32 \<Rightarrow> ('d kernel, unit) io" where
  "read_to reader block_no dst =
     ibind (earth_do (\<lambda>e. Ret (mem_read (mem e) dst BLOCK_SIZE, e))) (\<lambda>old.
     ibind (reader block_no old) (\<lambda>blk. mem_do (\<lambda>m. mem_write m dst blk)))"

text \<open>mmu_alloc followed by mmu_map of the new frame.\<close>

definition new_page :: "int \<Rightarrow> u32 \<Rightarrow> 'd earth \<Rightarrow> (u32 \<times> 'd earth) outcome" where
  "new_page pid page_no e =
     obind (mmu_alloc e) (\<lambda>(frame_no, base, e).
     obind (mmu_map pid page_no frame_no e) (\<lambda>e. Ret (base, e)))"

section \<open>The grass kernel\<close>

text \<open>
  The loop over the offsets in the file. Offsets are natural numbers: they would wrap around only in
  a file of almost 4 GB.
\<close>

function grass_blocks :: "'d elf_reader \<Rightarrow> nat \<Rightarrow> u32 \<Rightarrow> nat \<Rightarrow> ('d kernel, unit) io" where
  "grass_blocks reader filesz block_offset off =
     (if off < filesz
      then ibind (read_to reader block_offset (GRASS_ENTRY + of_nat off)) (\<lambda>_.
        grass_blocks reader filesz (block_offset + 1) (off + BLOCK_SIZE))
      else Done ())"
  by auto

termination by (relation "measure (\<lambda>(_, filesz, _, off). filesz - off)") (auto simp: layout_defs)

declare grass_blocks.simps [simp del]

definition load_grass :: "'d elf_reader \<Rightarrow> elf32_program_header \<Rightarrow> ('d kernel, unit) io" where
  "load_grass reader ph =
     ibind (grass_blocks reader (unat (p_filesz ph)) (p_offset ph div of_nat BLOCK_SIZE) 0) (\<lambda>_.
     mem_do (\<lambda>m. memset m (GRASS_ENTRY + p_filesz ph) 0 (unat (GRASS_SIZE - p_filesz ph))))"

section \<open>Applications\<close>

text \<open>
  The first loop: a new page at each multiple of the page size, and a block at each step. \<open>base\<close> is
  set in the first step, before it is used. The loop over a file of almost 4 GB would not end by
  itself; mmu_alloc stops it long before.
\<close>

function app_blocks :: "int \<Rightarrow> 'd elf_reader \<Rightarrow> nat \<Rightarrow> u32 \<Rightarrow> u32 \<Rightarrow> u32 \<Rightarrow> nat \<Rightarrow> ('d kernel, u32 \<times> u32) io" where
  "app_blocks pid reader filesz block_offset code_start base off =
     (if off < filesz
      then ibind (if off mod PAGE_SIZE = 0 then earth_do (new_page pid code_start) else Done base) (\<lambda>base.
        ibind (read_to reader block_offset (base + of_nat (off mod PAGE_SIZE))) (\<lambda>_.
        app_blocks pid reader filesz (block_offset + 1) (if off mod PAGE_SIZE = 0 then code_start + 1 else code_start)
          base (off + BLOCK_SIZE)))
      else Done (base, code_start))"
  by auto

termination by (relation "measure (\<lambda>(_, _, filesz, _, _, _, off). filesz - off)") (auto simp: layout_defs)

declare app_blocks.simps [simp del]

text \<open>The second loop: pages of zeros up to the end of the code and data area.\<close>

definition apps_end :: u32 where
  "apps_end = drop_bit 12 (APPS_ENTRY + APPS_SIZE)"

definition zero_page :: "int \<Rightarrow> u32 \<Rightarrow> 'd earth \<Rightarrow> 'd earth outcome" where
  "zero_page pid page_no e =
     obind (new_page pid page_no e) (\<lambda>(base, e). Ret (e\<lparr>mem := memset (mem e) base 0 PAGE_SIZE\<rparr>))"

function zero_pages :: "int \<Rightarrow> u32 \<Rightarrow> 'd earth \<Rightarrow> 'd earth outcome" where
  "zero_pages pid code_start e =
     (if code_start < apps_end
      then obind (zero_page pid code_start e) (zero_pages pid (code_start + 1))
      else Ret e)"
  by auto

termination
proof (relation "measure (\<lambda>(_, c, _). unat apps_end - unat c)", goal_cases)
  case (2 pid c e x)
  then show ?case using unat_plus1_less [of c apps_end] by (simp add: word_less_nat_alt)
qed simp

declare zero_pages.simps [simp del]

text \<open>
  The page of the arguments: argc, the array of CMD_NARGS pointers, and the strings. A copy from
  beyond the array \<open>argv\<close> is undefined; the loop compares an unsigned index with argc.
\<close>

definition arg_pointer :: "nat \<Rightarrow> u32" where
  "arg_pointer i = APPS_ARG + 4 + 4 * of_nat CMD_NARGS + of_nat i * of_nat CMD_ARG_LEN"

definition store_args :: "u32 \<Rightarrow> int \<Rightarrow> byte list option \<Rightarrow> mem \<Rightarrow> mem outcome" where
  "store_args base argc argv m =
     (let argv_addr = base + 4; args_addr = argv_addr + 4 * of_nat CMD_NARGS;
          m = store32 m base (of_int argc);
          n = unat (of_int (argc * int CMD_ARG_LEN) :: u32) in
      obind (case argv of
          None \<Rightarrow> Ret m
        | Some bs \<Rightarrow> if n \<le> length bs then Ret (mem_write m args_addr (take n bs)) else Fatal undefined_read) (\<lambda>m.
      Ret (fold (\<lambda>i m. store32 m (argv_addr + 4 * of_nat i) (arg_pointer i)) [0..<unat (of_int argc :: u32)] m)))"

definition load_stack :: "int \<Rightarrow> int \<Rightarrow> byte list option \<Rightarrow> 'd earth \<Rightarrow> 'd earth outcome" where
  "load_stack pid argc argv e =
     (let stack_start = drop_bit 12 APPS_ARG in
      obind (new_page pid stack_start e) (\<lambda>(base, e).
      obind (store_args base argc argv (mem e)) (\<lambda>m.
      obind (new_page pid (stack_start + 1) (e\<lparr>mem := m\<rparr>)) (\<lambda>(_, e). Ret e))))"

definition load_app :: "int \<Rightarrow> 'd elf_reader \<Rightarrow> int \<Rightarrow> byte list option \<Rightarrow> elf32_program_header \<Rightarrow> ('d kernel, unit) io" where
  "load_app pid reader argc argv ph =
     ibind (app_blocks pid reader (unat (p_filesz ph)) (p_offset ph div of_nat BLOCK_SIZE) (drop_bit 12 APPS_ENTRY) 0 0)
       (\<lambda>(base, code_start).
     let last_page_filled = unat (p_filesz ph) mod PAGE_SIZE in
     ibind (if last_page_filled \<noteq> 0
       then mem_do (\<lambda>m. memset m (base + of_nat last_page_filled) 0 (PAGE_SIZE - last_page_filled)) else Done ()) (\<lambda>_.
     earth_do (\<lambda>e. obind (zero_pages pid code_start e) (\<lambda>e. obind (load_stack pid argc argv e) (\<lambda>e. Ret ((), e))))))"

section \<open>Executables\<close>

primrec load_headers :: "int \<Rightarrow> 'd elf_reader \<Rightarrow> int \<Rightarrow> byte list option \<Rightarrow> block \<Rightarrow> nat \<Rightarrow> nat list \<Rightarrow> ('d kernel, unit) io" where
  "load_headers pid reader argc argv buf phoff [] = Done ()"
| "load_headers pid reader argc argv buf phoff (i # is) =
     ibind (pure (program_header buf (phoff + i * sizeof_program_header))) (\<lambda>ph.
     ibind (if p_memsz ph = 0 then Done ()
       else if p_vaddr ph = GRASS_ENTRY then load_grass reader ph
       else if p_vaddr ph = APPS_ENTRY then load_app pid reader argc argv ph
       else Stop ''elf_load: Invalid p_vaddr'') (\<lambda>_.
     load_headers pid reader argc argv buf phoff is))"

text \<open>\<open>junk\<close> is what the local buffer holds before the first read.\<close>

definition elf_load :: "int \<Rightarrow> 'd elf_reader \<Rightarrow> int \<Rightarrow> byte list option \<Rightarrow> block \<Rightarrow> ('d kernel, unit) io" where
  "elf_load pid reader argc argv junk =
     ibind (reader 0 junk) (\<lambda>buf.
     ibind (pure (e_phoff buf)) (\<lambda>phoff.
     ibind (pure (e_phnum buf)) (\<lambda>n.
     load_headers pid reader argc argv buf (unat phoff) [0..<n])))"

end
