(* ===== verification/Mmu_Correct.thy ===== *)
theory Mmu_Correct
  imports Earth
begin

text \<open>
  Correctness of the software TLB over a paging device: switching the address space keeps the
  contents of every page of every process. The paging device is an interface, provided by the
  frames in memory on QEMU.
\<close>

section \<open>Pages\<close>

abbreviation page_addr :: "u32 \<Rightarrow> u32" where
  "page_addr k \<equiv> push_bit 12 k"

definition in_page :: "u32 \<Rightarrow> u32 \<Rightarrow> bool" where
  "in_page k x \<longleftrightarrow> in_region (page_addr k) 4096 x"

lemma unat_page_addr: "unat k < 2 ^ 20 \<Longrightarrow> unat (page_addr k) = unat k * 4096"
  by (simp add: push_bit_eq_mult unat_word_ariths)

lemma in_page_iff: "unat k < 2 ^ 20 \<Longrightarrow> in_page k x \<longleftrightarrow> unat x div 4096 = unat k"
  by (subst in_page_def, subst in_region_nat) (auto simp: unat_page_addr div_nat_eqI)

lemma in_page_unique:
  assumes "in_page k x" "in_page k' x" "unat k < 2 ^ 20" "unat k' < 2 ^ 20"
  shows "k = k'"
  using assms by (simp add: in_page_iff word_unat_eq_iff)

lemma page_read_cong:
  assumes "\<And>x. in_page k x \<Longrightarrow> m x = m' x"
  shows "mem_read m (page_addr k) 4096 = mem_read m' (page_addr k) 4096"
  by (rule mem_read_cong) (use assms in \<open>auto simp: in_page_def\<close>)

section \<open>The paging device as an interface\<close>

text \<open>
  Everything but the memory inside \<open>S\<close>, the state of the devices and the cache is the same.
\<close>

definition same_outside :: "u32 set \<Rightarrow> 'd earth \<Rightarrow> 'd earth \<Rightarrow> bool" where
  "same_outside S e e' \<longleftrightarrow>
     table e' = table e \<and> curr_vm_pid e' = curr_vm_pid e \<and> platform e' = platform e \<and>
     translation e' = translation e \<and> timer_reset e' = timer_reset e \<and>
     tty_recv_intr e' = tty_recv_intr e \<and> disk_read e' = disk_read e \<and> disk_write e' = disk_write e \<and>
     (\<forall>x. x \<notin> S \<longrightarrow> mem e' x = mem e x)"

lemma same_outside_refl [simp]: "same_outside S e e"
  by (simp add: same_outside_def)

lemma same_outside_trans: "same_outside S e e' \<Longrightarrow> same_outside T e' e'' \<Longrightarrow> same_outside (S \<union> T) e e''"
  by (simp add: same_outside_def)

lemma same_outside_step: "same_outside S e e' \<Longrightarrow> same_outside S e' e'' \<Longrightarrow> same_outside S e e''"
  by (simp add: same_outside_def)

lemma same_outside_mono: "same_outside S e e' \<Longrightarrow> S \<subseteq> T \<Longrightarrow> same_outside T e e'"
  by (auto simp: same_outside_def)

definition page_clear :: "u32 set \<Rightarrow> u32 \<Rightarrow> bool" where
  "page_clear S k \<longleftrightarrow> unat k < 2 ^ 20 \<and> (\<forall>x. in_page k x \<longrightarrow> x \<notin> S)"

text \<open>
  \<open>frame e i\<close> is the contents of frame \<open>i\<close>, \<open>store\<close> the memory that the device uses for itself.
\<close>

locale paging_device =
  fixes frame :: "'d earth \<Rightarrow> nat \<Rightarrow> byte list"
    and inv :: "'d earth \<Rightarrow> bool"
    and store :: "u32 set"
  assumes frame_write: "inv e \<Longrightarrow> i < 256 \<Longrightarrow> page_clear store k \<Longrightarrow>
      owp (paging_write (of_nat i) k e) (\<lambda>e'. inv e' \<and> same_outside store e e' \<and>
        frame e' = (frame e)(i := mem_read (mem e) (page_addr k) 4096))"
    and frame_read: "inv e \<Longrightarrow> i < 256 \<Longrightarrow>
      owp (paging_read (of_nat i) False e) (\<lambda>(a, e'). inv e' \<and> same_outside store e e' \<and>
        frame e' = frame e \<and> mem_read (mem e') a 4096 = frame e i)"
    and frame_alloc: "inv e \<Longrightarrow> i < 256 \<Longrightarrow>
      owp (paging_read (of_nat i) True e) (\<lambda>(a, e'). inv e' \<and> same_outside store e e' \<and>
        (\<forall>j. j < 256 \<longrightarrow> j \<noteq> i \<longrightarrow> frame e' j = frame e j) \<and> mem_read (mem e') a 4096 = frame e' i)"
    and frame_drop: "inv e \<Longrightarrow> i < 256 \<Longrightarrow> inv (paging_invalidate_cache (of_nat i) e) \<and>
        (\<forall>j. j < 256 \<longrightarrow> j \<noteq> i \<longrightarrow> frame (paging_invalidate_cache (of_nat i) e) j = frame e j)"
    and frame_other: "inv e \<Longrightarrow> mem e' = mem e \<Longrightarrow> platform e' = platform e \<Longrightarrow> dev e' = dev e \<Longrightarrow>
        cache_slots e' = cache_slots e \<Longrightarrow> disk_read e' = disk_read e \<Longrightarrow> disk_write e' = disk_write e \<Longrightarrow>
        inv e' \<and> frame e' = frame e"
    and frame_timer: "inv e \<Longrightarrow> inv (e\<lparr>dev := snd (timer_reset e (dev e))\<rparr>) \<and>
        frame (e\<lparr>dev := snd (timer_reset e (dev e))\<rparr>) = frame e"
    and frame_tty: "inv e \<Longrightarrow> inv (e\<lparr>dev := snd (tty_recv_intr e (dev e))\<rparr>) \<and>
        frame (e\<lparr>dev := snd (tty_recv_intr e (dev e))\<rparr>) = frame e"
    and frame_mem: "inv e \<Longrightarrow> (\<forall>x\<in>store. m x = mem e x) \<Longrightarrow>
        inv (e\<lparr>mem := m\<rparr>) \<and> frame (e\<lparr>mem := m\<rparr>) = frame e"

section \<open>Address spaces\<close>

abbreviation used :: "'d earth \<Rightarrow> nat \<Rightarrow> bool" where
  "used e i \<equiv> i < 256 \<and> fm_use (table e ! i) \<noteq> 0"

text \<open>The memory that the mapped pages of process \<open>p\<close> occupy.\<close>

definition user_pages :: "'d earth \<Rightarrow> int \<Rightarrow> u32 set" where
  "user_pages e p = {x. \<exists>i. used e i \<and> fm_pid (table e ! i) = p \<and> in_page (fm_page_no (table e ! i)) x}"

text \<open>The contents of the page that frame \<open>i\<close> backs, as its process sees it.\<close>

definition page_view :: "('d earth \<Rightarrow> nat \<Rightarrow> byte list) \<Rightarrow> 'd earth \<Rightarrow> nat \<Rightarrow> byte list" where
  "page_view frame e i =
     (if fm_pid (table e ! i) = curr_vm_pid e
      then mem_read (mem e) (page_addr (fm_page_no (table e ! i))) 4096 else frame e i)"

definition vm_wf :: "u32 set \<Rightarrow> 'd earth \<Rightarrow> bool" where
  "vm_wf S e \<longleftrightarrow> length (table e) = 256 \<and>
     (\<forall>i. used e i \<longrightarrow> page_clear S (fm_page_no (table e ! i))) \<and>
     (\<forall>i j. used e i \<longrightarrow> used e j \<longrightarrow> fm_pid (table e ! i) = fm_pid (table e ! j) \<longrightarrow>
        fm_page_no (table e ! i) = fm_page_no (table e ! j) \<longrightarrow> i = j)"

lemma vm_wf_same_pages:
  assumes "vm_wf S e" "used e i" "used e j" "fm_pid (table e ! i) = fm_pid (table e ! j)"
    and "in_page (fm_page_no (table e ! i)) x" "in_page (fm_page_no (table e ! j)) x"
  shows "i = j"
proof -
  have "unat (fm_page_no (table e ! k)) < 2 ^ 20" if "used e k" for k
    using assms(1) that by (simp add: vm_wf_def page_clear_def)
  then have "fm_page_no (table e ! i) = fm_page_no (table e ! j)"
    using in_page_unique [OF assms(5,6)] assms(2,3) by blast
  with assms(1-4) show ?thesis by (simp add: vm_wf_def)
qed

lemma find_unused_Some:
  "find_unused k fs = Some i \<Longrightarrow>
    k \<le> i \<and> i - k < length fs \<and> fm_use (fs ! (i - k)) = 0 \<and> (\<forall>j<i - k. fm_use (fs ! j) \<noteq> 0)"
proof (induction k fs rule: find_unused.induct)
  case (2 k f fs)
  show ?case
  proof (cases "fm_use f = 0")
    case False
    with 2 have IH: "Suc k \<le> i \<and> i - Suc k < length fs \<and> fm_use (fs ! (i - Suc k)) = 0 \<and>
        (\<forall>j<i - Suc k. fm_use (fs ! j) \<noteq> 0)" by simp
    then have "i - k = Suc (i - Suc k)" by (metis Suc_diff_Suc Suc_le_eq)
    with IH False show ?thesis by (auto simp: nth_Cons split: nat.splits)
  qed (use 2 in simp)
qed simp

lemma find_unused_None: "find_unused k fs = None \<longleftrightarrow> (\<forall>f\<in>set fs. fm_use f \<noteq> 0)"
  by (induction k fs rule: find_unused.induct) auto

context paging_device
begin

lemma unmap_ok:
  assumes "inv e" "vm_wf store e"
  shows "owp (ofold (unmap_frame p) [0..<NFRAMES] e) (\<lambda>e'. inv e' \<and> same_outside store e e' \<and>
     (\<forall>i<256. frame e' i = (if used e i \<and> fm_pid (table e ! i) = p
        then mem_read (mem e) (page_addr (fm_page_no (table e ! i))) 4096 else frame e i)))"
proof -
  let ?I = "\<lambda>n e'. inv e' \<and> same_outside store e e' \<and>
     (\<forall>i<256. frame e' i = (if used e i \<and> fm_pid (table e ! i) = p \<and> i < n
        then mem_read (mem e) (page_addr (fm_page_no (table e ! i))) 4096 else frame e i))"
  have "owp (ofold (unmap_frame p) [0..<NFRAMES] e) (?I NFRAMES)"
  proof (rule ofold_upt_rule [where I = ?I])
    fix n e' assume "n < NFRAMES" and I: "?I n e'"
    then have n: "n < 256" by (simp add: NFRAMES_def)
    have t: "table e' = table e" using I by (simp add: same_outside_def)
    show "owp (unmap_frame p n e') (?I (Suc n))"
    proof (cases "fm_use (table e ! n) \<noteq> 0 \<and> fm_pid (table e ! n) = p")
      case True
      let ?k = "fm_page_no (table e ! n)"
      have clear: "page_clear store ?k" using assms(2) True n by (simp add: vm_wf_def)
      then have rd: "mem_read (mem e') (page_addr ?k) 4096 = mem_read (mem e) (page_addr ?k) 4096"
        using I by (intro page_read_cong) (auto simp: page_clear_def same_outside_def)
      have "unmap_frame p n e' = paging_write (of_nat n) ?k e'" using True t by (simp add: unmap_frame_def)
      then show ?thesis
        using frame_write [OF _ n clear, of e'] I rd True n same_outside_step [of store e e']
        by (auto elim!: owp_mono simp: less_Suc_eq)
    next
      case False
      then show ?thesis using I t by (auto simp: unmap_frame_def less_Suc_eq)
    qed
  qed (use assms in simp)
  then show ?thesis by (rule owp_mono) (simp add: NFRAMES_def)
qed

lemma map_frame_ok:
  assumes e: "inv e" "vm_wf store e" and n: "used e n" "fm_pid (table e ! n) = p"
  shows "owp (map_frame p n e) (\<lambda>e'. inv e' \<and> frame e' = frame e \<and>
     same_outside (store \<union> {x. in_page (fm_page_no (table e ! n)) x}) e e' \<and>
     mem_read (mem e') (page_addr (fm_page_no (table e ! n))) 4096 = frame e n)"
proof -
  let ?k = "fm_page_no (table e ! n)"
  have clear: "page_clear store ?k" using e(2) n(1) by (simp add: vm_wf_def)
  have copy: "inv (e1\<lparr>mem := m\<rparr>) \<and> frame (e1\<lparr>mem := m\<rparr>) = frame e \<and>
      same_outside (store \<union> {x. in_page ?k x}) e (e1\<lparr>mem := m\<rparr>) \<and>
      mem_read m (page_addr ?k) 4096 = frame e n"
    if e1: "inv e1" "same_outside store e e1" "frame e1 = frame e" "mem_read (mem e1) a 4096 = frame e n"
      and m: "m = memcpy (mem e1) (page_addr ?k) a PAGE_SIZE" for a e1 m
  proof -
    have m': "m = mem_write (mem e1) (page_addr ?k) (frame e n)"
      using m e1(4) by (simp add: memcpy_def PAGE_SIZE_def)
    have len: "length (frame e n) = 4096" using e1(4) by (metis length_mem_read)
    have out: "m x = mem e1 x" if "\<not> in_page ?k x" for x
      using that len by (simp add: m' mem_write_outside in_page_def)
    then have "\<forall>x\<in>store. m x = mem e1 x" using clear by (auto simp: page_clear_def)
    from frame_mem [OF e1(1) this] show ?thesis
      using e1(2,3) out len by (auto simp: same_outside_def m')
  qed
  have t: "table e1 = table e" if "same_outside store e e1" for e1
    using that by (simp add: same_outside_def)
  have eq: "map_frame p n e = obind (paging_read (of_nat n) False e) (\<lambda>(src, e1).
      Ret (e1\<lparr>mem := memcpy (mem e1) (page_addr (fm_page_no (table e1 ! n))) src PAGE_SIZE\<rparr>))"
    using n by (simp add: map_frame_def)
  have "n < 256" using n(1) by simp
  show ?thesis unfolding eq owp_obind
  proof (rule owp_mono [OF frame_read [OF e(1) \<open>n < 256\<close>]], clarify)
    fix a e1
    assume e1: "inv e1" "same_outside store e e1" "frame e1 = frame e" "mem_read (mem e1) a 4096 = frame e n"
    show "owp (Ret (e1\<lparr>mem := memcpy (mem e1) (page_addr (fm_page_no (table e1 ! n))) a PAGE_SIZE\<rparr>))
       (\<lambda>e'. inv e' \<and> frame e' = frame e \<and>
       same_outside (store \<union> {x. in_page ?k x}) e e' \<and> mem_read (mem e') (page_addr ?k) 4096 = frame e n)"
      using copy [OF e1 refl] by (simp add: t [OF e1(2)])
  qed
qed

lemma map_ok:
  assumes "inv e" "vm_wf store e"
  shows "owp (ofold (map_frame p) [0..<NFRAMES] e) (\<lambda>e'. inv e' \<and> frame e' = frame e \<and>
     same_outside (store \<union> user_pages e p) e e' \<and>
     (\<forall>i. used e i \<longrightarrow> fm_pid (table e ! i) = p \<longrightarrow>
        mem_read (mem e') (page_addr (fm_page_no (table e ! i))) 4096 = frame e i))"
proof -
  let ?k = "\<lambda>i. fm_page_no (table e ! i)"
  let ?I = "\<lambda>n e'. inv e' \<and> frame e' = frame e \<and> same_outside (store \<union> user_pages e p) e e' \<and>
     (\<forall>i<n. used e i \<longrightarrow> fm_pid (table e ! i) = p \<longrightarrow>
        mem_read (mem e') (page_addr (?k i)) 4096 = frame e i)"
  have "owp (ofold (map_frame p) [0..<NFRAMES] e) (?I NFRAMES)"
  proof (rule ofold_upt_rule [where I = ?I])
    fix n e' assume "n < NFRAMES" and I: "?I n e'"
    then have n: "n < 256" by (simp add: NFRAMES_def)
    have t: "table e' = table e" using I by (simp add: same_outside_def)
    show "owp (map_frame p n e') (?I (Suc n))"
    proof (cases "fm_use (table e ! n) \<noteq> 0 \<and> fm_pid (table e ! n) = p")
      case False
      then show ?thesis using I t by (auto simp: map_frame_def less_Suc_eq)
    next
      case True
      have wf': "vm_wf store e'" using assms(2) t by (simp add: vm_wf_def)
      have keep: "mem_read (mem e'') (page_addr (?k i)) 4096 = frame e i"
        if e'': "same_outside (store \<union> {x. in_page (?k n) x}) e' e''"
          and i: "i < n" "used e i" "fm_pid (table e ! i) = p" for e'' i
      proof -
        have "mem e'' x = mem e' x" if x: "in_page (?k i) x" for x
        proof -
          have "\<not> in_page (?k n) x" using vm_wf_same_pages [OF assms(2) i(2), of n x] i True n x by auto
          moreover have "x \<notin> store" using assms(2) i(2) x by (auto simp: vm_wf_def page_clear_def)
          ultimately show ?thesis using e'' by (simp add: same_outside_def)
        qed
        then have "mem_read (mem e'') (page_addr (?k i)) 4096 = mem_read (mem e') (page_addr (?k i)) 4096"
          by (rule page_read_cong)
        then show ?thesis using I i by simp
      qed
      have "same_outside (store \<union> user_pages e p) e e''"
        if "same_outside (store \<union> {x. in_page (?k n) x}) e' e''" for e''
      proof -
        have "{x. in_page (?k n) x} \<subseteq> user_pages e p" using True n by (auto simp: user_pages_def)
        then have "same_outside (store \<union> user_pages e p) e' e''"
          using that by (auto elim: same_outside_mono)
        with I same_outside_step show ?thesis by blast
      qed
      with map_frame_ok [of e' n p] I wf' True n t keep show ?thesis
        by (auto elim!: owp_mono simp: less_Suc_eq)
    qed
  qed (use assms in simp)
  then show ?thesis by (rule owp_mono) (simp add: NFRAMES_def)
qed

lemma soft_tlb_switch_ok:
  assumes e: "inv e" "vm_wf store e"
  shows "owp (soft_tlb_switch p e) (\<lambda>e'. inv e' \<and> vm_wf store e' \<and> curr_vm_pid e' = p \<and>
     same_outside (store \<union> user_pages e p) e (e'\<lparr>curr_vm_pid := curr_vm_pid e\<rparr>) \<and>
     (\<forall>i. used e i \<longrightarrow> page_view frame e' i = page_view frame e i))"
proof (cases "p = curr_vm_pid e")
  case True
  then show ?thesis using e by (simp add: soft_tlb_switch_def)
next
  case False
  let ?k = "\<lambda>i. fm_page_no (table e ! i)"
  show ?thesis
    unfolding soft_tlb_switch_def if_not_P [OF False] owp_obind
  proof (rule owp_mono [OF unmap_ok [OF e]], elim conjE)
    fix e1 assume e1: "inv e1" "same_outside store e e1"
      "\<forall>i<256. frame e1 i = (if used e i \<and> fm_pid (table e ! i) = curr_vm_pid e
         then mem_read (mem e) (page_addr (?k i)) 4096 else frame e i)"
    have view: "frame e1 i = page_view frame e i" if "used e i" for i
      using e1(3) that by (auto simp: page_view_def)
    have t: "table e1 = table e" using e1(2) by (simp add: same_outside_def)
    then have wf1: "vm_wf store e1" "user_pages e1 p = user_pages e p"
      using e(2) by (simp_all add: vm_wf_def user_pages_def)
    show "owp (ofold (map_frame p) [0..<NFRAMES] e1) (\<lambda>e2. owp (Ret (e2\<lparr>curr_vm_pid := p\<rparr>)) (\<lambda>e'.
       inv e' \<and> vm_wf store e' \<and> curr_vm_pid e' = p \<and>
       same_outside (store \<union> user_pages e p) e (e'\<lparr>curr_vm_pid := curr_vm_pid e\<rparr>) \<and>
       (\<forall>i. used e i \<longrightarrow> page_view frame e' i = page_view frame e i)))"
    proof (rule owp_mono [OF map_ok [OF e1(1) wf1(1)]], elim conjE)
      fix e2 assume e2: "inv e2" "frame e2 = frame e1" "same_outside (store \<union> user_pages e1 p) e1 e2"
        "\<forall>i. used e1 i \<longrightarrow> fm_pid (table e1 ! i) = p \<longrightarrow>
          mem_read (mem e2) (page_addr (fm_page_no (table e1 ! i))) 4096 = frame e1 i"
      let ?e = "e2\<lparr>curr_vm_pid := p\<rparr>"
      have t2: "table e2 = table e" using e2(3) t by (simp add: same_outside_def)
      have f: "inv ?e \<and> frame ?e = frame e2" by (rule frame_other [OF e2(1)]) simp_all
      have "same_outside store e (e1\<lparr>curr_vm_pid := curr_vm_pid e\<rparr>)" using e1(2) by (simp add: same_outside_def)
      moreover have "same_outside (store \<union> user_pages e p) (e1\<lparr>curr_vm_pid := curr_vm_pid e\<rparr>)
          (?e\<lparr>curr_vm_pid := curr_vm_pid e\<rparr>)"
        using e2(3) wf1(2) by (simp add: same_outside_def)
      ultimately have "same_outside (store \<union> (store \<union> user_pages e p)) e (?e\<lparr>curr_vm_pid := curr_vm_pid e\<rparr>)"
        by (rule same_outside_trans)
      moreover have "page_view frame ?e i = page_view frame e i" if "used e i" for i
        using e2(2,4) that f t t2 view by (simp add: page_view_def [of frame ?e])
      ultimately show "owp (Ret ?e) (\<lambda>e'. inv e' \<and> vm_wf store e' \<and> curr_vm_pid e' = p \<and>
          same_outside (store \<union> user_pages e p) e (e'\<lparr>curr_vm_pid := curr_vm_pid e\<rparr>) \<and>
          (\<forall>i. used e i \<longrightarrow> page_view frame e' i = page_view frame e i))"
        using f e(2) t2 by (simp add: vm_wf_def Un_assoc [symmetric])
    qed
  qed
qed

section \<open>Allocating and freeing frames\<close>

lemma mmu_free_loop:
  assumes "inv e" "length (table e) = 256" "n \<le> 256"
  shows "inv (fold (free_frame p) [0..<n] e) \<and> length (table (fold (free_frame p) [0..<n] e)) = 256 \<and>
     (\<forall>i<256. table (fold (free_frame p) [0..<n] e) ! i =
        (if i < n \<and> fm_use (table e ! i) \<noteq> 0 \<and> fm_pid (table e ! i) = p then zero_mapping else table e ! i)) \<and>
     (\<forall>i<256. \<not> (fm_use (table e ! i) \<noteq> 0 \<and> fm_pid (table e ! i) = p) \<longrightarrow>
        frame (fold (free_frame p) [0..<n] e) i = frame e i) \<and>
     mem (fold (free_frame p) [0..<n] e) = mem e \<and> curr_vm_pid (fold (free_frame p) [0..<n] e) = curr_vm_pid e \<and>
     translation (fold (free_frame p) [0..<n] e) = translation e"
  using assms(3)
proof (induction n)
  case 0
  then show ?case using assms by simp
next
  case (Suc n)
  let ?e = "fold (free_frame p) [0..<n] e"
  have IH: "inv ?e \<and> length (table ?e) = 256 \<and>
     (\<forall>i<256. table ?e ! i =
        (if i < n \<and> fm_use (table e ! i) \<noteq> 0 \<and> fm_pid (table e ! i) = p then zero_mapping else table e ! i)) \<and>
     (\<forall>i<256. \<not> (fm_use (table e ! i) \<noteq> 0 \<and> fm_pid (table e ! i) = p) \<longrightarrow> frame ?e i = frame e i) \<and>
     mem ?e = mem e \<and> curr_vm_pid ?e = curr_vm_pid e \<and> translation ?e = translation e"
    using Suc by simp
  have n: "n < 256" using Suc.prems by simp
  then have tn: "table ?e ! n = table e ! n" using IH by simp
  show ?case
  proof (cases "fm_use (table e ! n) \<noteq> 0 \<and> fm_pid (table e ! n) = p")
    case False
    then have "fold (free_frame p) [0..<Suc n] e = ?e" using tn by (auto simp: free_frame_def)
    then show ?thesis using IH False by (auto simp: less_Suc_eq)
  next
    case True
    let ?i = "paging_invalidate_cache (of_nat n) ?e"
    let ?e' = "?i\<lparr>table := (table ?i)[n := zero_mapping]\<rparr>"
    have step: "fold (free_frame p) [0..<Suc n] e = ?e'"
      using True tn by (simp add: free_frame_def Let_def)
    have same: "table ?i = table ?e" "mem ?i = mem ?e" "curr_vm_pid ?i = curr_vm_pid ?e"
      "translation ?i = translation ?e"
      by (simp_all add: paging_invalidate_cache_def)
    have d: "inv ?i \<and> (\<forall>j. j < 256 \<longrightarrow> j \<noteq> n \<longrightarrow> frame ?i j = frame ?e j)"
      using frame_drop n IH by blast
    then have "inv ?e' \<and> frame ?e' = frame ?i" by (intro frame_other) simp_all
    then show ?thesis unfolding step using IH True n d
      by (auto simp: same nth_list_update less_Suc_eq)
  qed
qed

lemma mmu_free_ok:
  assumes e: "inv e" "vm_wf store e"
  shows "inv (mmu_free p e)" "vm_wf store (mmu_free p e)" "mem (mmu_free p e) = mem e"
    "curr_vm_pid (mmu_free p e) = curr_vm_pid e" "translation (mmu_free p e) = translation e"
    "i < 256 \<Longrightarrow> table (mmu_free p e) ! i =
       (if fm_use (table e ! i) \<noteq> 0 \<and> fm_pid (table e ! i) = p then zero_mapping else table e ! i)"
    "used e i \<Longrightarrow> fm_pid (table e ! i) \<noteq> p \<Longrightarrow> page_view frame (mmu_free p e) i = page_view frame e i"
proof -
  have len: "length (table e) = 256" using e(2) by (simp add: vm_wf_def)
  have N: "NFRAMES \<le> 256" "\<And>i. i < NFRAMES \<longleftrightarrow> i < 256" by (simp_all add: NFRAMES_def)
  have L: "inv (mmu_free p e) \<and> length (table (mmu_free p e)) = 256 \<and>
     (\<forall>i<256. table (mmu_free p e) ! i =
        (if fm_use (table e ! i) \<noteq> 0 \<and> fm_pid (table e ! i) = p then zero_mapping else table e ! i)) \<and>
     (\<forall>i<256. \<not> (fm_use (table e ! i) \<noteq> 0 \<and> fm_pid (table e ! i) = p) \<longrightarrow>
        frame (mmu_free p e) i = frame e i) \<and>
     mem (mmu_free p e) = mem e \<and> curr_vm_pid (mmu_free p e) = curr_vm_pid e \<and>
     translation (mmu_free p e) = translation e"
    using mmu_free_loop [OF e(1) len N(1), of p] by (simp add: mmu_free_def N(2))
  then show "inv (mmu_free p e)" "mem (mmu_free p e) = mem e"
    "curr_vm_pid (mmu_free p e) = curr_vm_pid e" "translation (mmu_free p e) = translation e" by simp_all
  show ti: "table (mmu_free p e) ! i =
       (if fm_use (table e ! i) \<noteq> 0 \<and> fm_pid (table e ! i) = p then zero_mapping else table e ! i)"
    if "i < 256" for i using L that by simp
  show "vm_wf store (mmu_free p e)"
  proof -
    have u: "used e i \<and> table (mmu_free p e) ! i = table e ! i" if "used (mmu_free p e) i" for i
      using ti [of i] that by (auto simp: zero_mapping_def split: if_splits)
    show ?thesis unfolding vm_wf_def
    proof (intro conjI allI impI)
      show "length (table (mmu_free p e)) = 256" using L by simp
      show "page_clear store (fm_page_no (table (mmu_free p e) ! i))" if "used (mmu_free p e) i" for i
        using e(2) u [OF that] by (simp add: vm_wf_def)
      show "i = j" if "used (mmu_free p e) i" "used (mmu_free p e) j"
        "fm_pid (table (mmu_free p e) ! i) = fm_pid (table (mmu_free p e) ! j)"
        "fm_page_no (table (mmu_free p e) ! i) = fm_page_no (table (mmu_free p e) ! j)" for i j
        using e(2) u [OF that(1)] u [OF that(2)] that(3,4) by (simp add: vm_wf_def)
    qed
  qed
  show "page_view frame (mmu_free p e) i = page_view frame e i"
    if "used e i" "fm_pid (table e ! i) \<noteq> p"
    using that L by (simp add: page_view_def)
qed

lemma mmu_alloc_ok:
  assumes e: "inv e" "vm_wf store e" and free: "find_unused 0 (table e) = Some i"
  shows "owp (mmu_alloc e) (\<lambda>(frame_id, a, e'). frame_id = of_nat i \<and> inv e' \<and>
     same_outside store (e\<lparr>table := (table e)[i := (table e ! i)\<lparr>fm_use := 1\<rparr>]\<rparr>) e' \<and>
     i < 256 \<and> fm_use (table e ! i) = 0 \<and> mem_read (mem e') a 4096 = frame e' i \<and>
     (\<forall>j. used e j \<longrightarrow> page_view frame e' j = page_view frame e j))"
proof -
  have i: "i < 256" "fm_use (table e ! i) = 0"
    using find_unused_Some [OF free] e(2) by (auto simp: vm_wf_def)
  show ?thesis unfolding mmu_alloc_def free option.case owp_obind
  proof (rule owp_mono [OF frame_alloc [OF e(1) i(1)]], clarify)
    fix a e1 assume e1: "inv e1" "same_outside store e e1"
      "\<forall>j. j < 256 \<longrightarrow> j \<noteq> i \<longrightarrow> frame e1 j = frame e j" "mem_read (mem e1) a 4096 = frame e1 i"
    let ?e = "e1\<lparr>table := (table e1)[i := (table e1 ! i)\<lparr>fm_use := 1\<rparr>]\<rparr>"
    have f: "inv ?e \<and> frame ?e = frame e1" by (rule frame_other [OF e1(1)]) simp_all
    have t: "table e1 = table e" "curr_vm_pid e1 = curr_vm_pid e" using e1(2) by (simp_all add: same_outside_def)
    have "page_view frame ?e j = page_view frame e j" if j: "used e j" for j
    proof -
      have "j \<noteq> i" using j i(2) by auto
      moreover have "mem_read (mem e1) (page_addr (fm_page_no (table e ! j))) 4096 =
          mem_read (mem e) (page_addr (fm_page_no (table e ! j))) 4096"
        using e(2) j e1(2) by (intro page_read_cong) (auto simp: vm_wf_def page_clear_def same_outside_def)
      ultimately show ?thesis using f e1(3) t j by (simp add: page_view_def)
    qed
    then show "owp (Ret (of_nat i, a, ?e)) (\<lambda>(frame_id, a, e'). frame_id = of_nat i \<and> inv e' \<and>
     same_outside store (e\<lparr>table := (table e)[i := (table e ! i)\<lparr>fm_use := 1\<rparr>]\<rparr>) e' \<and>
     i < 256 \<and> fm_use (table e ! i) = 0 \<and> mem_read (mem e') a 4096 = frame e' i \<and>
     (\<forall>j. used e j \<longrightarrow> page_view frame e' j = page_view frame e j))"
      using f e1 t i by (simp add: same_outside_def)
  qed
qed

end

section \<open>Frames in memory\<close>

text \<open>On QEMU the 256 frames are consecutive in memory from FRAME_CACHE_START on.\<close>

definition frame_addr :: "nat \<Rightarrow> u32" where
  "frame_addr i = pages_start + of_nat i * of_nat PAGE_SIZE"

definition qemu_frame :: "'d earth \<Rightarrow> nat \<Rightarrow> byte list" where
  "qemu_frame e i = (if i < NFRAMES then mem_read (mem e) (frame_addr i) PAGE_SIZE else [])"

definition qemu_store :: "u32 set" where
  "qemu_store = {x. in_region pages_start (NFRAMES * PAGE_SIZE) x}"

definition on_qemu :: "'d earth \<Rightarrow> bool" where
  "on_qemu e \<longleftrightarrow> platform e \<noteq> ARTY"

lemma unat_frame_addr: "i < 256 \<Longrightarrow> unat (frame_addr i) = 0x80004000 + 4096 * i"
  by (simp add: frame_addr_def pages_start_def layout_defs unat_word_ariths unat_of_nat take_bit_nat_eq_self)

lemma in_qemu_store: "x \<in> qemu_store \<longleftrightarrow> 0x80004000 \<le> unat x \<and> unat x < 0x80104000"
  by (simp add: qemu_store_def in_region_nat pages_start_def layout_defs)

lemma frame_region: "i < 256 \<Longrightarrow> in_region (frame_addr i) 4096 x \<Longrightarrow> x \<in> qemu_store"
  by (simp add: in_qemu_store in_region_nat unat_frame_addr)

lemma frames_disjoint:
  "i < 256 \<Longrightarrow> j < 256 \<Longrightarrow> i \<noteq> j \<Longrightarrow> disjoint_regions (frame_addr i) 4096 (frame_addr j) 4096"
  by (rule disjoint_regionsI) (auto simp: unat_frame_addr)

lemma qemu_frame_mem:
  assumes "\<forall>x\<in>qemu_store. m x = mem e x"
  shows "qemu_frame (e\<lparr>mem := m\<rparr>) = qemu_frame e"
proof
  fix i
  have "mem_read m (frame_addr i) 4096 = mem_read (mem e) (frame_addr i) 4096" if "i < 256"
    by (rule mem_read_cong) (use assms frame_region that in auto)
  then show "qemu_frame (e\<lparr>mem := m\<rparr>) i = qemu_frame e i" by (simp add: qemu_frame_def layout_defs)
qed

lemma qemu_frame_write:
  assumes "i < 256" "length bs = 4096"
  shows "qemu_frame (e\<lparr>mem := mem_write (mem e) (frame_addr i) bs\<rparr>) = (qemu_frame e)(i := bs)"
proof
  fix j
  have "mem_read (mem_write (mem e) (frame_addr i) bs) (frame_addr j) 4096 = mem_read (mem e) (frame_addr j) 4096"
    if "j < 256" "j \<noteq> i"
    by (rule mem_read_write_disjoint) (use frames_disjoint that assms in auto)
  then show "qemu_frame (e\<lparr>mem := mem_write (mem e) (frame_addr i) bs\<rparr>) j = ((qemu_frame e)(i := bs)) j"
    using assms by (simp add: qemu_frame_def layout_defs)
qed

lemma qemu_paging:
  assumes "on_qemu e"
  shows "paging_read (of_nat i) b e = Ret (frame_addr i, e)"
    and "paging_write (of_nat i) k e =
      Ret (e\<lparr>mem := mem_write (mem e) (frame_addr i) (mem_read (mem e) (page_addr k) 4096)\<rparr>)"
  using assms
  by (simp_all add: on_qemu_def paging_read_def paging_write_def frame_addr_def memcpy_def PAGE_SIZE_def)

interpretation qemu: paging_device qemu_frame on_qemu qemu_store
proof (unfold_locales, goal_cases)
  case (1 e i k)
  let ?m = "mem_write (mem e) (frame_addr i) (mem_read (mem e) (page_addr k) 4096)"
  have "?m x = mem e x" if "x \<notin> qemu_store" for x
    using that 1(2) frame_region by (auto intro: mem_write_outside)
  then show ?case using 1 qemu_frame_write [OF 1(2), of "mem_read (mem e) (page_addr k) 4096" e]
    by (simp add: qemu_paging on_qemu_def same_outside_def)
next
  case (2 e i)
  then show ?case by (simp add: qemu_paging qemu_frame_def layout_defs)
next
  case (3 e i)
  then show ?case by (simp add: qemu_paging qemu_frame_def layout_defs)
next
  case (4 e i)
  then show ?case by (simp add: on_qemu_def paging_invalidate_cache_def qemu_frame_def)
next
  case (5 e e')
  moreover from 5 have "qemu_frame e' = qemu_frame e" by (intro ext) (simp add: qemu_frame_def)
  ultimately show ?case by (simp add: on_qemu_def)
next
  case (6 e)
  moreover have "qemu_frame (e\<lparr>dev := d\<rparr>) = qemu_frame e" for d :: 'a
    by (intro ext) (simp add: qemu_frame_def)
  ultimately show ?case by (simp add: on_qemu_def)
next
  case (7 e)
  moreover have "qemu_frame (e\<lparr>dev := d\<rparr>) = qemu_frame e" for d :: 'a
    by (intro ext) (simp add: qemu_frame_def)
  ultimately show ?case by (simp add: on_qemu_def)
next
  case (8 e m)
  then show ?case using qemu_frame_mem [of m e] by (simp add: on_qemu_def)
qed

end
