(* ===== verification/Elf_Correct.thy ===== *)
theory Elf_Correct
  imports Elf Mmu_Correct
begin

text \<open>
  The loader on QEMU, where the frames are memory: what it leaves in the pages of the new process,
  and that it changes nothing else.
\<close>

section \<open>Frames for a new process\<close>

definition nfree :: "'d earth \<Rightarrow> nat" where
  "nfree e = length (filter (\<lambda>f. fm_use f = 0) (table e))"

lemma nfree_update:
  assumes "i < length (table e)" "fm_use (table e ! i) = 0" "fm_use f \<noteq> 0"
  shows "Suc (nfree (e\<lparr>table := (table e)[i := f]\<rparr>)) = nfree e"
proof -
  let ?P = "\<lambda>f. fm_use f = 0"
  have "length (filter ?P (table e)) = length (filter ?P (take i (table e))) + Suc (length (filter ?P (drop (Suc i) (table e))))"
    using assms(2) by (subst id_take_nth_drop [OF assms(1)]) simp
  moreover have "length (filter ?P ((table e)[i := f])) = length (filter ?P (take i (table e))) + length (filter ?P (drop (Suc i) (table e)))"
    using assms(3) by (simp add: upd_conv_take_nth_drop [OF assms(1)])
  ultimately show ?thesis by (simp add: nfree_def)
qed

lemma nfree_find:
  assumes "0 < nfree e"
  obtains i where "find_unused 0 (table e) = Some i" "i < length (table e)" "fm_use (table e ! i) = 0"
proof (cases "find_unused 0 (table e)")
  case None
  then show ?thesis using assms by (simp add: find_unused_None nfree_def filter_False)
next
  case (Some i)
  then show ?thesis using find_unused_Some [OF Some] that by simp
qed

text \<open>
  The state \<open>e\<close> comes from \<open>e0\<close> by giving frames to \<open>pid\<close>: a list of frame, page number and contents.
  Nothing else has changed but the state of the devices.
\<close>

type_synonym new_pages = "(nat \<times> u32 \<times> byte list) list"

definition same_rest :: "'d earth \<Rightarrow> 'd earth \<Rightarrow> bool" where
  "same_rest e0 e \<longleftrightarrow> e\<lparr>mem := mem e0, table := table e0, dev := dev e0\<rparr> = e0"

definition loaded :: "'d earth \<Rightarrow> int \<Rightarrow> new_pages \<Rightarrow> 'd earth \<Rightarrow> bool" where
  "loaded e0 pid L e \<longleftrightarrow> on_qemu e0 \<and> same_rest e0 e \<and> length (table e0) = 256 \<and> length (table e) = 256 \<and>
     distinct (map fst L) \<and>
     (\<forall>i<256. table e ! i = (case map_of L i of None \<Rightarrow> table e0 ! i
        | Some (pg, _) \<Rightarrow> \<lparr>fm_use = 1, fm_pid = pid, fm_page_no = pg\<rparr>)) \<and>
     (\<forall>(i, _, bs)\<in>set L. i < 256 \<and> fm_use (table e0 ! i) = 0 \<and> qemu_frame e i = bs) \<and>
     (\<forall>x. (\<forall>i\<in>fst ` set L. \<not> in_region (frame_addr i) 4096 x) \<longrightarrow> mem e x = mem e0 x)"

lemma same_rest_sel:
  assumes "same_rest e0 e"
  shows "platform e = platform e0" "translation e = translation e0" "curr_vm_pid e = curr_vm_pid e0"
    "disk_read e = disk_read e0" "disk_write e = disk_write e0" "timer_reset e = timer_reset e0"
    "tty_recv_intr e = tty_recv_intr e0"
proof -
  note eq = assms [unfolded same_rest_def]
  show "platform e = platform e0" "translation e = translation e0" "curr_vm_pid e = curr_vm_pid e0"
    "disk_read e = disk_read e0" "disk_write e = disk_write e0" "timer_reset e = timer_reset e0"
    "tty_recv_intr e = tty_recv_intr e0"
    using arg_cong [OF eq, of platform] arg_cong [OF eq, of translation] arg_cong [OF eq, of curr_vm_pid]
      arg_cong [OF eq, of disk_read] arg_cong [OF eq, of disk_write] arg_cong [OF eq, of timer_reset]
      arg_cong [OF eq, of tty_recv_intr] by simp_all
qed

lemma loaded_start: "on_qemu e \<Longrightarrow> length (table e) = 256 \<Longrightarrow> loaded e pid [] e"
  by (simp add: loaded_def same_rest_def)

lemma qemu_frame_upd [simp]: "qemu_frame (e\<lparr>dev := d\<rparr>) = qemu_frame e" "qemu_frame (e\<lparr>table := t\<rparr>) = qemu_frame e"
  by (simp_all add: qemu_frame_def fun_eq_iff)

lemma loaded_dev: "loaded e0 pid L e \<Longrightarrow> loaded e0 pid L (e\<lparr>dev := d\<rparr>)"
  by (simp add: loaded_def same_rest_def)

lemma loaded_on_qemu: "loaded e0 pid L e \<Longrightarrow> on_qemu e"
  using same_rest_sel(1) by (fastforce simp: loaded_def on_qemu_def)

text \<open>A new page.\<close>

lemma new_page_eq:
  assumes "on_qemu e" "find_unused 0 (table e) = Some i" "i < length (table e)" "length (table e) = 256" "pid < 32"
  shows "new_page pid pg e = Ret (frame_addr i, e\<lparr>table := (table e)[i := \<lparr>fm_use = 1, fm_pid = pid, fm_page_no = pg\<rparr>]\<rparr>)"
proof -
  have i: "unat (of_nat i :: u32) = i" using assms(3,4) by (simp add: unat_of_nat take_bit_nat_eq_self)
  have f: "(table e ! i)\<lparr>fm_use := 1, fm_pid := pid, fm_page_no := pg\<rparr> = \<lparr>fm_use = 1, fm_pid = pid, fm_page_no = pg\<rparr>"
    by simp
  show ?thesis
    using assms i by (cases "translation e")
      (simp_all add: f new_page_def mmu_alloc_def qemu_paging mmu_map_def page_table_map_def soft_tlb_map_def)
qed

lemma loaded_new_page:
  assumes l: "loaded e0 pid L e" and "0 < nfree e" "pid < 32"
  obtains i e' where "new_page pid pg e = Ret (frame_addr i, e')" "loaded e0 pid (L @ [(i, pg, qemu_frame e i)]) e'"
    "Suc (nfree e') = nfree e" "i < 256" "e' = e\<lparr>table := table e'\<rparr>"
proof -
  obtain i where i: "find_unused 0 (table e) = Some i" "i < length (table e)" "fm_use (table e ! i) = 0"
    by (rule nfree_find [OF assms(2)])
  have len: "length (table e) = 256" using l by (simp add: loaded_def)
  let ?e = "e\<lparr>table := (table e)[i := \<lparr>fm_use = 1, fm_pid = pid, fm_page_no = pg\<rparr>]\<rparr>"
  have new: "i \<notin> fst ` set L"
  proof
    assume "i \<in> fst ` set L"
    then obtain x where "map_of L i = Some x" by (metis domIff dom_map_of_conv_image_fst not_None_eq)
    then have "fm_use (table e ! i) = 1" using l i(2) len by (auto simp: loaded_def split: prod.splits)
    with i(3) show False by simp
  qed
  then have none: "map_of L i = None" by (simp add: map_of_eq_None_iff)
  then have u: "fm_use (table e0 ! i) = 0" using l i(2,3) len by (simp add: loaded_def)
  have t: "table ?e ! j = (case map_of (L @ [(i, pg, qemu_frame e i)]) j of None \<Rightarrow> table e0 ! j
        | Some (pg, _) \<Rightarrow> \<lparr>fm_use = 1, fm_pid = pid, fm_page_no = pg\<rparr>)" if "j < 256" for j
    using l that len none by (cases "j = i") (auto simp: loaded_def map_add_def split: option.splits)
  have "loaded e0 pid (L @ [(i, pg, qemu_frame e i)]) ?e"
    unfolding loaded_def
  proof (intro conjI)
    show "\<forall>j<256. table ?e ! j = (case map_of (L @ [(i, pg, qemu_frame e i)]) j of None \<Rightarrow> table e0 ! j
        | Some (pg, _) \<Rightarrow> \<lparr>fm_use = 1, fm_pid = pid, fm_page_no = pg\<rparr>)" using t by blast
  qed (use l i(2) len new u in \<open>auto simp: loaded_def same_rest_def\<close>)
  moreover have "Suc (nfree ?e) = nfree e" by (rule nfree_update [OF i(2,3)]) simp
  moreover have "i < 256" using i(2) len by simp
  ultimately show ?thesis using that new_page_eq [OF loaded_on_qemu [OF l] i(1,2) len assms(3), of pg] by simp
qed

text \<open>A store into the page that came last.\<close>

lemma frame_part:
  assumes "i < 256" "off + n \<le> 4096" "in_region (frame_addr i + of_nat off) n x"
  shows "in_region (frame_addr i) 4096 x"
proof -
  have "unat (frame_addr i + of_nat off) = unat (frame_addr i) + off"
    using assms(1,2) by (simp add: unat_word_ariths unat_frame_addr unat_of_nat take_bit_nat_eq_self)
  with assms show ?thesis by (subst (asm) in_region_nat, simp_all add: in_region_nat unat_frame_addr)
qed

lemma loaded_store:
  assumes l: "loaded e0 pid (L @ [(i, pg, bs)]) e" and w: "off + length ws \<le> 4096"
  shows "loaded e0 pid (L @ [(i, pg, splice_at off ws bs)])
    (e\<lparr>mem := mem_write (mem e) (frame_addr i + of_nat off) ws\<rparr>)"
proof -
  let ?m = "mem_write (mem e) (frame_addr i + of_nat off) ws"
  have i: "i < 256" "qemu_frame e i = bs" using l by (auto simp: loaded_def)
  have out: "?m x = mem e x" if "\<not> in_region (frame_addr i) 4096 x" for x
    by (rule mem_write_outside) (use frame_part [OF i(1) w] that in blast)
  have f: "qemu_frame (e\<lparr>mem := ?m\<rparr>) j = (if j = i then splice_at off ws bs else qemu_frame e j)" if "j < 256" for j
  proof (cases "j = i")
    case True
    then show ?thesis using i mem_read_write_part [OF w, of "mem e" "frame_addr i"]
      by (simp add: qemu_frame_def layout_defs)
  next
    case False
    have "mem_read ?m (frame_addr j) 4096 = mem_read (mem e) (frame_addr j) 4096"
      by (rule mem_read_cong) (use frames_disjoint [OF that i(1) False] out in \<open>auto simp: disjoint_regions_def\<close>)
    then show ?thesis using False by (simp add: qemu_frame_def layout_defs)
  qed
  have d: "distinct (map fst (L @ [(i, pg, bs)]))" using l by (simp add: loaded_def)
  then have mo: "map_of (L @ [(i, pg, splice_at off ws bs)]) j = (case map_of (L @ [(i, pg, bs)]) j of None \<Rightarrow> None
      | Some (p, b) \<Rightarrow> Some (p, if j = i then splice_at off ws bs else b))" for j
    by (auto simp: map_add_def map_of_eq_None_iff split: option.splits dest: map_of_SomeD)
       (metis image_iff fst_conv map_of_SomeD)+
  have "table e ! j = (case map_of (L @ [(i, pg, splice_at off ws bs)]) j of None \<Rightarrow> table e0 ! j
        | Some (pg, _) \<Rightarrow> \<lparr>fm_use = 1, fm_pid = pid, fm_page_no = pg\<rparr>)" if "j < 256" for j
    using l that unfolding mo loaded_def by (auto split: option.splits)
  moreover have "\<forall>(j, _, b)\<in>set (L @ [(i, pg, splice_at off ws bs)]).
      j < 256 \<and> fm_use (table e0 ! j) = 0 \<and> qemu_frame (e\<lparr>mem := ?m\<rparr>) j = b"
  proof clarify
    fix j p b assume j: "(j, p, b) \<in> set (L @ [(i, pg, splice_at off ws bs)])"
    show "j < 256 \<and> fm_use (table e0 ! j) = 0 \<and> qemu_frame (e\<lparr>mem := ?m\<rparr>) j = b"
    proof (cases "(j, p, b) \<in> set L")
      case True
      then have "j \<noteq> i" using d by (auto simp: image_iff)
      moreover have "j < 256 \<and> fm_use (table e0 ! j) = 0 \<and> qemu_frame e j = b" using l True by (auto simp: loaded_def)
      ultimately show ?thesis using f by simp
    qed (use l f j in \<open>auto simp: loaded_def\<close>)
  qed
  ultimately show ?thesis using l out d unfolding loaded_def by (auto simp: same_rest_def)
qed

section \<open>Readers\<close>

text \<open>
  A reader for a file given by its blocks: it returns the block and changes nothing but the state of
  the devices. The file has \<open>N\<close> blocks, and \<open>J\<close> is what the reader needs of the earth layer.
\<close>

definition reads_file :: "'d kernel peers \<Rightarrow> ('d earth \<Rightarrow> bool) \<Rightarrow> 'd elf_reader \<Rightarrow> (u32 \<Rightarrow> block) \<Rightarrow> nat \<Rightarrow> bool" where
  "reads_file srv J reader bf N \<longleftrightarrow>
     (\<forall>b old k. unat b < N \<longrightarrow> length old = 512 \<longrightarrow> J (k_earth k) \<longrightarrow> owp (run srv (reader b old) (None, k)) (\<lambda>(blk, p, k').
        blk = bf b \<and> p = None \<and> (\<exists>d. J ((k_earth k)\<lparr>dev := d\<rparr>) \<and> k' = k\<lparr>k_earth := (k_earth k)\<lparr>dev := d\<rparr>\<rparr>))) \<and>
     (\<forall>b. length (bf b) = 512) \<and> (\<forall>e m t. J e \<longrightarrow> J (e\<lparr>mem := m\<rparr>) \<and> J (e\<lparr>table := t\<rparr>))"

lemma run_earth_do: "run srv (earth_do f) (p, k) = obind (f (k_earth k)) (\<lambda>(x, e). Ret (x, (p, k\<lparr>k_earth := e\<rparr>)))"
  by (cases "f (k_earth k)") (auto simp: earth_do_def run_act split: prod.split)

lemma run_mem_do: "run srv (mem_do f) (p, k) = Ret ((), (p, k\<lparr>k_earth := (k_earth k)\<lparr>mem := f (mem (k_earth k))\<rparr>\<rparr>))"
  by (simp add: mem_do_def run_earth_do)

lemma k_earth_twice [simp]: "k\<lparr>k_earth := e, k_earth := e'\<rparr> = k\<lparr>k_earth := e'\<rparr>"
  by simp

lemma read_to_ok:
  assumes "reads_file srv J reader bf N" "J (k_earth k)" "unat b < N"
  shows "owp (run srv (read_to reader b dst) (None, k)) (\<lambda>(_, p, k'). p = None \<and>
    (\<exists>d. J ((k_earth k)\<lparr>dev := d\<rparr>) \<and>
       k' = k\<lparr>k_earth := (k_earth k)\<lparr>dev := d, mem := mem_write (mem (k_earth k)) dst (bf b)\<rparr>\<rparr>))"
proof -
  have "owp (run srv (reader b (mem_read (mem (k_earth k)) dst 512)) (None, k)) (\<lambda>(blk, p, k').
        blk = bf b \<and> p = None \<and> (\<exists>d. J ((k_earth k)\<lparr>dev := d\<rparr>) \<and> k' = k\<lparr>k_earth := (k_earth k)\<lparr>dev := d\<rparr>\<rparr>))"
    using assms by (simp add: reads_file_def)
  then obtain d where d: "run srv (reader b (mem_read (mem (k_earth k)) dst 512)) (None, k) =
      Ret (bf b, (None, k\<lparr>k_earth := (k_earth k)\<lparr>dev := d\<rparr>\<rparr>))" "J ((k_earth k)\<lparr>dev := d\<rparr>)"
    by (auto simp: owp_iff)
  show ?thesis unfolding read_to_def
    by (simp add: run_ibind run_earth_do run_mem_do d) (use d(2) in blast)
qed

section \<open>The code and data pages\<close>

text \<open>The byte at position \<open>p\<close> of the segment that begins in block \<open>b0\<close> of the file.\<close>

definition segment_byte :: "(u32 \<Rightarrow> block) \<Rightarrow> u32 \<Rightarrow> nat \<Rightarrow> byte" where
  "segment_byte bf b0 p = bf (b0 + of_nat (p div 512)) ! (p mod 512)"

text \<open>The pages hold the segment up to position \<open>n\<close>.\<close>

definition pages_upto :: "u32 \<Rightarrow> (nat \<Rightarrow> byte) \<Rightarrow> nat \<Rightarrow> new_pages \<Rightarrow> bool" where
  "pages_upto code fb n L \<longleftrightarrow> length L = (n + 4095) div 4096 \<and>
     (\<forall>j<length L. fst (snd (L ! j)) = code + of_nat j \<and> length (snd (snd (L ! j))) = 4096 \<and>
        (\<forall>q<4096. 4096 * j + q < n \<longrightarrow> snd (snd (L ! j)) ! q = fb (4096 * j + q)))"

lemma pages_upto_block:
  assumes p: "pages_upto code (segment_byte bf b0) off L" and off: "off mod 512 = 0"
    and L: "if off mod 4096 = 0 then L1 = L @ [(i, code + of_nat (length L), bs)] \<and> length bs = 4096 else L1 = L"
    and L1: "L1 = Lp @ [(i, pg, bs)]" and blk: "length (bf (b0 + of_nat (off div 512))) = 512"
  shows "pages_upto code (segment_byte bf b0) (off + 512) (Lp @ [(i, pg, splice_at (off mod 4096) (bf (b0 + of_nat (off div 512))) bs)])"
proof -
  let ?b = "bf (b0 + of_nat (off div 512))"
  define w m where "w = off mod 4096" and "m = off div 4096"
  have om: "off = 4096 * m + w" "w < 4096" by (simp_all add: w_def m_def)
  have "w mod 512 = 0" using off mod_mod_cancel [of 512 4096 off] by (simp add: w_def)
  then obtain c where "w = 512 * c" by auto
  then have w: "w + 512 \<le> 4096" using om(2) by simp
  have len: "length L = (if w = 0 then m else Suc m)"
  proof -
    have "(off + 4095) div 4096 = (if w = 0 then m else Suc m)"
      unfolding om(1) using om(2) by (intro div_nat_eqI) auto
    with p show ?thesis by (simp add: pages_upto_def)
  qed
  have Lp: "length Lp = m" using L L1 len unfolding w_def [symmetric] by (auto split: if_splits)
  have bs: "length bs = 4096 \<and> pg = code + of_nat m \<and>
      (\<forall>q<4096. 4096 * m + q < off \<longrightarrow> bs ! q = segment_byte bf b0 (4096 * m + q))"
  proof (cases "w = 0")
    case True
    then show ?thesis using L L1 len om(1) unfolding w_def [symmetric] by auto
  next
    case False
    then have "L = Lp @ [(i, pg, bs)]" using L L1 by (simp add: w_def)
    then have "L ! m = (i, pg, bs)" "m < length L" by (simp_all add: Lp [symmetric])
    then show ?thesis using p unfolding pages_upto_def by (metis fst_conv snd_conv)
  qed
  have new: "splice_at w ?b bs ! q = segment_byte bf b0 (4096 * m + q)"
    if q: "q < 4096" "4096 * m + q < off + 512" for q
  proof (cases "w \<le> q")
    case True
    define r where "r = q - w"
    have r: "4096 * m + q = off + r" "r < 512" "q < w + 512" using True q om(1) by (simp_all add: r_def)
    have "512 dvd off" using off by auto
    then have "(off + r) div 512 = off div 512" "(off + r) mod 512 = r" using r(2) off by (auto simp: div_plus_div_distrib_dvd_left mod_add_eq [symmetric])
    then show ?thesis using True bs w blk q r by (simp add: nth_splice_at segment_byte_def r_def [symmetric])
  next
    case False
    then have "4096 * m + q < off" using om(1) by simp
    then show ?thesis using False bs w blk q by (auto simp: nth_splice_at)
  qed
  have old: "fst (snd (Lp ! j)) = code + of_nat j \<and> length (snd (snd (Lp ! j))) = 4096 \<and>
        (\<forall>q<4096. snd (snd (Lp ! j)) ! q = segment_byte bf b0 (4096 * j + q))" if "j < m" for j
  proof -
    have "L ! j = Lp ! j" "j < length L" using L L1 that Lp by (auto simp: nth_append split: if_splits)
    moreover have "4096 * j + q < off" if "q < 4096" for q
      using that \<open>j < m\<close> om(1) by linarith
    ultimately show ?thesis using p by (auto simp: pages_upto_def)
  qed
  have "(off + 512 + 4095) div 4096 = Suc m" using w om by (intro div_nat_eqI) simp_all
  then show ?thesis unfolding pages_upto_def w_def [symmetric] using old new bs w blk Lp by (auto simp: nth_append less_Suc_eq)
qed

lemma pages_upto_round:
  assumes "pages_upto code fb off L" "filesz \<le> off" "off < filesz + 512" "off mod 512 = 0"
  shows "pages_upto code fb filesz L"
proof -
  define a where "a = off div 512"
  have a: "off = 512 * a" using assms(4) by (auto simp: a_def)
  define q where "q = (filesz + 4095) div 4096"
  have q: "filesz + 4095 = 4096 * q + (filesz + 4095) mod 4096" "(filesz + 4095) mod 4096 < 4096" by (simp_all add: q_def)
  then have "512 * a < 4096 * q + 512" using assms(3) a by linarith
  then have "off \<le> 4096 * q" using a by simp
  then have "(off + 4095) div 4096 = q" using q assms(2) by (intro div_nat_eqI) simp_all
  then have "(filesz + 4095) div 4096 = (off + 4095) div 4096" by (simp add: q_def)
  then show ?thesis using assms(1,2) by (simp add: pages_upto_def)
qed

text \<open>One step of the loop, from the page it writes to.\<close>

lemma app_block_step:
  assumes r: "reads_file srv J reader bf N" and l: "loaded e0 pid (Lp @ [(i, pg, bs)]) (k_earth k)" "J (k_earth k)"
    and o: "n + 512 \<le> 4096" and b: "unat b < N"
  shows "owp (run srv (read_to reader b (frame_addr i + of_nat n)) (None, k)) (\<lambda>(_, p, k'). p = None \<and>
    (\<exists>e. k' = k\<lparr>k_earth := e\<rparr> \<and> loaded e0 pid (Lp @ [(i, pg, splice_at n (bf b) bs)]) e \<and> J e \<and> table e = table (k_earth k)))"
proof -
  have bf: "length (bf b) = 512" and J: "J e \<Longrightarrow> J (e\<lparr>mem := m\<rparr>)" for e m using r by (simp_all add: reads_file_def)
  let ?m = "mem_write (mem (k_earth k)) (frame_addr i + of_nat n) (bf b)"
  have "loaded e0 pid (Lp @ [(i, pg, splice_at n (bf b) bs)]) ((k_earth k)\<lparr>dev := d, mem := ?m\<rparr>)" for d
    using loaded_store [OF loaded_dev [OF l(1), of d], of n "bf b"] o bf by simp
  moreover have "J ((k_earth k)\<lparr>dev := d, mem := ?m\<rparr>)" if "J ((k_earth k)\<lparr>dev := d\<rparr>)" for d using J [OF that] .
  ultimately show ?thesis by (intro owp_mono [OF read_to_ok [OF r l(2) b, of "frame_addr i + of_nat n"]]) fastforce
qed

text \<open>The page for the step: a new one at a multiple of the page size, the last one otherwise.\<close>

lemma app_page:
  assumes r: "reads_file srv J reader bf N" and pid: "pid < 32"
    and l: "loaded e0 pid L (k_earth k)" "J (k_earth k)" "(filesz + 4095) div 4096 \<le> nfree (k_earth k) + length L"
    and off: "off < filesz" and p: "pages_upto code fb off L" and cs: "cs = code + of_nat (length L)"
    and base: "L \<noteq> [] \<Longrightarrow> base = frame_addr (fst (last L))"
  shows "\<exists>L1 Lp i pg bs e1. run srv (if off mod PAGE_SIZE = 0 then earth_do (new_page pid cs) else Done base) (None, k) =
        Ret (frame_addr i, (None, k\<lparr>k_earth := e1\<rparr>)) \<and> loaded e0 pid L1 e1 \<and> J e1 \<and>
        nfree e1 + length L1 = nfree (k_earth k) + length L \<and> L1 = Lp @ [(i, pg, bs)] \<and>
        (if off mod 4096 = 0 then L1 = L @ [(i, code + of_nat (length L), bs)] \<and> length bs = 4096 else L1 = L)"
proof (cases "off mod 4096 = 0")
  case True
  then obtain m where m: "off = 4096 * m" by auto
  then have "length L = m" using p by (simp add: pages_upto_def)
  moreover have "(4096 * m + 1 + 4095) div 4096 \<le> (filesz + 4095) div 4096" using off m by (intro div_le_mono) simp
  ultimately have "0 < nfree (k_earth k)" using l(3) by simp
  then obtain i e1 where "new_page pid cs (k_earth k) = Ret (frame_addr i, e1)"
    "loaded e0 pid (L @ [(i, cs, qemu_frame (k_earth k) i)]) e1" "Suc (nfree e1) = nfree (k_earth k)" "i < 256"
    "e1 = (k_earth k)\<lparr>table := table e1\<rparr>"
    by (rule loaded_new_page [OF l(1) _ pid])
  moreover from this(5) r l(2) have "J e1" by (metis reads_file_def)
  ultimately show ?thesis using True cs
    by (intro exI [of _ "L @ [(i, cs, qemu_frame (k_earth k) i)]"] exI [of _ L] exI [of _ i] exI [of _ cs]
        exI [of _ "qemu_frame (k_earth k) i"] exI [of _ e1])
      (simp add: run_earth_do PAGE_SIZE_def qemu_frame_def NFRAMES_def)
next
  case False
  then have "0 < off" by (cases off) auto
  then have "1 \<le> (off + 4095) div 4096" by simp
  then have "L \<noteq> []" using p by (auto simp: pages_upto_def)
  then obtain Lp i pg bs where "L = Lp @ [(i, pg, bs)]" by (metis append_butlast_last_id surj_pair)
  with False l base show ?thesis
    by (intro exI [of _ L] exI [of _ Lp] exI [of _ i] exI [of _ pg] exI [of _ bs] exI [of _ "k_earth k"])
      (simp add: PAGE_SIZE_def)
qed

lemma app_blocks_ok:
  assumes r: "reads_file srv J reader bf N" and pid: "pid < 32"
    and l: "loaded e0 pid L (k_earth k)" "J (k_earth k)" "(filesz + 4095) div 4096 \<le> nfree (k_earth k) + length L"
    and off: "off mod 512 = 0" "off < filesz + 512" and p: "pages_upto code (segment_byte bf b0) off L"
    and b: "b = b0 + of_nat (off div 512)" "cs = code + of_nat (length L)"
    and base: "L \<noteq> [] \<Longrightarrow> base = frame_addr (fst (last L))"
    and N: "\<And>p. p < filesz \<Longrightarrow> unat (b0 + of_nat (p div 512)) < N"
  shows "owp (run srv (app_blocks pid reader filesz b cs base off) (None, k)) (\<lambda>((base', cs'), p', k'). p' = None \<and>
    (\<exists>L' e'. k' = k\<lparr>k_earth := e'\<rparr> \<and> loaded e0 pid L' e' \<and> J e' \<and>
       nfree e' + length L' = nfree (k_earth k) + length L \<and>
       pages_upto code (segment_byte bf b0) filesz L' \<and> cs' = code + of_nat (length L') \<and>
       (L' \<noteq> [] \<longrightarrow> base' = frame_addr (fst (last L')))))"
  using l off p b base
proof (induction "filesz - off" arbitrary: off L k b cs base rule: less_induct)
  case less
  show ?case
  proof (cases "off < filesz")
    case False
    then have "pages_upto code (segment_byte bf b0) filesz L"
      using pages_upto_round [OF less.prems(6) _ less.prems(5,4)] by simp
    then show ?thesis using False less.prems by (subst app_blocks.simps) (auto intro!: exI [of _ L] exI [of _ "k_earth k"])
  next
    case True
    define a where "a = off div 512"
    have a: "off = 512 * a" using less.prems(4) by (auto simp: a_def)
    have w: "off mod 4096 + 512 \<le> 4096" using mod_mult_mult1 [of 512 a 8] by (simp add: a)
    let ?pg = "off mod PAGE_SIZE = 0"
    let ?cs = "if ?pg then cs + 1 else cs"
    have "\<exists>L1 Lp i pg bs e1. run srv (if ?pg then earth_do (new_page pid cs) else Done base) (None, k) =
        Ret (frame_addr i, (None, k\<lparr>k_earth := e1\<rparr>)) \<and> loaded e0 pid L1 e1 \<and> J e1 \<and>
        nfree e1 + length L1 = nfree (k_earth k) + length L \<and> L1 = Lp @ [(i, pg, bs)] \<and>
        (if off mod 4096 = 0 then L1 = L @ [(i, code + of_nat (length L), bs)] \<and> length bs = 4096 else L1 = L)"
      by (rule app_page [OF r pid less.prems(1-3) True less.prems(6,8,9)])
    then obtain L1 Lp i pg bs e1 where
      s1: "run srv (if ?pg then earth_do (new_page pid cs) else Done base) (None, k) = Ret (frame_addr i, (None, k\<lparr>k_earth := e1\<rparr>))"
      "loaded e0 pid L1 e1" "J e1" "nfree e1 + length L1 = nfree (k_earth k) + length L" "L1 = Lp @ [(i, pg, bs)]"
      "if off mod 4096 = 0 then L1 = L @ [(i, code + of_nat (length L), bs)] \<and> length bs = 4096 else L1 = L" by blast
    let ?L2 = "Lp @ [(i, pg, splice_at (off mod 4096) (bf b) bs)]"
    have p2: "pages_upto code (segment_byte bf b0) (off + 512) ?L2"
      unfolding less.prems(7) by (rule pages_upto_block [OF less.prems(6,4) s1(6,5)]) (use r in \<open>simp add: reads_file_def\<close>)
    have "owp (run srv (read_to reader b (frame_addr i + of_nat (off mod 4096))) (None, k\<lparr>k_earth := e1\<rparr>)) (\<lambda>(_, p, k'). p = None \<and>
      (\<exists>e. k' = k\<lparr>k_earth := e1, k_earth := e\<rparr> \<and> loaded e0 pid ?L2 e \<and> J e \<and> table e = table (k_earth (k\<lparr>k_earth := e1\<rparr>))))"
      by (rule app_block_step [OF r _ _ w]) (use s1(2,3,5) N [OF True] less.prems(7) in simp_all)
    then obtain e2 where s2: "run srv (read_to reader b (frame_addr i + of_nat (off mod 4096))) (None, k\<lparr>k_earth := e1\<rparr>) =
        Ret ((), (None, k\<lparr>k_earth := e2\<rparr>))" "loaded e0 pid ?L2 e2" "J e2" "table e2 = table e1"
      by (auto simp: owp_iff)
    have n2: "nfree e2 + length ?L2 = nfree (k_earth k) + length L" using s1(4,5) s2(4) by (simp add: nfree_def)
    have cs: "?cs = code + of_nat (length ?L2)"
      using s1(5,6) less.prems(8) by (auto simp: PAGE_SIZE_def split: if_splits)
    have "run srv (app_blocks pid reader filesz b cs base off) (None, k) =
        run srv (app_blocks pid reader filesz (b + 1) ?cs (frame_addr i) (off + 512)) (None, k\<lparr>k_earth := e2\<rparr>)"
      using True s1(1) s2(1) by (subst app_blocks.simps) (simp add: run_ibind PAGE_SIZE_def BLOCK_SIZE_def)
    moreover have "owp (run srv (app_blocks pid reader filesz (b + 1) ?cs (frame_addr i) (off + 512)) (None, k\<lparr>k_earth := e2\<rparr>))
      (\<lambda>((base', cs'), p', k'). p' = None \<and> (\<exists>L' e'. k' = k\<lparr>k_earth := e2, k_earth := e'\<rparr> \<and> loaded e0 pid L' e' \<and> J e' \<and>
       nfree e' + length L' = nfree (k_earth (k\<lparr>k_earth := e2\<rparr>)) + length ?L2 \<and>
       pages_upto code (segment_byte bf b0) filesz L' \<and> cs' = code + of_nat (length L') \<and>
       (L' \<noteq> [] \<longrightarrow> base' = frame_addr (fst (last L')))))"
      by (rule less.hyps [OF _ _ _ _ _ _ p2])
        (use True s2 n2 cs less.prems(3,4,7) a in \<open>simp_all add: add.assoc\<close>)
    ultimately show ?thesis using n2 by simp
  qed
qed

end
