(* ===== verification/Page_Table_Correct.thy ===== *)
theory Page_Table_Correct
  imports Page_Table Elf_Correct
begin

text \<open>
  The page tables that pagetable_identity_mapping builds, as tables of words in the frames.
\<close>

section \<open>Tables of words\<close>

definition entry :: "mem \<Rightarrow> nat \<Rightarrow> nat \<Rightarrow> u32" where
  "entry m f j = load32 m (frame_addr f + 4 * of_nat j)"

lemma unat_entry_addr:
  assumes "f < 256" "j < 1024"
  shows "unat (frame_addr f + 4 * of_nat j) = 0x80004000 + 4096 * f + 4 * j"
proof -
  have j: "unat (4 * of_nat j :: u32) = 4 * j" using assms(2) by (simp add: unat_word_ariths unat_of_nat take_bit_nat_eq_self)
  have "unat (frame_addr f) + unat (4 * of_nat j :: u32) < 2 ^ 32" unfolding j unat_frame_addr [OF assms(1)] using assms by simp
  then show ?thesis using unat_add_lem [of "frame_addr f" "4 * of_nat j"] j unat_frame_addr [OF assms(1)] by simp
qed

lemma entry_store:
  assumes "f < 256" "g < 256" "i < 1024" "j < 1024"
  shows "entry (store32 m (frame_addr f + 4 * of_nat i) v) g j = (if g = f \<and> j = i then v else entry m g j)"
proof (cases "g = f \<and> j = i")
  case False
  have "disjoint_regions (frame_addr g + 4 * of_nat j) 4 (frame_addr f + 4 * of_nat i) 4"
  proof (rule disjoint_regionsI)
    show "unat (frame_addr g + 4 * of_nat j) + 4 \<le> unat (frame_addr f + 4 * of_nat i) \<or>
      unat (frame_addr f + 4 * of_nat i) + 4 \<le> unat (frame_addr g + 4 * of_nat j)"
      unfolding unat_entry_addr [OF assms(1,3)] unat_entry_addr [OF assms(2,4)]
      using False assms by (cases "g = f"; cases "g < f"; cases "j < i") auto
  qed (use assms unat_entry_addr in simp_all)
  then show ?thesis using False by (auto simp: entry_def load32_store32_disjoint)
qed (simp add: entry_def)

lemma entry_memset:
  assumes "f < 256" "g < 256" "j < 1024"
  shows "entry (memset m (frame_addr f) 0 PAGE_SIZE) g j = (if g = f then 0 else entry m g j)"
proof (cases "g = f")
  case True
  have *: "x < 4 \<Longrightarrow> memset m (frame_addr f) 0 PAGE_SIZE (frame_addr f + 4 * of_nat j + of_nat x) = 0" for x :: nat
  proof -
    assume x: "x < 4"
    have "4 * j + x < 4096" using x assms(3) by linarith
    then have "unat (of_nat (4 * j + x) :: u32) < 4096" by (simp only: unat_of_nat take_bit_nat_eq_self_iff) simp
    moreover have "frame_addr f + 4 * of_nat j + of_nat x - frame_addr f = of_nat (4 * j + x)" by simp
    ultimately show ?thesis by (simp add: memset_def mem_write_def PAGE_SIZE_def)
  qed
  show ?thesis using *[of 0] *[of 1] *[of 2] *[of 3] True by (simp add: entry_def load32_def word32_of_def)
next
  case False
  have "disjoint_regions (frame_addr g + 4 * of_nat j) 4 (frame_addr f) (length (replicate 4096 (0 :: byte)))"
  proof (rule disjoint_regionsI)
    show "unat (frame_addr g + 4 * of_nat j) + 4 \<le> unat (frame_addr f) \<or>
      unat (frame_addr f) + length (replicate 4096 (0 :: byte)) \<le> unat (frame_addr g + 4 * of_nat j)"
      unfolding unat_entry_addr [OF assms(2,3)] unat_frame_addr [OF assms(1)] length_replicate
      using False assms by (cases "g < f") auto
  qed (use assms unat_entry_addr unat_frame_addr in simp_all)
  then show ?thesis using False by (simp add: entry_def memset_def PAGE_SIZE_def load32_write_disjoint)
qed

section \<open>Entries\<close>

text \<open>The entry for page \<open>k\<close> with flags \<open>fl\<close>.\<close>

definition pte :: "nat \<Rightarrow> u32 \<Rightarrow> u32" where
  "pte k fl = drop_bit 2 (of_nat (k * 4096)) OR fl"

lemma pte_fields:
  assumes "k < 2 ^ 20" "fl AND 0xF = fl"
  shows "pte k fl AND 1 = fl AND 1" "pte k fl AND 0xE = fl AND 0xE" "pte k fl AND 0xF = fl" "unat (drop_bit 10 (pte k fl)) = k"
    "push_bit 2 (pte k fl) AND 0xFFFFF000 = of_nat (k * 4096)"
proof -
  define w :: u32 where "w = of_nat k"
  have w: "\<not> bit w n" if "20 \<le> n" for n
  proof -
    have "k < 2 ^ n" using assms(1) power_increasing [OF that, of "2 :: nat"] by linarith
    then have "\<not> bit k n" by (simp add: bit_iff_odd)
    moreover have "unat w = k" using assms(1) by (simp add: w_def unat_of_nat take_bit_nat_eq_self)
    moreover have "bit (unat w) n \<longleftrightarrow> bit w n" by (simp add: bit_unsigned_iff)
    ultimately show ?thesis by simp
  qed
  have fl: "\<not> bit fl n" if "4 \<le> n" for n
  proof -
    have "fl = take_bit 4 fl" using assms(2) by (simp add: take_bit_eq_mask mask_eq_exp_minus_1)
    then have "bit fl n = bit (take_bit 4 fl) n" by simp
    then show ?thesis using that by (simp add: bit_simps)
  qed
  have wd: "bit w n \<Longrightarrow> n < 20" and fd: "bit fl n \<Longrightarrow> n < 4" for n using w [of n] fl [of n] by linarith+
  have e: "of_nat (k * 4096) = push_bit 12 w" by (simp add: w_def push_bit_eq_mult)
  have p: "pte k fl = push_bit 10 w OR fl" unfolding pte_def e by (rule bit_word_eqI) (fastforce simp: bit_simps dest: wd fd)
  have c: "(1 :: u32) = mask 1" "(0xF :: u32) = mask 4" "(0xE :: u32) = mask 4 AND NOT (mask 1)" "(0xFFFFF000 :: u32) = push_bit 12 (mask 20)"
    by (simp_all add: mask_eq_exp_minus_1)
  show "pte k fl AND 1 = fl AND 1" unfolding p c by (rule bit_word_eqI) (auto simp: bit_simps)
  show "pte k fl AND 0xE = fl AND 0xE" unfolding p c by (rule bit_word_eqI) (auto simp: bit_simps)
  show "pte k fl AND 0xF = fl" unfolding p c by (rule bit_word_eqI) (fastforce simp: bit_simps dest: wd fd)
  have "drop_bit 10 (pte k fl) = w" unfolding p by (rule bit_word_eqI) (fastforce simp: bit_simps dest: wd fd)
  then show "unat (drop_bit 10 (pte k fl)) = k" using assms(1) by (simp add: w_def unat_of_nat take_bit_nat_eq_self)
  show "push_bit 2 (pte k fl) AND 0xFFFFF000 = of_nat (k * 4096)" unfolding p e c
    by (rule bit_word_eqI) (fastforce simp: bit_simps dest: wd fd)
qed

lemma frame_addr_page: "frame_addr f = of_nat ((0x80004 + f) * 4096)"
  by (simp add: frame_addr_def pages_start_def layout_defs)

lemma table_pte: "drop_bit 2 (frame_addr f) OR 1 = pte (0x80004 + f) 1"
  by (simp add: pte_def frame_addr_page)

section \<open>The tables so far\<close>

text \<open>
  The root table is in frame \<open>rf\<close>, the table for 4MB region \<open>v\<close> in frame \<open>L v\<close>, and the pages in \<open>M\<close>
  are mapped to themselves.
\<close>

definition pt_inv :: "'d earth \<Rightarrow> nat \<Rightarrow> (nat \<rightharpoonup> nat) \<Rightarrow> nat set \<Rightarrow> bool" where
  "pt_inv e rf L M \<longleftrightarrow> on_qemu e \<and> length (table e) = 256 \<and> used e rf \<and>
     (\<forall>v f. L v = Some f \<longrightarrow> used e f \<and> f \<noteq> rf) \<and> (\<forall>v w f. L v = Some f \<longrightarrow> L w = Some f \<longrightarrow> v = w) \<and>
     (\<forall>v<1024. entry (mem e) rf v = (case L v of None \<Rightarrow> 0 | Some f \<Rightarrow> pte (0x80004 + f) 1)) \<and>
     (\<forall>v f j. L v = Some f \<longrightarrow> j < 1024 \<longrightarrow> entry (mem e) f j = (if v * 1024 + j \<in> M then pte (v * 1024 + j) 0xF else 0)) \<and>
     (\<forall>pg\<in>M. L (pg div 1024) \<noteq> None)"

lemma alloc_table_ok:
  assumes "on_qemu e" "length (table e) = 256" "0 < nfree e"
  obtains i e' where "alloc_table pid e = Ret (frame_addr i, e')" "i < 256" "\<not> used e i" "used e' i" "\<forall>j. used e j \<longrightarrow> used e' j"
    "mem e' = memset (mem e) (frame_addr i) 0 PAGE_SIZE" "nfree e = Suc (nfree e')" "platform e' = platform e \<and> translation e' = translation e" "length (table e') = 256"
proof -
  obtain i where i: "find_unused 0 (table e) = Some i" "i < length (table e)" "fm_use (table e ! i) = 0"
    by (rule nfree_find [OF assms(3)])
  let ?f = "(table e ! i)\<lparr>fm_use := 1, fm_pid := pid\<rparr>"
  let ?e = "e\<lparr>table := (table e)[i := ?f], mem := memset (mem e) (frame_addr i) 0 PAGE_SIZE\<rparr>"
  have u: "unat (of_nat i :: u32) = i" using i(2) assms(2) by (simp add: unat_of_nat take_bit_nat_eq_self)
  have "alloc_table pid e = Ret (frame_addr i, ?e)"
    using i assms(1,2) u by (simp add: alloc_table_def mmu_alloc_def paging_read_def on_qemu_def set_frame_pid_def frame_addr_def)
  moreover have "Suc (nfree (e\<lparr>table := (table e)[i := ?f]\<rparr>)) = nfree e" by (rule nfree_update [OF i(2,3)]) simp
  then have "nfree e = Suc (nfree ?e)" by (simp add: nfree_def)
  ultimately show thesis using i assms(2) by (intro that [of i ?e]) (auto simp: nth_list_update)
qed

lemma region_leaf_ok:
  assumes inv: "pt_inv e rf L M" and s: "pt_root s = frame_addr rf" and v: "v < 1024" and n: "0 < nfree e"
  shows "owp (region_leaf pid (of_nat v) (e, s)) (\<lambda>(e', s'). \<exists>f L'. L' v = Some f \<and> pt_inv e' rf L' M \<and>
    pt_leaf s' = frame_addr f \<and> pt_root s' = frame_addr rf \<and> nfree e \<le> nfree e' + 1 \<and> platform e' = platform e \<and> translation e' = translation e)"
proof (cases "L v")
  case (Some f)
  then have f: "f < 256" "entry (mem e) rf v = pte (0x80004 + f) 1" using inv v by (auto simp: pt_inv_def)
  have p: "pte (0x80004 + f) 1 AND 1 \<noteq> 0" "push_bit 2 (pte (0x80004 + f) 1) AND 0xFFFFF000 = frame_addr f"
    using pte_fields [of "0x80004 + f" 1] f(1) by (simp_all add: frame_addr_page)
  show ?thesis using Some inv s f(2) p by (simp add: region_leaf_def Let_def entry_def) blast
next
  case None
  have r: "rf < 256" "entry (mem e) rf v = 0" "on_qemu e" "length (table e) = 256" using inv v None by (auto simp: pt_inv_def)
  obtain i e1 where a: "alloc_table pid e = Ret (frame_addr i, e1)" "i < 256" "\<not> used e i" "used e1 i" "\<forall>j. used e j \<longrightarrow> used e1 j"
    "mem e1 = memset (mem e) (frame_addr i) 0 PAGE_SIZE" "nfree e = Suc (nfree e1)" "platform e1 = platform e \<and> translation e1 = translation e" "length (table e1) = 256"
    by (rule alloc_table_ok [OF r(3,4) n, where pid = pid])
  let ?e = "e1\<lparr>mem := store32 (mem e1) (frame_addr rf + 4 * of_nat v) (pte (0x80004 + i) 1)\<rparr>" and ?L = "L(v \<mapsto> i)"
  have ne: "i \<noteq> rf" using inv a(3) by (auto simp: pt_inv_def)
  have ent: "entry (mem ?e) g j = (if g = rf \<and> j = v then pte (0x80004 + i) 1 else if g = i then 0 else entry (mem e) g j)"
    if "g < 256" "j < 1024" for g j
    using that r(1) v a(2) ne by (simp add: entry_store entry_memset a(6))
  have old: "used e f \<and> f \<noteq> rf \<and> f \<noteq> i" if "L w = Some f" for w f using inv that a(3) by (auto simp: pt_inv_def)
  have "used ?e f \<and> f \<noteq> rf" if "?L w = Some f" for w f using that old a(4,5) ne by (auto split: if_splits)
  moreover have "w = w'" if "?L w = Some f" "?L w' = Some f" for w w' f
    using that old [of w f] old [of w' f] inv by (auto simp: pt_inv_def split: if_splits)
  moreover have "entry (mem ?e) rf w = (case ?L w of None \<Rightarrow> 0 | Some f \<Rightarrow> pte (0x80004 + f) 1)" if "w < 1024" for w
    using ent [OF r(1) that] inv ne that by (simp add: pt_inv_def)
  moreover have "entry (mem ?e) f j = (if w * 1024 + j \<in> M then pte (w * 1024 + j) 0xF else 0)" if "?L w = Some f" "j < 1024" for w f j
  proof (cases "w = v")
    case True
    have "(v * 1024 + j) div 1024 = v" using that(2) by simp
    then have "v * 1024 + j \<notin> M" using inv None by (auto simp: pt_inv_def)
    then show ?thesis using that True ent [OF a(2) that(2)] ne by simp
  next
    case False
    then have "L w = Some f" using that(1) by simp
    then show ?thesis using ent [of f j] that(2) old inv by (simp add: pt_inv_def)
  qed
  moreover have "?L (pg div 1024) \<noteq> None" if "pg \<in> M" for pg using inv that by (auto simp: pt_inv_def)
  moreover have "on_qemu ?e" "length (table ?e) = 256" "used ?e rf" using r(3) a(5,8,9) inv by (simp_all add: on_qemu_def pt_inv_def)
  ultimately have "pt_inv ?e rf ?L M" unfolding pt_inv_def by blast
  moreover have "region_leaf pid (of_nat v) (e, s) = Ret (?e, s\<lparr>pt_leaf := frame_addr i\<rparr>)"
    using r(2) s a(1) by (simp add: region_leaf_def Let_def entry_def table_pte)
  ultimately show ?thesis using a(7,8) s by (auto simp: nfree_def intro!: exI [of _ i] exI [of _ ?L])
qed

lemma entry_fill:
  assumes "f < 256" "g < 256" "j < 1024" "v0 + n \<le> 1024"
  shows "entry (fill_leaf (frame_addr f) (of_nat v0) (of_nat (pg * 4096)) n fl m) g j =
    (if g = f \<and> v0 \<le> j \<and> j < v0 + n then pte (pg + (j - v0)) fl else entry m g j)"
  using assms(4)
proof (induction n)
  case (Suc n)
  let ?m = "fill_leaf (frame_addr f) (of_nat v0) (of_nat (pg * 4096)) n fl m"
  have "of_nat (pg * 4096) + of_nat n * of_nat PAGE_SIZE = (of_nat ((pg + n) * 4096) :: u32)" by (simp add: PAGE_SIZE_def algebra_simps)
  then have "fill_leaf (frame_addr f) (of_nat v0) (of_nat (pg * 4096)) (Suc n) fl m =
    store32 ?m (frame_addr f + 4 * of_nat (v0 + n)) (pte (pg + n) fl)"
    by (simp add: fill_leaf_def pte_def)
  moreover have "v0 + n < 1024" using Suc.prems by simp
  ultimately show ?case using Suc entry_store [OF assms(1,2) _ assms(3), of "v0 + n" ?m] by auto
qed (auto simp: fill_leaf_def)

definition region_ok :: "u32 \<times> nat \<Rightarrow> bool" where
  "region_ok r \<longleftrightarrow> unat (fst r) mod 4096 = 0 \<and> unat (fst r) div 4096 mod 1024 + snd r \<le> 1024"

definition region_pages :: "u32 \<times> nat \<Rightarrow> nat set" where
  "region_pages r = {unat (fst r) div 4096..<unat (fst r) div 4096 + snd r}"

lemma of_nat_unat_u32: "of_nat (unat w) = (w :: u32)"
  by simp

lemma vpn_of:
  fixes va :: u32
  shows "drop_bit 22 va = of_nat (unat va div 4096 div 1024)" "drop_bit 12 va AND 0x3FF = of_nat (unat va div 4096 mod 1024)"
    "unat va div 4096 div 1024 < 1024"
proof -
  have d: "unat va div 4096 div 1024 = unat va div 2 ^ 22" by (simp flip: div_mult2_eq)
  have "unat va < 2 ^ 10 * 2 ^ 22" using unat_u32_bound [of va] by simp
  then show lt: "unat va div 4096 div 1024 < 1024" unfolding d by (simp add: less_mult_imp_div_less)
  have "unat (drop_bit 22 va) = unat va div 2 ^ 22" unfolding unat_drop_bit_eq by (simp only: drop_bit_eq_div)
  then show "drop_bit 22 va = of_nat (unat va div 4096 div 1024)" unfolding d by (metis of_nat_unat_u32)
  have "drop_bit 12 va AND 0x3FF = take_bit 10 (drop_bit 12 va)" by (simp add: take_bit_eq_mask mask_eq_exp_minus_1)
  moreover have "unat (take_bit 10 (drop_bit 12 va)) = unat va div 4096 mod 1024"
    unfolding unsigned_take_bit_eq unat_drop_bit_eq by (simp add: drop_bit_eq_div take_bit_eq_mod)
  ultimately show "drop_bit 12 va AND 0x3FF = of_nat (unat va div 4096 mod 1024)" by (metis of_nat_unat_u32)
qed

lemma pt_inv_fill:
  assumes inv: "pt_inv e rf L M" and f: "L (pg div 1024) = Some f" and n: "pg mod 1024 + n \<le> 1024"
    and m: "m = fill_leaf (frame_addr f) (of_nat (pg mod 1024)) (of_nat (pg * 4096)) n 0xF (mem e)"
  shows "pt_inv (e\<lparr>mem := m\<rparr>) rf L (M \<union> {pg..<pg + n})"
proof -
  have f': "f < 256" "f \<noteq> rf" "rf < 256" using inv f by (auto simp: pt_inv_def)
  note ent = entry_fill [OF f'(1) _ _ n, of _ _ pg "0xF" "mem e"]
  have root: "entry m rf v = entry (mem e) rf v" if "v < 1024" for v using ent [OF f'(3) that] f'(2) by (simp add: m)
  have div: "p div 1024 = pg div 1024" if "p \<in> {pg..<pg + n}" for p
  proof (rule div_nat_eqI)
    have "pg = 1024 * (pg div 1024) + pg mod 1024" by simp
    then show "1024 * (pg div 1024) \<le> p" "p < 1024 * Suc (pg div 1024)" using that n unfolding atLeastLessThan_iff mult_Suc_right by linarith+
  qed
  have leaf: "entry m g j = (if w * 1024 + j \<in> M \<union> {pg..<pg + n} then pte (w * 1024 + j) 0xF else 0)" if w: "L w = Some g" and j: "j < 1024" for w g j
  proof (cases "w = pg div 1024")
    case True
    then have "g = f" and old: "entry (mem e) f j = (if w * 1024 + j \<in> M then pte (w * 1024 + j) 0xF else 0)" using f w j inv by (auto simp: pt_inv_def)
    moreover have pg: "pg = w * 1024 + pg mod 1024" using True by simp
    then have "pg mod 1024 \<le> j \<and> j < pg mod 1024 + n \<longleftrightarrow> w * 1024 + j \<in> {pg..<pg + n}" unfolding atLeastLessThan_iff by linarith
    moreover have "pg + (j - pg mod 1024) = w * 1024 + j" if "pg mod 1024 \<le> j" using pg that by linarith
    ultimately show ?thesis using ent [OF f'(1) j] by (auto simp: m)
  next
    case False
    then have "g \<noteq> f" "g < 256" using f w inv by (auto simp: pt_inv_def)
    moreover have "w * 1024 + j \<notin> {pg..<pg + n}" using div [of "w * 1024 + j"] False j by auto
    moreover have "entry (mem e) g j = (if w * 1024 + j \<in> M then pte (w * 1024 + j) 0xF else 0)" using w j inv by (simp add: pt_inv_def)
    ultimately show ?thesis using ent [of g j] j by (auto simp: m)
  qed
  have dom: "L (p div 1024) \<noteq> None" if "p \<in> M \<union> {pg..<pg + n}" for p
    using that div [of p] f inv by (auto simp: pt_inv_def)
  show ?thesis using inv root leaf dom by (simp add: pt_inv_def on_qemu_def)
qed

lemma setup_region_ok:
  assumes inv: "pt_inv e rf L M" and s: "pt_root s = frame_addr rf" and r: "region_ok r" and n: "0 < nfree e"
  shows "owp (setup_identity_region pid r OS_RWX (e, s)) (\<lambda>(e', s'). \<exists>L'. pt_inv e' rf L' (M \<union> region_pages r) \<and>
    pt_root s' = frame_addr rf \<and> nfree e \<le> nfree e' + 1 \<and> platform e' = platform e \<and> translation e' = translation e)"
proof -
  obtain addr np where ra: "r = (addr, np)" by (cases r)
  define pg v0 v where "pg = unat addr div 4096" and "v0 = pg mod 1024" and "v = pg div 1024"
  have b: "v0 + np \<le> 1024" "of_nat (pg * 4096) = addr" and vp: "drop_bit 22 addr = of_nat v" "drop_bit 12 addr AND 0x3FF = of_nat v0" "v < 1024"
  proof -
    have "unat addr mod 4096 = 0" using r by (simp add: region_ok_def ra)
    then have "unat addr = pg * 4096" using div_mult_mod_eq [of "unat addr" 4096] by (simp add: pg_def)
    then show "of_nat (pg * 4096) = addr" using of_nat_unat_u32 [of addr] by simp
  qed (use r vpn_of [of addr] in \<open>simp_all add: region_ok_def ra v_def v0_def pg_def\<close>)
  obtain e1 s1 f L1 where l: "region_leaf pid (of_nat v) (e, s) = Ret (e1, s1)" "L1 v = Some f" "pt_inv e1 rf L1 M"
    "pt_leaf s1 = frame_addr f" "pt_root s1 = frame_addr rf" "nfree e \<le> nfree e1 + 1" "platform e1 = platform e \<and> translation e1 = translation e"
    using region_leaf_ok [OF inv s vp(3) n, of pid] by (auto simp: owp_iff)
  let ?m = "fill_leaf (frame_addr f) (of_nat v0) (of_nat (pg * 4096)) np 0xF (mem e1)" and ?e = "e1\<lparr>mem := fill_leaf (frame_addr f) (of_nat v0) addr np OS_RWX (mem e1)\<rparr>"
  have "setup_identity_region pid r OS_RWX (e, s) = Ret (?e, s1)"
    by (simp add: setup_identity_region_def ra vp l)
  moreover have "pt_inv ?e rf L1 (M \<union> region_pages r)" 
    using pt_inv_fill [OF l(3) l(2) [unfolded v_def] b(1) [unfolded v0_def] refl]
    by (simp only: region_pages_def ra fst_conv snd_conv OS_RWX_def b(2) v0_def [symmetric] pg_def [symmetric])
  ultimately show ?thesis using l by (auto simp: nfree_def)
qed

lemma setup_regions_ok:
  assumes "pt_inv e rf L M" "pt_root s = frame_addr rf" "\<forall>r\<in>set rs. region_ok r" "length rs \<le> nfree e"
  shows "owp (ofold (\<lambda>r. setup_identity_region pid r OS_RWX) rs (e, s)) (\<lambda>(e', s').
    \<exists>L'. pt_inv e' rf L' (M \<union> \<Union> (region_pages ` set rs)) \<and> pt_root s' = frame_addr rf \<and> translation e' = translation e)"
  using assms
proof (induction rs arbitrary: e s L M)
  case (Cons r rs)
  obtain e1 s1 L1 where 1: "setup_identity_region pid r OS_RWX (e, s) = Ret (e1, s1)" "pt_inv e1 rf L1 (M \<union> region_pages r)"
    "pt_root s1 = frame_addr rf" "nfree e \<le> nfree e1 + 1" "translation e1 = translation e"
    using setup_region_ok [OF Cons.prems(1,2), of r pid] Cons.prems(3,4) by (auto simp: owp_iff)
  show ?case using Cons.IH [OF 1(2,3)] Cons.prems(3,4) 1 by (simp add: Un_assoc)
qed auto

lemma sv32_inv:
  assumes "pt_inv e rf L M"
  shows "sv32 (mem e) (frame_addr rf) va = (if unat va div 4096 \<in> M then Some (unat va, 0xF) else None)"
proof -
  define pg where "pg = unat va div 4096"
  note v = vpn_of [of va, folded pg_def]
  have e1: "load32 (mem e) (frame_addr rf + 4 * drop_bit 22 va) = (case L (pg div 1024) of None \<Rightarrow> 0 | Some f \<Rightarrow> pte (0x80004 + f) 1)"
    unfolding v(1) using assms v(3) by (simp add: pt_inv_def flip: entry_def)
  show ?thesis
  proof (cases "L (pg div 1024)")
    case None
    then have "pg \<notin> M" using assms by (auto simp: pt_inv_def)
    then show ?thesis using e1 None by (simp add: sv32_def pg_def)
  next
    case (Some f)
    then have f: "f < 256" using assms by (auto simp: pt_inv_def)
    have j: "pg mod 1024 < 1024" "pg div 1024 * 1024 + pg mod 1024 = pg" by simp_all
    have e0: "load32 (mem e) (frame_addr f + 4 * (drop_bit 12 va AND 0x3FF)) = (if pg \<in> M then pte pg 0xF else 0)"
      unfolding v(2) using assms Some j by (simp add: pt_inv_def flip: entry_def)
    have "pg < 2 ^ 20" using unat_u32_bound [of va] by (simp add: pg_def less_mult_imp_div_less)
    then have p: "pte pg 0xF AND 1 = 1" "pte pg 0xF AND 0xF = 0xF" "unat (drop_bit 10 (pte pg 0xF)) = pg"
      using pte_fields [of pg "0xF"] by simp_all
    have q: "pte (0x80004 + f) 1 AND 1 = 1" "pte (0x80004 + f) 1 AND 0xE = 0" "of_nat (unat (drop_bit 10 (pte (0x80004 + f) 1)) * 4096) = frame_addr f"
      using pte_fields [of "0x80004 + f" 1] f by (simp_all add: frame_addr_page)
    have "pg * 4096 + unat va mod 4096 = unat va" by (simp add: pg_def)
    then show ?thesis unfolding sv32_def e1 Some option.case Let_def q e0 using p by (simp add: pg_def)
  qed
qed

lemma identity_regions_ok: "p \<noteq> ARTY \<Longrightarrow> \<forall>r\<in>set (identity_regions p). region_ok r"
  by (cases p) (simp_all add: identity_regions_def region_ok_def layout_defs upt_rec unat_word_ariths)

lemma identity_mapped_pages:
  assumes "p \<noteq> ARTY"
  shows "identity_mapped p va \<longleftrightarrow> unat va div 4096 \<in> \<Union> (region_pages ` set (identity_regions p))"
proof -
  have *: "unat (fst r) \<le> unat va \<and> unat va < unat (fst r) + snd r * 4096 \<longleftrightarrow> unat va div 4096 \<in> region_pages r" if "region_ok r" for r
  proof -
    have "unat (fst r) mod 4096 = 0" using that by (simp add: region_ok_def)
    then obtain k where k: "unat (fst r) = 4096 * k" by (auto simp: mod_eq_0_iff_dvd)
    have "k \<le> unat va div 4096 \<longleftrightarrow> k * 4096 \<le> unat va" by (rule less_eq_div_iff_mult_less_eq) simp
    moreover have "unat va div 4096 < k + snd r \<longleftrightarrow> unat va < (k + snd r) * 4096" by (rule div_less_iff_less_mult) simp
    moreover have "unat (fst r) div 4096 = k" using k by simp
    ultimately show ?thesis using k by (simp add: region_pages_def algebra_simps)
  qed
  have "identity_mapped p va \<longleftrightarrow> (\<exists>r\<in>set (identity_regions p). unat (fst r) \<le> unat va \<and> unat va < unat (fst r) + snd r * 4096)"
    unfolding identity_mapped_def case_prod_unfold by (rule refl)
  also have "\<dots> \<longleftrightarrow> (\<exists>r\<in>set (identity_regions p). unat va div 4096 \<in> region_pages r)"
    using * identity_regions_ok [OF assms] by (intro bex_cong refl) blast
  finally show ?thesis by blast
qed

lemma pagetable_identity_ok:
  assumes e: "on_qemu e" "length (table e) = 256" "15 \<le> nfree e" and pid: "0 \<le> pid" "nat pid < length (pid_to_pagetable_base s)"
  shows "owp (pagetable_identity_mapping pid (e, s)) (\<lambda>(e', s'). translation e' = translation e \<and> (\<exists>i. pt_root s' = frame_addr i) \<and>
    (\<forall>va. sv32 (mem e') (pt_root s') va = (if identity_mapped (platform e) va then Some (unat va, 0xF) else None)))"
proof -
  have "0 < nfree e" using e(3) by simp
  then obtain i e1 where a: "alloc_table pid e = Ret (frame_addr i, e1)" "i < 256" "\<not> used e i" "used e1 i" "\<forall>j. used e j \<longrightarrow> used e1 j"
    "mem e1 = memset (mem e) (frame_addr i) 0 PAGE_SIZE" "nfree e = Suc (nfree e1)" "platform e1 = platform e \<and> translation e1 = translation e" "length (table e1) = 256"
    by (rule alloc_table_ok [OF e(1,2), where pid = pid])
  have inv: "pt_inv e1 i Map.empty {}"
    using e(1) a by (auto simp: pt_inv_def on_qemu_def entry_memset)
  let ?s = "s\<lparr>pt_root := frame_addr i, pid_to_pagetable_base := (pid_to_pagetable_base s)[nat pid := frame_addr i]\<rparr>"
  have p: "platform e \<noteq> ARTY" using e(1) by (simp add: on_qemu_def)
  have "length (identity_regions (platform e)) \<le> nfree e1" using a(7) e(3) by (simp add: identity_regions_def)
  then have "owp (ofold (\<lambda>r. setup_identity_region pid r OS_RWX) (identity_regions (platform e)) (e1, ?s)) (\<lambda>(e', s').
    \<exists>L'. pt_inv e' i L' ({} \<union> \<Union> (region_pages ` set (identity_regions (platform e)))) \<and> pt_root s' = frame_addr i \<and> translation e' = translation e1)"
    by (intro setup_regions_ok [OF inv _ identity_regions_ok [OF p]]) simp_all
  then show ?thesis using pid a(1,8)
    by (auto simp: pagetable_identity_mapping_def owp_iff sv32_inv identity_mapped_pages [OF p])
qed

end
