(* ===== verification/Tty_Correct.thy ===== *)
theory Tty_Correct
  imports Tty
begin

text \<open>
  The line editor that tty_read implements, and the UART behind it.
\<close>

section \<open>Typed characters\<close>

text \<open>
  What the manual promises of the receiving side of the UART: bit 31 of RXDATA says that nothing has
  arrived yet, and otherwise the load removes the next character. \<open>I cs s\<close> says that the characters
  \<open>cs\<close> are still to come, and the waiting for each of them ends. Printing returns and does not take input.
\<close>

definition uart_types :: "'c bus \<Rightarrow> platform_type \<Rightarrow> (byte list \<Rightarrow> ('c, unit) dev_op) \<Rightarrow> (byte list \<Rightarrow> 'c \<Rightarrow> bool) \<Rightarrow> bool" where
  "uart_types b p out I \<longleftrightarrow>
     (\<exists>d :: 'c \<Rightarrow> nat. \<forall>c cs s w s'. I (c # cs) s \<longrightarrow> bus_load b (UART0_BASE p + UART0_RXDATA) s = (w, s') \<longrightarrow>
        (if bit w 31 then I (c # cs) s' \<and> d s' < d s else ucast w = c \<and> I cs s')) \<and>
     (\<forall>cs s bs. I cs s \<longrightarrow> (\<exists>s'. out bs s = Some (Ret ((), s')) \<and> I cs s'))"

text \<open>
  The line that the typed characters give, with room for \<open>n\<close> characters: ctrl+C gives the empty line,
  enter ends it and backspace removes its last character. The result also has the remaining input.
\<close>

fun line_edit :: "nat \<Rightarrow> byte list \<Rightarrow> byte list \<Rightarrow> (byte list \<times> byte list) option" where
  "line_edit n l cs = (if n \<le> length l then Some (l, cs) else case cs of [] \<Rightarrow> None
     | c # cs \<Rightarrow> if c = 0x03 then Some ([], cs) else if c = 0x0d then Some (l, cs)
         else if c = 0x7f then line_edit n (butlast l) cs else line_edit n (l @ [c]) cs)"

declare line_edit.simps [simp del]

lemma uint_low_byte: "uint (w AND 0xFF :: u32) = uint (ucast w :: byte)"
proof -
  have "w AND 0xFF = take_bit 8 w" by (simp add: take_bit_eq_mask mask_eq_exp_minus_1)
  then show ?thesis by (simp add: unsigned_take_bit_eq unsigned_ucast_eq)
qed

lemma getc_step:
  assumes "bus_load b (UART0_BASE p + UART0_RXDATA) (tty_dev t) = (w, s')"
  shows "getc_c b p t = Some (Ret (if bit w 31 then - 1 else uint (ucast w :: byte),
    t\<lparr>tty_dev := s', tty_c := if bit w 31 then - 1 else uint (ucast w :: byte)\<rparr>))"
  using assms by (simp add: getc_c_def on_dev_def uart_getc_def REGW_load_def dbind_def dret_def set_c_def uint_low_byte)

lemma poll_getc:
  assumes u: "uart_types b p out I" and i: "I (c # cs) (tty_dev t)"
  shows "\<exists>t'. poll (getc_c b p) (\<lambda>x. x \<noteq> - 1) t = Some (Ret (uint c, t')) \<and> I cs (tty_dev t')"
proof -
  obtain d :: "'a \<Rightarrow> nat" where d: "\<And>c cs s w s'. I (c # cs) s \<Longrightarrow> bus_load b (UART0_BASE p + UART0_RXDATA) s = (w, s') \<Longrightarrow>
      (if bit w 31 then I (c # cs) s' \<and> d s' < d s else ucast w = c \<and> I cs s')"
    using u unfolding uart_types_def by blast
  show ?thesis using i
  proof (induction "d (tty_dev t)" arbitrary: t rule: less_induct)
    case less
    obtain w s' where w: "bus_load b (UART0_BASE p + UART0_RXDATA) (tty_dev t) = (w, s')" by (cases "bus_load b (UART0_BASE p + UART0_RXDATA) (tty_dev t)")
    note * = d [OF less.prems w] and g = getc_step [OF w]
    show ?case
    proof (cases "bit w 31")
      case True
      then obtain t' where "poll (getc_c b p) (\<lambda>x. x \<noteq> - 1) (t\<lparr>tty_dev := s', tty_c := - 1\<rparr>) = Some (Ret (uint c, t'))" "I cs (tty_dev t')"
        using less.hyps [of "t\<lparr>tty_dev := s', tty_c := - 1\<rparr>"] * by auto
      then show ?thesis using True g by (subst poll.simps) simp
    next
      case False
      have "uint c \<noteq> - 1" using uint_ge_0 [of c] by linarith
      then show ?thesis using False g * by (subst poll.simps) simp
    qed
  qed
qed

lemma out_returns:
  assumes "uart_types b p out I" "I cs (tty_dev t)"
  shows "\<exists>s'. on_dev (out bs) t = Some (Ret ((), t\<lparr>tty_dev := s'\<rparr>)) \<and> I cs s'"
proof -
  obtain s' where "out bs (tty_dev t) = Some (Ret ((), s'))" "I cs s'" using assms unfolding uart_types_def by blast
  then show ?thesis by (auto simp: on_dev_def)
qed

text \<open>One character: the loop ends, or goes on with the next index.\<close>

lemma tty_read_step:
  assumes u: "uart_types b p out I" and i: "I (c # cs) (tty_dev t)" "i < len - 1" "unat i < length buf"
  shows "\<exists>t'. I cs (tty_dev t') \<and> tty_read_loop b p out len i buf t =
    (if c = 3 \<or> c = 13 then Some (Ret ((if c = 3 then 0 else i, (if c = 3 then (buf[unat i := c])[0 := 0] else buf[unat i := c])[unat i := 0]),
       t'\<lparr>is_reading := False\<rparr>))
     else tty_read_loop b p out len (if c = 0x7f then if i \<noteq> 0 then i - 1 else 0 else i + 1) (buf[unat i := c]) t')"
proof -
  obtain t1 where t1: "poll (getc_c b p) (\<lambda>x. x \<noteq> - 1) (t\<lparr>tty_c := - 1\<rparr>) = Some (Ret (uint c, t1))" "I cs (tty_dev t1)"
    using poll_getc [OF u, of c cs "t\<lparr>tty_c := - 1\<rparr>"] i(1) by auto
  have p: "put buf (unat i) (of_int (uint c)) = Ret (buf[unat i := c])" using i(3) by (simp add: put_def)
  have k: "uint c = 3 \<longleftrightarrow> c = 3" "uint c = 0xd \<longleftrightarrow> c = 0xd" "uint c = 0x7f \<longleftrightarrow> c = 0x7f" "uint c = 0 \<longleftrightarrow> c = 0"
    by (simp_all add: word_uint_eq_iff)
  obtain s1 where s1: "on_dev (out (chars [CHR 0x0D, CHR 0x0A])) (t1\<lparr>is_reading := False\<rparr>) = Some (Ret ((), t1\<lparr>is_reading := False, tty_dev := s1\<rparr>))" "I cs s1"
    using out_returns [OF u, of cs "t1\<lparr>is_reading := False\<rparr>"] t1(2) by fastforce
  obtain s2 where s2: "on_dev (out (chars [CHR 0x08, CHR '' '', CHR 0x08])) (t1\<lparr>tty_c := 0\<rparr>) = Some (Ret ((), t1\<lparr>tty_c := 0, tty_dev := s2\<rparr>))" "I cs s2"
    using out_returns [OF u, of cs "t1\<lparr>tty_c := 0\<rparr>"] t1(2) by fastforce
  obtain s3 where s3: "on_dev (out [c]) t1 = Some (Ret ((), t1\<lparr>tty_dev := s3\<rparr>))" "I cs s3"
    using out_returns [OF u t1(2)] by fastforce
  note defs = set_c_def set_reading_def dbind_def dret_def Let_def
  consider "c = 3" | "c = 13" | "c = 0x7f" "i \<noteq> 0" | "c = 0x7f" "i = 0" | "c \<notin> {3, 13, 0x7f, 0}" | "c = 0" by auto
  then show ?thesis
  proof cases
    case 1
    then show ?thesis using t1 p k i s1
      by (intro exI [of _ "t1\<lparr>is_reading := False, tty_dev := s1\<rparr>"], subst tty_read_loop.simps) (simp add: defs)
  next
    case 2
    then show ?thesis using t1 p k i s1
      by (intro exI [of _ "t1\<lparr>is_reading := False, tty_dev := s1\<rparr>"], subst tty_read_loop.simps) (simp add: defs)
  next
    case 3
    then show ?thesis using t1 p k i s2
      by (intro exI [of _ "t1\<lparr>tty_c := 0, tty_dev := s2\<rparr>"], subst tty_read_loop.simps) (simp add: defs)
  next
    case 4
    then show ?thesis using t1 p k i
      by (intro exI [of _ "t1\<lparr>tty_c := 0\<rparr>"], subst tty_read_loop.simps) (simp add: defs)
  next
    case 5
    then show ?thesis using t1 p k i s3
      by (intro exI [of _ "t1\<lparr>tty_dev := s3\<rparr>"], subst tty_read_loop.simps) (simp add: defs)
  next
    case 6
    then show ?thesis using t1 p k i
      by (intro exI [of _ "t1"], subst tty_read_loop.simps) (simp add: defs)
  qed
qed

lemma take_Suc_update: "n < length xs \<Longrightarrow> take (Suc n) (xs[n := x]) = take n xs @ [x]"
  by (simp add: take_Suc_conv_app_nth)

lemma tty_read_loop_edits:
  assumes u: "uart_types b p out I" and len: "0 < unat len"
  shows "line_edit n l cs = Some (r, rest) \<Longrightarrow> n = unat len - 1 \<Longrightarrow> I cs (tty_dev t) \<Longrightarrow> length l \<le> n \<Longrightarrow>
    n < length buf \<Longrightarrow> take (length l) buf = l \<Longrightarrow>
    \<exists>buf' t'. tty_read_loop b p out len (of_nat (length l)) buf t = Some (Ret ((of_nat (length r), buf'), t')) \<and>
      length buf' = length buf \<and> take (Suc (length r)) buf' = r @ [0] \<and> I rest (tty_dev t') \<and> \<not> is_reading t'"
proof (induction n l cs arbitrary: t buf rule: line_edit.induct)
  case (1 n l cs)
  note P = 1(3-8) and IH = 1(1,2)
  have ne: "len \<noteq> 0" using len by auto
  then have n: "unat (len - 1) = n" using P(2) by (simp add: unat_minus_one)
  then have n': "len - 1 = of_nat n" by (simp flip: n)
  have "n < 2 ^ 32" using P(2) unat_u32_bound [of len] by linarith
  then have i: "unat (of_nat (length l) :: u32) = length l" using P(4) by (simp add: unat_of_nat take_bit_nat_eq_self)
  show ?case
  proof (cases "n \<le> length l")
    case True
    then have l: "length l = n" "r = l" "rest = cs" using P(1) [unfolded line_edit.simps [of n l]] P(4) by simp_all
    have "\<not> of_nat (length l) < len - 1" by (simp add: l n')
    then have "tty_read_loop b p out len (of_nat (length l)) buf t = Some (Ret ((len - 1, buf[n := 0]), t\<lparr>is_reading := False\<rparr>))"
      using P(5) by (subst tty_read_loop.simps) (simp add: put_def n)
    then show ?thesis using P(3,5,6) l by (simp add: n' take_Suc_update)
  next
    case False
    then obtain c cs' where cs: "cs = c # cs'" using P(1) by (cases cs) (simp_all add: line_edit.simps [of n l])
    have lt: "(of_nat (length l) :: u32) < len - 1" using False i n by (simp add: word_less_nat_alt)
    have b: "unat (of_nat (length l) :: u32) < length buf" using i False P(5) by linarith
    let ?b = "buf[length l := c]" and ?i = "of_nat (length l) :: u32"
    obtain t' where t': "I cs' (tty_dev t')" and st: "tty_read_loop b p out len ?i buf t =
      (if c = 3 \<or> c = 13 then Some (Ret ((if c = 3 then 0 else ?i, (if c = 3 then ?b[0 := 0] else ?b)[length l := 0]), t'\<lparr>is_reading := False\<rparr>))
       else tty_read_loop b p out len (if c = 0x7f then if ?i \<noteq> 0 then ?i - 1 else 0 else ?i + 1) ?b t')"
      using tty_read_step [OF u P(3) [unfolded cs] lt b] unfolding i by blast
    have tk: "take (length l) ?b = l" "length ?b = length buf" using P(6) by simp_all
    consider "c = 3" | "c = 13" | "c = 0x7f" | "c \<noteq> 3" "c \<noteq> 13" "c \<noteq> 0x7f" by auto
    then show ?thesis
    proof cases
      case 1
      then have "r = []" "rest = cs'" using P(1) False by (simp_all add: line_edit.simps [of n l] cs)
      then show ?thesis using st t' 1 P(5) by (cases buf) (auto split: nat.split)
    next
      case 2
      then have "r = l" "rest = cs'" using P(1) False by (simp_all add: line_edit.simps [of n l] cs)
      then show ?thesis using st t' 2 b i P(6) by (auto simp: take_Suc_update)
    next
      case 3
      have e: "line_edit n (butlast l) cs' = Some (r, rest)" using P(1) False 3 by (simp add: line_edit.simps [of n l] cs)
      have j: "(if ?i \<noteq> 0 then ?i - 1 else 0) = of_nat (length (butlast l))"
        using i by (cases l rule: rev_cases) auto
      have tk': "take (length (butlast l)) ?b = butlast l" using tk(1) P(6) by (metis butlast_conv_take length_butlast take_take min.absorb1 diff_le_self)
      show ?thesis using IH(1) [OF False cs _ _ 3 e P(2) t' _ _ tk'] P(4,5) st 3 j tk(2) by simp
    next
      case 4
      have e: "line_edit n (l @ [c]) cs' = Some (r, rest)" using P(1) False 4 by (simp add: line_edit.simps [of n l] cs)
      have tk': "take (length (l @ [c])) ?b = l @ [c]" using P(6) b i by (simp add: take_Suc_update)
      show ?thesis using IH(2) [OF False cs 4 e P(2) t' _ _ tk'] False P(5) st 4 tk(2) by (simp add: add.commute)
    qed
  qed
qed

lemma tty_read_ok:
  assumes "uart_types b p out I" "0 < unat len" "unat len \<le> length buf"
    and "line_edit (unat len - 1) [] cs = Some (r, rest)" "I cs (tty_dev t)"
  shows "\<exists>buf' t'. tty_read b p out len buf t = Some (Ret ((of_nat (length r), buf'), t')) \<and>
    length buf' = length buf \<and> take (Suc (length r)) buf' = r @ [0] \<and> I rest (tty_dev t') \<and> \<not> is_reading t'"
proof -
  have "unat len - 1 < length buf" using assms(2,3) by linarith
  from tty_read_loop_edits [OF assms(1,2,4) refl, of "t\<lparr>is_reading := True\<rparr>" buf] this assms(5)
  show ?thesis by (simp add: tty_read_def dbind_def set_reading_def)
qed

section \<open>Printed characters\<close>

text \<open>
  What the manual promises of the sending side: bit 31 of TXDATA says that the queue is full, which
  ends, and a store while it is not full sends the byte.
\<close>

definition uart_sends :: "'c bus \<Rightarrow> platform_type \<Rightarrow> ('c \<Rightarrow> byte list) \<Rightarrow> bool" where
  "uart_sends b p sent \<longleftrightarrow>
     (\<exists>d :: 'c \<Rightarrow> nat. \<forall>s w s'. bus_load b (UART0_BASE p + UART0_TXDATA) s = (w, s') \<longrightarrow> sent s' = sent s \<and>
        (if bit w 31 then d s' < d s else \<forall>v. sent (bus_store b (UART0_BASE p + UART0_TXDATA) v s') = sent s @ [ucast v]))"

lemma uart_putc_sends:
  assumes "uart_sends b p sent"
  shows "\<exists>s'. uart_putc b p (uint x) s = Some (Ret ((), s')) \<and> sent s' = sent s @ [x]"
proof -
  let ?a = "UART0_BASE p + UART0_TXDATA"
  obtain d :: "'a \<Rightarrow> nat" where d: "\<And>s w s'. bus_load b ?a s = (w, s') \<Longrightarrow> sent s' = sent s \<and>
      (if bit w 31 then d s' < d s else \<forall>v. sent (bus_store b ?a v s') = sent s @ [ucast v])"
    using assms unfolding uart_sends_def by blast
  have "\<exists>w s'. poll (REGW_load b (UART0_BASE p) UART0_TXDATA) (\<lambda>v. \<not> bit v 31) s = Some (Ret (w, s')) \<and>
      (\<forall>v. sent (bus_store b ?a v s') = sent s @ [ucast v])"
  proof (induction "d s" arbitrary: s rule: less_induct)
    case less
    obtain w s' where w: "bus_load b ?a s = (w, s')" by (cases "bus_load b ?a s")
    show ?case using d [OF w] less [of s'] w by (cases "bit w 31"; subst poll.simps) (auto simp: REGW_load_def)
  qed
  moreover have "ucast (ucast x :: u32) = x" by (rule bit_word_eqI) (auto simp: bit_simps)
  ultimately show ?thesis by (auto simp: uart_putc_def dbind_def REGW_store_def)
qed

lemma tty_write_ok:
  assumes "uart_sends b p sent"
  shows "\<exists>s'. tty_write b p bs s = Some (Ret ((), s')) \<and> sent s' = sent s @ bs"
proof (induction bs arbitrary: s)
  case (Cons x bs)
  obtain s1 where s1: "uart_putc b p (uint x) s = Some (Ret ((), s1))" "sent s1 = sent s @ [x]" using uart_putc_sends [OF assms] by blast
  obtain s2 where "tty_write b p bs s1 = Some (Ret ((), s2))" "sent s2 = sent s1 @ bs" using Cons.IH by blast
  then show ?case using s1 by (auto simp: tty_write_def dbind_def dret_def split: option.splits outcome.splits)
qed (simp add: tty_write_def dbind_def dret_def)

end
