(* ===== verification/Device_Properties.thy ===== *)
theory Device_Properties
  imports Tty_Correct
begin

text \<open>
  The properties of the terminal and of the timer, with example devices.
\<close>

section \<open>Terminal\<close>

text \<open>
  C31: tty_read is a line editor. Whenever the typed characters complete a line (with enter or ctrl+C, or
  by filling the buffer), the call returns; the result is the length of the line, the buffer holds the
  line and a terminating zero, and the characters after the line have not been read.
\<close>

theorem tty_read_edits:
  assumes "uart_types b p out I" "0 < unat len" "unat len \<le> length buf"
    and "line_edit (unat len - 1) [] cs = Some (r, rest)" "I cs (tty_dev t)"
  shows "\<exists>buf' t'. tty_read b p out len buf t = Some (Ret ((of_nat (length r), buf'), t')) \<and>
    length buf' = length buf \<and> take (Suc (length r)) buf' = r @ [0] \<and> I rest (tty_dev t') \<and> \<not> is_reading t'"
  by (rule tty_read_ok [OF assms])

text \<open>A UART with the characters that were typed and those that were sent.\<close>

definition demo_uart :: "(byte list \<times> byte list) bus" where
  "demo_uart = \<lparr>bus_load = (\<lambda>a (i, s). if a = 0x10010004 \<and> i \<noteq> [] then (ucast (hd i), (tl i, s))
       else (if a = 0x10010004 then 0x80000000 else 0, (i, s))),
     bus_store = (\<lambda>a v (i, s). if a = 0x10010000 then (i, s @ [ucast v]) else (i, s))\<rparr>"

lemma demo_uart_regs: "UART0_BASE QEMU_LATEST + UART0_RXDATA = 0x10010004" "UART0_BASE QEMU_LATEST + UART0_TXDATA = 0x10010000"
  by (simp_all add: layout_defs UART0_RXDATA_def UART0_TXDATA_def)

lemma demo_uart_write: "tty_write demo_uart QEMU_LATEST bs (i, s) = Some (Ret ((), (i, s @ bs)))"
proof (induction bs arbitrary: s)
  case (Cons x bs)
  have "ucast (ucast x :: u32) = x" by (rule bit_word_eqI) (auto simp: bit_simps)
  then have "uart_putc demo_uart QEMU_LATEST (uint x) (i, s) = Some (Ret ((), (i, s @ [x])))"
    unfolding uart_putc_def dbind_def by (subst poll.simps) (simp add: REGW_load_def REGW_store_def demo_uart_regs demo_uart_def)
  then show ?case using Cons [of "s @ [x]"] by (auto simp: tty_write_def dbind_def dret_def split: option.splits outcome.splits)
qed (simp add: tty_write_def dbind_def dret_def)

lemma demo_uart_load: "bus_load demo_uart 0x10010004 (c # cs, s) = (ucast c, (cs, s))"
  by (simp add: demo_uart_def)

lemma demo_uart_types: "uart_types demo_uart QEMU_LATEST (tty_write demo_uart QEMU_LATEST) (\<lambda>cs d. fst d = cs)"
proof -
  have "\<not> bit (ucast c :: u32) 31" "ucast (ucast c :: u32) = c" for c :: byte
    by (auto simp: bit_simps dest: bit_imp_le_length intro!: bit_word_eqI)
  then show ?thesis
    unfolding uart_types_def demo_uart_regs by (auto simp: demo_uart_write demo_uart_load)
qed

theorem tty_read_edits_witness:
  "\<exists>buf' t'. tty_read demo_uart QEMU_LATEST (tty_write demo_uart QEMU_LATEST) 8 (replicate 8 0xFF)
     \<lparr>tty_c = 0, is_reading = False, tty_dev = (chars ''lz'' @ [0x7f] @ chars ''s'' @ [0x0d] @ chars ''cd'', [])\<rparr> =
       Some (Ret ((2, buf'), t')) \<and> take 3 buf' = chars ''ls'' @ [0] \<and> fst (tty_dev t') = chars ''cd''"
proof -
  have "line_edit (unat (8 :: u32) - 1) [] (chars ''lz'' @ [0x7f] @ chars ''s'' @ [0x0d] @ chars ''cd'') = Some (chars ''ls'', chars ''cd'')"
    by (simp add: line_edit.simps chr_def)
  from tty_read_edits [OF demo_uart_types _ _ this, of "replicate 8 0xFF"
    "\<lparr>tty_c = 0, is_reading = False, tty_dev = (chars ''lz'' @ [0x7f] @ chars ''s'' @ [0x0d] @ chars ''cd'', [])\<rparr>"]
  show ?thesis by (simp add: numeral_3_eq_3) blast
qed

text \<open>C34: tty_write returns and sends the bytes of its buffer in order.\<close>

theorem tty_write_sends:
  assumes "uart_sends b p sent"
  shows "\<exists>s'. tty_write b p bs s = Some (Ret ((), s')) \<and> sent s' = sent s @ bs"
  by (rule tty_write_ok [OF assms])

lemma demo_uart_sends: "uart_sends demo_uart QEMU_LATEST snd"
  unfolding uart_sends_def demo_uart_regs by (auto simp: demo_uart_def)

theorem tty_write_sends_witness:
  "\<exists>s'. tty_write demo_uart QEMU_LATEST (chars ''hi'') ([], []) = Some (Ret ((), s')) \<and> snd s' = chars ''hi''"
  using tty_write_sends [OF demo_uart_sends, of "chars ''hi''" "([], [])"] by simp

section \<open>Timer\<close>

text \<open>
  C0: mtime_get reads the 64-bit counter in two halves and returns a time between the call and the
  return, even when the low half overflows in between; it needs at most two iterations. A tick is at
  most \<open>D\<close> between accesses, with 6 D at most 2^32.
\<close>

theorem mtime_get_untorn:
  assumes "is_clint b mhartid now cmp D" "now c + 6 * D < 2 ^ 64" "6 * D \<le> 2 ^ 32"
  shows "\<exists>t c'. mtime_get b c = Some (Ret (t, c')) \<and> now c \<le> unat t \<and> unat t \<le> now c' \<and> now c' \<le> now c + 6 * D"
  using mtime_get_ok [OF assms] by blast

text \<open>A clock that ticks with every access.\<close>

definition demo_clint :: "(nat \<times> u64) bus" where
  "demo_clint = \<lparr>bus_load = (\<lambda>a (n, v). (of_nat (if a = 0x200BFFC then Suc n div 2 ^ 32 else Suc n mod 2 ^ 32), (Suc n, v))),
     bus_store = (\<lambda>a v (n, w). (Suc n, if a = 0x2004004 then push_bit 32 (ucast v) OR take_bit 32 w
        else push_bit 32 (drop_bit 32 w) OR ucast v))\<rparr>"

lemma demo_is_clint: "is_clint demo_clint 0 fst snd 1"
  unfolding is_clint_def by (auto simp: demo_clint_def Let_def)

theorem mtime_get_untorn_witness:
  "\<exists>t c'. mtime_get demo_clint (2 ^ 32 - 2, 0) = Some (Ret (t, c')) \<and> 2 ^ 32 - 2 \<le> unat t \<and> unat t \<le> fst c' \<and> fst c' \<le> 2 ^ 32 + 4"
  using mtime_get_untorn [OF demo_is_clint, of "(2 ^ 32 - 2, 0)"] by simp

text \<open>
  C32: timer_reset sets the comparator to QUANTUM ticks after a time between the call and the return. While
  it stores the two halves, the comparator is never below 0xFFFFFFFF00000000, so that no interrupt is due
  early.
\<close>

theorem timer_reset_deadline:
  assumes "is_clint b mhartid now cmp D" "now c + 9 * D + unat QUANTUM < 2 ^ 64" "6 * D \<le> 2 ^ 32"
  shows "\<exists>c0 c1 c2 c'. timer_reset_op b mhartid QUANTUM c = Some (Ret (0, c')) \<and>
    now c + unat QUANTUM \<le> unat (cmp c') \<and> unat (cmp c') \<le> now c' + unat QUANTUM \<and>
    cmp c0 = cmp c \<and> c1 = bus_store b (0x2004000 + (mhartid * 8 + 4)) 0xFFFFFFFF c0 \<and>
    (\<exists>v. c2 = bus_store b (0x2004000 + mhartid * 8) v c1) \<and> (\<exists>v. c' = bus_store b (0x2004000 + (mhartid * 8 + 4)) v c2) \<and>
    0xFFFFFFFF00000000 \<le> cmp c1 \<and> 0xFFFFFFFF00000000 \<le> cmp c2"
proof -
  have n: "now c + 6 * D < 2 ^ 64" using assms(2) by linarith
  obtain t c0 where t: "mtime_get b c = Some (Ret (t, c0))" "now c \<le> unat t" "unat t \<le> now c0" "now c0 \<le> now c + 6 * D" "cmp c0 = cmp c"
    using mtime_get_ok [OF assms(1) n assms(3)] by blast
  let ?t = "t + ucast QUANTUM"
  obtain c1 c2 c3 where c: "c1 = bus_store b (0x2004000 + (mhartid * 8 + 4)) 0xFFFFFFFF c0" "c2 = bus_store b (0x2004000 + mhartid * 8) (ucast ?t) c1"
    "c3 = bus_store b (0x2004000 + (mhartid * 8 + 4)) (ucast (drop_bit 32 ?t)) c2" "mtimecmp_set b mhartid ?t c0 = Some (Ret (0, c3))"
    "0xFFFFFFFF00000000 \<le> cmp c1" "0xFFFFFFFF00000000 \<le> cmp c2" "cmp c3 = ?t" "now c0 \<le> now c1" "now c1 \<le> now c2" "now c2 \<le> now c3"
    using mtimecmp_set_ok [OF assms(1), of c0 ?t] by blast
  have "unat (ucast QUANTUM :: u64) = unat QUANTUM" using unat_u32_bound [of QUANTUM] by (simp add: unsigned_ucast_eq take_bit_nat_eq_self)
  moreover have "unat t + unat QUANTUM < 2 ^ 64" using t assms(2) by linarith
  ultimately have u: "unat ?t = unat t + unat QUANTUM" by (simp add: unat_word_ariths)
  have "timer_reset_op b mhartid QUANTUM c = Some (Ret (0, c3))" using t(1) c(4) by (simp add: timer_reset_op_def dbind_def)
  moreover have "now c + unat QUANTUM \<le> unat (cmp c3)" "unat (cmp c3) \<le> now c3 + unat QUANTUM" using u c(7-10) t by simp_all
  ultimately show ?thesis using c t(5) by blast
qed

theorem timer_reset_deadline_witness:
  "\<exists>c'. timer_reset_op demo_clint 0 500000 (2 ^ 32 - 2, 0) = Some (Ret (0, c')) \<and>
    2 ^ 32 - 2 + 500000 \<le> unat (snd c') \<and> unat (snd c') \<le> fst c' + 500000"
proof -
  have 1: "fst (2 ^ 32 - 2, 0 :: u64) + 9 * 1 + unat (500000 :: u32) < 2 ^ 64" and 2: "6 * 1 \<le> (2 ^ 32 :: nat)" by simp_all
  from timer_reset_deadline [OF demo_is_clint 1 2]
  obtain c' where c': "timer_reset_op demo_clint 0 500000 (2 ^ 32 - 2, 0) = Some (Ret (0, c'))"
    "fst (2 ^ 32 - 2, 0 :: u64) + unat (500000 :: u32) \<le> unat (snd c')" "unat (snd c') \<le> fst c' + unat (500000 :: u32)" by blast
  have "unat (500000 :: u32) = 500000" by simp
  with c' show ?thesis unfolding fst_conv by metis
qed

end
