(* ===== verification/Boot_Properties.thy ===== *)
theory Boot_Properties
  imports Boot Page_Table_Correct Device_Properties
begin

text \<open>
  The properties of the start of the earth layer.
\<close>

section \<open>Choices\<close>

abbreviation is_choice :: "byte \<Rightarrow> bool" where
  "is_choice c \<equiv> c = chr CHR ''0'' \<or> c = chr CHR ''1''"

text \<open>A line of one character takes some of the characters before a choice, or the choice.\<close>

lemma line_edit_choice:
  assumes "is_choice c" "\<forall>d\<in>set ds. \<not> is_choice d"
  shows "line_edit 1 [] (ds @ c # rest) = Some ([c], rest) \<or>
    (\<exists>r ds'. line_edit 1 [] (ds @ c # rest) = Some (r, ds' @ c # rest) \<and> length ds' < length ds \<and> set ds' \<subseteq> set ds \<and>
       (r = [] \<or> (\<exists>d. r = [d] \<and> \<not> is_choice d)))"
  using assms(2)
proof (induction ds)
  case Nil
  have "c \<noteq> 3" "c \<noteq> 0xd" "c \<noteq> 0x7f" using assms(1) by (auto simp: chr_def)
  then show ?case by (simp add: line_edit.simps)
next
  case (Cons d ds)
  show ?case
  proof (cases "d = 0x7f")
    case True
    have "line_edit 1 [] ((d # ds) @ c # rest) = line_edit 1 [] (ds @ c # rest)" by (subst line_edit.simps) (simp add: True)
    then show ?thesis using Cons by fastforce
  next
    case False
    have "line_edit 1 [] ((d # ds) @ c # rest) = (if d = 3 \<or> d = 0xd then Some ([], ds @ c # rest) else Some ([d], ds @ c # rest))"
      using False by (subst line_edit.simps) (simp add: line_edit.simps)
    then show ?thesis using Cons.prems by auto
  qed
qed

lemma choose_ok:
  assumes u: "uart_types b p out I" and c: "is_choice c"
  shows "\<forall>d\<in>set ds. \<not> is_choice d \<Longrightarrow> I (ds @ c # rest) (tty_dev t) \<Longrightarrow> length buf = 2 \<Longrightarrow> \<not> is_choice (buf ! 0) \<Longrightarrow>
    \<exists>t'. choose_loop b p out buf t = Some (Ret (c, t')) \<and> I rest (tty_dev t')"
proof (induction "length ds" arbitrary: ds t buf rule: less_induct)
  case less
  have two: "0 < unat (2 :: u32)" "unat (2 :: u32) \<le> length buf" "unat (2 :: u32) - 1 = 1" using less.prems(3) by simp_all
  obtain r cs where r: "line_edit 1 [] (ds @ c # rest) = Some (r, cs)"
    and w: "r = [c] \<and> cs = rest \<or> (\<exists>ds'. cs = ds' @ c # rest \<and> length ds' < length ds \<and> set ds' \<subseteq> set ds \<and> (r = [] \<or> (\<exists>d. r = [d] \<and> \<not> is_choice d)))"
    using line_edit_choice [OF c less.prems(1), of rest] by blast
  obtain buf' t' where t': "tty_read b p out 2 buf t = Some (Ret ((of_nat (length r), buf'), t'))" "length buf' = 2"
    "take (Suc (length r)) buf' = r @ [0]" "I cs (tty_dev t')"
    using tty_read_ok [OF u two(1,2) _ less.prems(2)] r two(3) less.prems(3) by metis
  have b0: "buf' ! 0 = (if r = [] then 0 else hd r)" using t'(2,3) by (cases buf'; cases r) auto
  have st: "choose_loop b p out buf t = choose_loop b p out buf' t'"
    using less.prems(4) t'(1) by (subst choose_loop.simps) simp
  show ?case
  proof (cases "r = [c] \<and> cs = rest")
    case True
    then show ?thesis using st b0 t'(4) c by (auto simp: choose_loop.simps [of b p out buf'])
  next
    case False
    then obtain ds' where d: "cs = ds' @ c # rest" "length ds' < length ds" "set ds' \<subseteq> set ds" "r = [] \<or> (\<exists>d. r = [d] \<and> \<not> is_choice d)"
      using w by blast
    have "\<not> is_choice (buf' ! 0)" using b0 d(4) by (auto simp: chr_def)
    then show ?thesis using less.hyps [OF d(2), of t' buf'] less.prems(1) d(1,3) t'(2,4) st by auto
  qed
qed

section \<open>Page tables\<close>

lemma satp_root: "push_bit 12 (drop_bit 12 (frame_addr i) OR push_bit 31 1) = frame_addr i"
proof -
  have f: "frame_addr i = push_bit 12 (of_nat (0x80004 + i))" by (simp add: frame_addr_page push_bit_eq_mult)
  have z: "push_bit 12 (push_bit 31 1 :: u32) = 0" by simp
  have "push_bit 12 (drop_bit 12 (push_bit 12 w)) = push_bit 12 w" for w :: u32 by (rule bit_word_eqI) (auto simp: bit_simps)
  then show ?thesis unfolding push_bit_or z f by simp
qed

text \<open>
  C35: mmu_init with page tables. When a 0 is typed before any 1, mmu_init returns, the characters after it
  are not read, page tables are chosen, and the page tables that satp points to translate exactly the
  addresses of the CLINT, the UART, the SPI controller, the ROM, the disk image and the two memories, each to
  itself with the permissions to read, write and execute; other addresses have no translation.
\<close>

theorem mmu_init_identity:
  assumes "on_qemu (bt_earth s)" "length (table (bt_earth s)) = 256" "15 \<le> nfree (bt_earth s)" "length (pid_to_pagetable_base (bt_tables s)) = 32"
    and "uart_types b (platform (bt_earth s)) out I" "I (ds @ chr CHR ''0'' # rest) (tty_dev (bt_tty s))" "\<forall>d\<in>set ds. \<not> is_choice d"
  shows "\<exists>s'. mmu_init b out junk s = Some (Ret ((), s')) \<and> I rest (tty_dev (bt_tty s')) \<and>
    translation (bt_earth s') = PAGE_TABLE \<and> bit (satp (bt_csrs s')) 31 \<and>
    (\<forall>va. sv32 (mem (bt_earth s')) (push_bit 12 (satp (bt_csrs s'))) va =
      (if identity_mapped (platform (bt_earth s)) va then Some (unat va, 0xF) else None))"
proof -
  let ?p = "platform (bt_earth s)"
  obtain t' where t': "choose_01 b ?p out junk (bt_tty s) = Some (Ret (chr CHR ''0'', t'))" "I rest (tty_dev t')"
    using choose_ok [OF assms(5) _ assms(7,6), of "[0, junk]"] by (auto simp: choose_01_def chr_def)
  let ?e = "(paging_init (bt_earth s))\<lparr>translation := PAGE_TABLE\<rparr>"
  have e: "on_qemu ?e" "length (table ?e) = 256" "15 \<le> nfree ?e" "platform ?e = ?p"
    using assms(1-3) by (simp_all add: on_qemu_def paging_init_def nfree_def)
  obtain e' pt where m: "pagetable_identity_mapping 0 (?e, bt_tables s) = Ret (e', pt)"
    and v: "\<And>va. sv32 (mem e') (pt_root pt) va = (if identity_mapped ?p va then Some (unat va, 0xF) else None)"
    and tr: "translation e' = PAGE_TABLE" and root: "\<exists>i. pt_root pt = frame_addr i"
    using pagetable_identity_ok [OF e(1-3), of 0 "bt_tables s"] assms(4) e(4) by (auto simp: owp_iff)
  have p: "?p \<noteq> ARTY" using assms(1) by (simp add: on_qemu_def)
  let ?satp = "drop_bit 12 (pt_root pt) OR push_bit 31 1"
  have "push_bit 12 ?satp = pt_root pt" using root satp_root by auto
  moreover have "bit ?satp 31" by (simp add: bit_simps)
  moreover have "mmu_init b out junk s = Some (Ret ((), s\<lparr>bt_tty := t', bt_earth := e', bt_tables := pt,
      bt_csrs := (bt_csrs s)\<lparr>pmpaddr0 := 0x40000000, pmpcfg0 := 0xF, satp := ?satp\<rparr>\<rparr>))"
    using p t'(1) m by (simp add: mmu_init_def dbind_def on_boot_def set_csrs_def boot_platform_def on_tty_def paging_init_def dret_def)
  ultimately show ?thesis using v tr t'(2) by simp
qed

definition demo_boot :: "(byte list \<times> byte list, unit) boot" where
  "demo_boot = \<lparr>bt_tty = \<lparr>tty_c = 0, is_reading = False, tty_dev = (chars ''x0q'', [])\<rparr>,
     bt_earth = \<lparr>mem = (\<lambda>_. 0), platform = QEMU_LATEST, translation = SOFT_TLB, table = replicate 256 zero_mapping, curr_vm_pid = - 1,
       cache_slots = [], rands = (\<lambda>_. 0), dev = (), disk_read = (\<lambda>_ _ d. Ret (0, [], d)), disk_write = (\<lambda>_ _ _ d. Ret (0, d)),
       timer_reset = (\<lambda>d. (0, d)), tty_recv_intr = (\<lambda>d. (0, d))\<rparr>,
     bt_tables = \<lparr>pt_root = 0, pt_leaf = 0, pid_to_pagetable_base = replicate 32 0\<rparr>,
     bt_csrs = \<lparr>mtvec = 0, mie = 0, mstatus = 0, satp = 0, pmpaddr0 = 0, pmpcfg0 = 0, boot_mepc = 0\<rparr>,
     bt_type = SD_CARD, bt_sd = SD_TYPE_UNKNOWN, bt_quantum = 0\<rparr>"

theorem mmu_init_identity_witness:
  "\<exists>s'. mmu_init demo_uart (tty_write demo_uart QEMU_LATEST) 0xFF demo_boot = Some (Ret ((), s')) \<and> fst (tty_dev (bt_tty s')) = chars ''q'' \<and>
    sv32 (mem (bt_earth s')) (push_bit 12 (satp (bt_csrs s'))) 0x80002000 = Some (0x80002000, 0xF) \<and>
    sv32 (mem (bt_earth s')) (push_bit 12 (satp (bt_csrs s'))) 0 = None"
proof -
  have "on_qemu (bt_earth demo_boot)" "length (table (bt_earth demo_boot)) = 256" "15 \<le> nfree (bt_earth demo_boot)"
    "length (pid_to_pagetable_base (bt_tables demo_boot)) = 32" and p: "platform (bt_earth demo_boot) = QEMU_LATEST"
    by (simp_all add: demo_boot_def on_qemu_def nfree_def zero_mapping_def)
  moreover have "uart_types demo_uart (platform (bt_earth demo_boot)) (tty_write demo_uart QEMU_LATEST) (\<lambda>cs d. fst d = cs)"
    unfolding p by (rule demo_uart_types)
  moreover have "fst (tty_dev (bt_tty demo_boot)) = chars ''x'' @ chr CHR ''0'' # chars ''q''" "\<forall>d\<in>set (chars ''x''). \<not> is_choice d"
    by (simp_all add: demo_boot_def chr_def)
  ultimately obtain s' where "mmu_init demo_uart (tty_write demo_uart QEMU_LATEST) 0xFF demo_boot = Some (Ret ((), s'))"
    "fst (tty_dev (bt_tty s')) = chars ''q''"
    "\<forall>va. sv32 (mem (bt_earth s')) (push_bit 12 (satp (bt_csrs s'))) va = (if identity_mapped QEMU_LATEST va then Some (unat va, 0xF) else None)"
    using mmu_init_identity [of demo_boot demo_uart "tty_write demo_uart QEMU_LATEST" "\<lambda>cs d. fst d = cs" "chars ''x''" "chars ''q''" "0xFF"] unfolding p by blast
  moreover have "identity_mapped QEMU_LATEST 0x80002000" "\<not> identity_mapped QEMU_LATEST 0"
    by (simp_all add: identity_mapped_def identity_regions_def layout_defs upt_rec)
  ultimately show ?thesis by auto
qed

end
