(* ===== verification/Treedisk.thy ===== *)
theory Treedisk
  imports Inode_Store
begin

text \<open>
  The tree file system of library/file/file.c: each inode is a tree of blocks whose branching
  factor is REFS_PER_BLOCK, unused blocks are on a linked free list, and the whole lives in one
  inode of an inode store below. One definition per function of the file, loops as recursion,
  panic as Fatal, a status of -1 as None or -1.
\<close>

section \<open>State\<close>

text \<open>
  \<open>stack_junk\<close> is no field of the struct: it is the indeterminate contents of the block-sized
  local variables before their first write. The pointer \<open>inode\<close> of a snapshot points into its
  inode block and is the index of the inode there.
\<close>

record 'd treedisk_state =
  below :: "'d inode_store"
  below_ino :: u32
  ninodes :: u32
  stack_junk :: block

record treedisk_snapshot =
  superblock :: block
  inodeblock :: block
  inode_blockno :: block_no
  inode :: nat

abbreviation n_inodeblocks :: "block \<Rightarrow> u32" where
  "n_inodeblocks sb \<equiv> get_ref sb 0"

abbreviation free_list :: "block \<Rightarrow> block_no" where
  "free_list sb \<equiv> get_ref sb (Suc 0)"

definition inode_root :: "treedisk_snapshot \<Rightarrow> block_no" where
  "inode_root s = get_ref (inodeblock s) (2 * inode s)"

definition inode_nblocks :: "treedisk_snapshot \<Rightarrow> block_no" where
  "inode_nblocks s = get_ref (inodeblock s) (2 * inode s + 1)"

definition set_inode_root :: "treedisk_snapshot \<Rightarrow> block_no \<Rightarrow> treedisk_snapshot" where
  "set_inode_root s b = s\<lparr>inodeblock := set_ref (inodeblock s) (2 * inode s) b\<rparr>"

definition set_inode_nblocks :: "treedisk_snapshot \<Rightarrow> block_no \<Rightarrow> treedisk_snapshot" where
  "set_inode_nblocks s n = s\<lparr>inodeblock := set_ref (inodeblock s) (2 * inode s + 1) n\<rparr>"

section \<open>Levels of the tree\<close>

text \<open>The do-while loop of treedisk_init that computes log2(REFS_PER_BLOCK).\<close>

function log_rpb_loop :: "nat \<Rightarrow> nat" where
  "log_rpb_loop n = (if drop_bit (n + 1) (REFS_PER_BLOCK - 1) \<noteq> 0
                     then log_rpb_loop (n + 1) else n + 1)"
  by pat_completeness auto
termination
proof (relation "measure (\<lambda>n. 7 - n)", goal_cases)
  case (2 n)
  have "n < 7"
  proof (rule ccontr)
    assume "\<not> n < 7"
    then have "(2::nat) ^ 7 \<le> 2 ^ (n + 1)" by (intro power_increasing) auto
    then have "drop_bit (n + 1) (REFS_PER_BLOCK - 1) = 0"
      by (simp add: drop_bit_eq_div)
    with 2 show False by contradiction
  qed
  then show ?case by simp
qed simp

declare log_rpb_loop.simps [simp del]

definition log_rpb :: nat where
  "log_rpb = log_rpb_loop 0"

lemma log_rpb [simp]: "log_rpb = 7"
  by (simp add: log_rpb_def log_rpb_loop.simps drop_bit_eq_div)

definition log_shift_r :: "block_no \<Rightarrow> nat \<Rightarrow> block_no" where
  "log_shift_r x nbits = (if 32 \<le> nbits then 0 else drop_bit nbits x)"

lemma unat_log_shift_r: "unat (log_shift_r x n) = unat x div 2 ^ n"
proof (cases "32 \<le> n")
  case True
  have "unat x < 2 ^ 32" by (rule unat_u32_bound)
  also have "(2::nat) ^ 32 \<le> 2 ^ n" using True by (intro power_increasing) auto
  finally show ?thesis using True by (simp add: log_shift_r_def)
next
  case False
  have "unat (drop_bit n x) = drop_bit n (unat x)" by (rule unat_drop_bit_eq)
  also have "\<dots> = unat x div 2 ^ n" by (rule drop_bit_eq_div)
  finally show ?thesis using False by (simp add: log_shift_r_def)
qed

text \<open>The loops that compute the number of levels needed for block number \<open>x\<close>.\<close>

function count_levels :: "block_no \<Rightarrow> nat \<Rightarrow> nat" where
  "count_levels x nlevels = (if log_shift_r x (nlevels * log_rpb) \<noteq> 0
                             then count_levels x (nlevels + 1) else nlevels)"
  by pat_completeness auto
termination
proof (relation "measure (\<lambda>(x, n). 5 - n)", goal_cases)
  case (2 x n)
  then show ?case by (cases "n < 5") (auto simp: log_shift_r_def)
qed simp

declare count_levels.simps [simp del]

definition file_levels :: "block_no \<Rightarrow> nat" where
  "file_levels nblocks = (if nblocks > 0 then count_levels (nblocks - 1) 0 else 0)"

definition ref_index :: "block_no \<Rightarrow> nat \<Rightarrow> nat" where
  "ref_index offset nlevels = unat (log_shift_r offset (nlevels * log_rpb)) mod REFS_PER_BLOCK"

section \<open>Snapshots and allocation\<close>

definition treedisk_get_snapshot ::
  "'d treedisk_state \<Rightarrow> u32 \<Rightarrow> 'd \<Rightarrow> (treedisk_snapshot option \<times> 'd) outcome" where
  "treedisk_get_snapshot ts inode_no d =
     obind (st_read (below ts) (below_ino ts) 0 (stack_junk ts) d) (\<lambda>(r, sb, d).
     if r < 0 then Ret (None, d)
     else if inode_no \<ge> n_inodeblocks sb * of_nat INODES_PER_BLOCK then Ret (None, d)
     else let bno = 1 + inode_no div of_nat INODES_PER_BLOCK in
     obind (st_read (below ts) (below_ino ts) bno (stack_junk ts) d) (\<lambda>(r, ib, d).
     if r < 0 then Ret (None, d)
     else Ret (Some \<lparr>superblock = sb, inodeblock = ib, inode_blockno = bno,
                     inode = unat (inode_no mod of_nat INODES_PER_BLOCK)\<rparr>, d)))"

text \<open>for (i = REFS_PER_BLOCK; --i > 0;) if (refs[i] != 0) break;\<close>

fun scan_refs :: "block \<Rightarrow> nat \<Rightarrow> nat" where
  "scan_refs freelistblock 0 = 0"
| "scan_refs freelistblock (Suc i) =
     (if get_ref freelistblock (Suc i) \<noteq> 0 then Suc i else scan_refs freelistblock i)"

definition treedisk_alloc_block ::
  "'d treedisk_state \<Rightarrow> treedisk_snapshot \<Rightarrow> 'd
     \<Rightarrow> (block_no \<times> treedisk_snapshot \<times> 'd) outcome" where
  "treedisk_alloc_block ts snapshot d =
     (let b = free_list (superblock snapshot) in
      if b = 0 then Fatal ''treedisk_alloc_block: inode store is full'' else
      obind (st_read (below ts) (below_ino ts) b (stack_junk ts) d) (\<lambda>(_, freelistblock, d).
      let i = scan_refs freelistblock (REFS_PER_BLOCK - 1) in
      if i = 0 then
        let snapshot = snapshot\<lparr>superblock :=
              set_ref (superblock snapshot) (Suc 0) (get_ref freelistblock 0)\<rparr> in
        obind (st_write (below ts) (below_ino ts) 0 (superblock snapshot) d) (\<lambda>(r, d).
        if r < 0 then Fatal ''treedisk_alloc_block: superblock''
        else Ret (b, snapshot, d))
      else
        obind (st_write (below ts) (below_ino ts) b (set_ref freelistblock i 0) d) (\<lambda>(r, d).
        if r < 0 then Fatal ''treedisk_alloc_block: freelistblock''
        else Ret (get_ref freelistblock i, snapshot, d))))"

section \<open>The methods of the file system\<close>

definition treedisk_getsize :: "'d treedisk_state \<Rightarrow> u32 \<Rightarrow> 'd \<Rightarrow> (int \<times> 'd) outcome" where
  "treedisk_getsize ts ino d =
     obind (treedisk_get_snapshot ts ino d) (\<lambda>(snapshot, d).
     case snapshot of None \<Rightarrow> Ret (- 1, d) | Some s \<Rightarrow> Ret (sint (inode_nblocks s), d))"

definition treedisk_setsize ::
  "'d treedisk_state \<Rightarrow> u32 \<Rightarrow> block_no \<Rightarrow> 'd \<Rightarrow> (int \<times> 'd) outcome" where
  "treedisk_setsize ts ino nblocks d = Ret (- 1, d)"

text \<open>The walk down from the root block in treedisk_read.\<close>

fun read_walk ::
  "'d treedisk_state \<Rightarrow> block_no \<Rightarrow> nat \<Rightarrow> block_no \<Rightarrow> block \<Rightarrow> 'd
     \<Rightarrow> (int \<times> block \<times> 'd) outcome" where
  "read_walk ts offset nlevels b block d =
     (if b = 0 then Ret (0, null_block, d)
      else obind (st_read (below ts) (below_ino ts) b block d) (\<lambda>(result, block, d).
      if result < 0 then Ret (result, block, d)
      else case nlevels of
        0 \<Rightarrow> Ret (0, block, d)
      | Suc n \<Rightarrow> read_walk ts offset n (get_ref block (ref_index offset n)) block d))"

declare read_walk.simps [simp del]

definition treedisk_read ::
  "'d treedisk_state \<Rightarrow> u32 \<Rightarrow> block_no \<Rightarrow> block \<Rightarrow> 'd \<Rightarrow> (int \<times> block \<times> 'd) outcome" where
  "treedisk_read ts ino offset block d =
     obind (treedisk_get_snapshot ts ino d) (\<lambda>(snapshot, d).
     case snapshot of None \<Rightarrow> Ret (- 1, block, d)
     | Some s \<Rightarrow>
         if offset \<ge> inode_nblocks s then Ret (- 1, block, d)
         else read_walk ts offset (file_levels (inode_nblocks s)) (inode_root s) block d)"

text \<open>The loop of treedisk_write that adds \<open>k\<close> levels above the root.\<close>

fun grow_levels ::
  "'d treedisk_state \<Rightarrow> nat \<Rightarrow> treedisk_snapshot \<Rightarrow> 'd \<Rightarrow> (treedisk_snapshot \<times> 'd) outcome" where
  "grow_levels ts 0 snapshot d = Ret (snapshot, d)"
| "grow_levels ts (Suc k) snapshot d =
     obind (treedisk_alloc_block ts snapshot d) (\<lambda>(indir, snapshot, d).
     let tib = set_ref null_block 0 (inode_root snapshot);
         snapshot = set_inode_root snapshot indir in
     obind (st_write (below ts) (below_ino ts) indir tib d) (\<lambda>(r, d).
     if r < 0 then Fatal ''treedisk_write: indirect block''
     else grow_levels ts k snapshot d))"

text \<open>
  The last loop of treedisk_write. \<open>parent_no\<close> is a pointer to a field of the parent block in
  memory, here the number of that field; \<open>parent_off\<close> is where the parent block lives.
\<close>

fun write_walk ::
  "'d treedisk_state \<Rightarrow> block_no \<Rightarrow> nat \<Rightarrow> treedisk_snapshot \<Rightarrow> block_no \<Rightarrow> block \<Rightarrow> nat \<Rightarrow> 'd
     \<Rightarrow> (block_no \<times> treedisk_snapshot \<times> 'd) outcome" where
  "write_walk ts offset nlevels snapshot parent_off parent_block parent_no d =
     (let b = get_ref parent_block parent_no in
      if b = 0 then
        obind (treedisk_alloc_block ts snapshot d) (\<lambda>(b, snapshot, d).
        obind (st_write (below ts) (below_ino ts) parent_off
                 (set_ref parent_block parent_no b) d) (\<lambda>(r, d).
        if r < 0 then Fatal ''treedisk_write: parent''
        else case nlevels of
          0 \<Rightarrow> Ret (b, snapshot, d)
        | Suc n \<Rightarrow> write_walk ts offset n snapshot b null_block (ref_index offset n) d))
      else case nlevels of
          0 \<Rightarrow> Ret (b, snapshot, d)
        | Suc n \<Rightarrow>
            obind (st_read (below ts) (below_ino ts) b (stack_junk ts) d) (\<lambda>(r, tib, d).
            if r < 0 then Fatal ''treedisk_write''
            else write_walk ts offset n snapshot b tib (ref_index offset n) d))"

declare write_walk.simps [simp del]

definition treedisk_write ::
  "'d treedisk_state \<Rightarrow> u32 \<Rightarrow> block_no \<Rightarrow> block \<Rightarrow> 'd \<Rightarrow> (int \<times> 'd) outcome" where
  "treedisk_write ts ino offset block d =
     obind (treedisk_get_snapshot ts ino d) (\<lambda>(snapshot, d).
     case snapshot of None \<Rightarrow> Ret (- 1, d)
     | Some s \<Rightarrow>
         let nlevels = file_levels (inode_nblocks s);
             beyond = (offset \<ge> inode_nblocks s);
             s = (if beyond then set_inode_nblocks s (offset + 1) else s);
             nlevels_after = (if beyond then count_levels offset 0 else nlevels);
             empty = (inode_nblocks s = 0);
             grow = (\<not> empty \<and> nlevels_after > nlevels);
             dirty_inode = (beyond \<or> grow) in
         obind (grow_levels ts (if grow then nlevels_after - nlevels else 0) s d) (\<lambda>(s, d).
         obind (if dirty_inode
                then st_write (below ts) (below_ino ts) (inode_blockno s) (inodeblock s) d
                else Ret (0, d)) (\<lambda>(r, d).
         if r < 0 then Fatal ''treedisk_write: inode block'' else
         obind (write_walk ts offset (if empty \<or> grow then nlevels_after else nlevels)
                  s (inode_blockno s) (inodeblock s) (2 * inode s) d) (\<lambda>(b, s, d).
         obind (st_write (below ts) (below_ino ts) b block d) (\<lambda>(r, d).
         if r < 0 then Fatal ''treedisk_write: data block''
         else Ret (0, d))))))"

definition treedisk_init :: "'d inode_store \<Rightarrow> u32 \<Rightarrow> block \<Rightarrow> 'd inode_store" where
  "treedisk_init below_store below_inode junk =
     (let ts = \<lparr>below = below_store, below_ino = below_inode, ninodes = 0, stack_junk = junk\<rparr> in
      \<lparr>st_getsize = treedisk_getsize ts, st_setsize = treedisk_setsize ts,
       st_read = treedisk_read ts, st_write = treedisk_write ts\<rparr>)"

section \<open>Creating a file system\<close>

text \<open>The two inner loops of setup_freelist: references to free blocks, then zeros.\<close>

function fill_refs :: "nat \<Rightarrow> block_no \<Rightarrow> block_no \<Rightarrow> block \<Rightarrow> nat \<times> block_no \<times> block" where
  "fill_refs i next_free nblocks data =
     (if i < REFS_PER_BLOCK \<and> next_free < nblocks
      then fill_refs (i + 1) (next_free + 1) nblocks (set_ref data i next_free)
      else (i, next_free, data))"
  by pat_completeness auto
termination
  by (relation "measure (\<lambda>(i, nf, nb, data). REFS_PER_BLOCK - i)") auto

declare fill_refs.simps [simp del]

function zero_refs :: "nat \<Rightarrow> block \<Rightarrow> block" where
  "zero_refs i data = (if i < REFS_PER_BLOCK then zero_refs (i + 1) (set_ref data i 0) else data)"
  by pat_completeness auto
termination
  by (relation "measure (\<lambda>(i, data). REFS_PER_BLOCK - i)") auto

declare zero_refs.simps [simp del]

lemma fill_refs_next:
  "fill_refs i nf nb data = (i', nf', data') \<Longrightarrow> unat nf \<le> unat nf'"
proof (induction i nf nb data rule: fill_refs.induct)
  case (1 i nf nb data)
  show ?case
  proof (cases "i < REFS_PER_BLOCK \<and> nf < nb")
    case True
    with "1.prems" have "fill_refs (i + 1) (nf + 1) nb (set_ref data i nf) = (i', nf', data')"
      by (subst (asm) fill_refs.simps) simp
    with True "1.IH" have "unat (nf + 1) \<le> unat nf'" by blast
    with True unat_plus1_less [of nf nb] show ?thesis by simp
  next
    case False
    with "1.prems" show ?thesis by (subst (asm) fill_refs.simps) auto
  qed
qed

function setup_freelist ::
  "'d inode_store \<Rightarrow> u32 \<Rightarrow> block_no \<Rightarrow> block_no \<Rightarrow> block_no \<Rightarrow> block \<Rightarrow> 'd
     \<Rightarrow> (block_no \<times> 'd) outcome" where
  "setup_freelist bs bino freelist_block next_free nblocks data d =
     (if next_free < nblocks then
        let data = set_ref data 0 freelist_block;
            freelist_block = next_free;
            (i, next_free, data) = fill_refs 1 (next_free + 1) nblocks data;
            data = zero_refs i data in
        obind (st_write bs bino freelist_block data d) (\<lambda>(r, d).
        if r < 0 then Fatal ''treedisk_setup_freelist''
        else setup_freelist bs bino freelist_block next_free nblocks data d)
      else Ret (freelist_block, d))"
  by pat_completeness auto
termination
proof (relation "measure (\<lambda>(bs, bino, fb, nf, nb, data, d). unat nb - unat nf)", goal_cases)
  case (2 bs bino fb nf nb data d data1 fb1 x i y nf1 data2 data3 z r d1)
  from 2(1) have "unat (nf + 1) = unat nf + 1" by (rule unat_plus1_less)
  moreover have "unat (nf + 1) \<le> unat nf1"
    using 2 fill_refs_next [of 1 "nf + 1" nb data1 i nf1 data2] by auto
  ultimately show ?case using 2(1) by (auto simp: word_less_nat_alt)
qed simp

declare setup_freelist.simps [simp del]

text \<open>The loop of treedisk_create that clears the inode blocks, from block \<open>i\<close> on.\<close>

fun clear_inodeblocks :: "'d inode_store \<Rightarrow> u32 \<Rightarrow> nat \<Rightarrow> block_no \<Rightarrow> 'd \<Rightarrow> (int \<times> 'd) outcome" where
  "clear_inodeblocks bs bino 0 i d = Ret (0, d)"
| "clear_inodeblocks bs bino (Suc k) i d =
     obind (st_write bs bino i null_block d) (\<lambda>(r, d).
     if r < 0 then Ret (- 1, d) else clear_inodeblocks bs bino k (i + 1) d)"

text \<open>
  The check that union treedisk_block has the size of a block is decided at compile time and
  passes; \<open>junk\<close> is the contents of the uninitialised local blocks.
\<close>

definition treedisk_create ::
  "'d inode_store \<Rightarrow> u32 \<Rightarrow> u32 \<Rightarrow> block \<Rightarrow> 'd \<Rightarrow> (int \<times> 'd) outcome" where
  "treedisk_create bs bino nino junk d =
     (let n_inodeblks = (nino + of_nat INODES_PER_BLOCK - 1) div of_nat INODES_PER_BLOCK in
      obind (st_getsize bs bino d) (\<lambda>(size, d).
      let nblocks = (of_int size :: u32) in
      if nblocks < n_inodeblks + 2 then Ret (- 1, d) else
      obind (st_read bs bino 0 junk d) (\<lambda>(r, sb, d).
      if r < 0 then Ret (- 1, d)
      else if n_inodeblocks sb = 0 then
        let sb = set_ref null_block 0 n_inodeblks in
        obind (setup_freelist bs bino 0 (n_inodeblks + 1) nblocks junk d) (\<lambda>(fl, d).
        obind (st_write bs bino 0 (set_ref sb (Suc 0) fl) d) (\<lambda>(r, d).
        if r < 0 then Ret (- 1, d)
        else clear_inodeblocks bs bino (unat n_inodeblks) 1 d))
      else Ret (0, d))))"

end
