(* ===== verification/Servers.thy ===== *)
theory Servers
  imports Io Treedisk
begin

text \<open>
  The client functions of library/servers/servers.c, the file server apps/system/sys_file.c and the
  directory server apps/system/sys_dir.c. A server is the program of its initialisation and the
  program of one round of its loop.
\<close>

section \<open>Requests and replies\<close>

text \<open>The enumerations of library/servers/servers.h, as they are stored in messages.\<close>

definition FILE_READ :: u32 where "FILE_READ = 1"
definition FILE_OK :: u32 where "FILE_OK = 0"
definition FILE_ERROR :: u32 where "FILE_ERROR = 1"
definition DIR_LOOKUP :: u32 where "DIR_LOOKUP = 1"
definition DIR_OK :: u32 where "DIR_OK = 0"
definition DIR_ERROR :: u32 where "DIR_ERROR = 1"

definition file_request :: "u32 \<Rightarrow> u32 \<Rightarrow> u32 \<Rightarrow> block \<Rightarrow> byte list" where
  "file_request type ino offset blk = word_bytes type @ word_bytes ino @ word_bytes offset @ blk"

definition file_reply :: "u32 \<Rightarrow> block \<Rightarrow> byte list" where
  "file_reply status blk = word_bytes status @ blk"

definition dir_request :: "u32 \<Rightarrow> u32 \<Rightarrow> byte list \<Rightarrow> byte list" where
  "dir_request type ino name = word_bytes type @ word_bytes ino @ name"

definition dir_reply :: "u32 \<Rightarrow> u32 \<Rightarrow> byte list" where
  "dir_reply status ino = word_bytes status @ word_bytes ino"

section \<open>Client functions\<close>

text \<open>
  The request is a local variable: \<open>junk\<close> is what its array holds before, the rest of the name
  or the unused block.
\<close>

definition dir_lookup :: "byte list \<Rightarrow> int \<Rightarrow> byte list \<Rightarrow> ('s, int) io" where
  "dir_lookup junk dir_ino name =
     ibind (pure (strcpy junk name)) (\<lambda>req_name.
     ibind (sys_send GPID_DIR (dir_request DIR_LOOKUP (of_int dir_ino) req_name)) (\<lambda>_.
     ibind (sys_recv SYSCALL_MSG_LEN) (\<lambda>(sender, buf).
     if sender \<noteq> GPID_DIR then Stop ''dir_lookup: an error occurred''
     else Done (if field32 buf 0 = DIR_OK then sint (field32 buf 4) else - 1))))"

definition file_read :: "block \<Rightarrow> int \<Rightarrow> u32 \<Rightarrow> ('s, int \<times> block) io" where
  "file_read junk file_ino offset =
     ibind (sys_send GPID_FILE (file_request FILE_READ (of_int file_ino) offset junk)) (\<lambda>_.
     ibind (sys_recv SYSCALL_MSG_LEN) (\<lambda>(sender, buf).
     if sender \<noteq> GPID_FILE then Stop ''file_read: an error occurred''
     else Done (if field32 buf 0 = FILE_OK then 0 else - 1, take BLOCK_SIZE (drop 4 buf))))"

section \<open>Start of the servers\<close>

text \<open>
  What the two servers do before their loops: each tells the process server that it is ready. The size of
  the message includes the zero at its end. The interface that treedisk_init returns to the file server is the argument
  \<open>fs\<close> of its round.
\<close>

definition sys_file_start :: "('s, unit) io" where
  "sys_file_start = ibind (sys_send GPID_PROCESS (chars ''Finish GPID_FILE initialization'' @ [0])) (\<lambda>_. Done ())"

definition sys_dir_start :: "('s, unit) io" where
  "sys_dir_start = ibind (sys_send GPID_PROCESS (chars ''Finish GPID_DIR initialization'' @ [0])) (\<lambda>_. Done ())"

section \<open>The file server\<close>

text \<open>
  One round of the loop. The reply overlays the request in the same buffer: a read that fails leaves
  the bytes of the request in the block of the reply.
\<close>

definition sys_file_round :: "'d inode_store \<Rightarrow> ('d, unit) io" where
  "sys_file_round fs =
     ibind (sys_recv SYSCALL_MSG_LEN) (\<lambda>(sender, buf).
     if field32 buf 0 = FILE_READ then
       ibind (act (\<lambda>d. obind (st_read fs (field32 buf 4) (field32 buf 8) (take BLOCK_SIZE (drop 4 buf)) d)
          (\<lambda>(r, blk, d). Ret ((r, blk), d)))) (\<lambda>(r, blk).
       ibind (sys_send sender (file_reply (if r = 0 then FILE_OK else FILE_ERROR) blk)) (\<lambda>_. Done ()))
     else Stop ''sys_file: request not implemented'')"

section \<open>The directory server\<close>

text \<open>
  The loop of dir_do_lookup from index \<open>i\<close> on. The bound is the difference of two lengths as an
  unsigned int, so it is large when the name is longer than the directory; then the loop runs past
  the end of the buffer.
\<close>

function dir_scan :: "byte list \<Rightarrow> nat \<Rightarrow> byte list \<Rightarrow> nat \<Rightarrow> nat \<Rightarrow> int outcome" where
  "dir_scan name namelen buf bound i =
     (if i < bound then
        if length buf < i then Fatal undefined_read
        else
          obind (strncmp_eq name (drop i buf) namelen) (\<lambda>eq.
          obind (if eq then obind (at buf (i + namelen)) (\<lambda>c. Ret (c = 32)) else Ret False) (\<lambda>sp.
          obind (if sp then (if i = 0 then Ret True else obind (at buf (i - 1)) (\<lambda>c. Ret (c = 32))) else Ret False)
            (\<lambda>hit.
          if hit then atoi (drop (i + namelen) buf) else dir_scan name namelen buf bound (Suc i))))
      else Ret (- 1))"
  by auto

termination by (relation "measure (\<lambda>(_, _, buf, _, i). Suc (length buf) - i)") auto

declare dir_scan.simps [simp del]

definition dir_do_lookup :: "byte list \<Rightarrow> byte list \<Rightarrow> int outcome" where
  "dir_do_lookup buf name =
     obind (strlen name) (\<lambda>namelen.
     obind (if 0 \<in> set buf then Ret (length (cstr buf)) else Fatal undefined_read) (\<lambda>len.
     dir_scan name namelen buf (unat (of_nat len - of_nat namelen :: u32)) 0))"

definition sys_dir_round :: "block \<Rightarrow> ('s, unit) io" where
  "sys_dir_round junk =
     ibind (sys_recv SYSCALL_MSG_LEN) (\<lambda>(sender, buf).
     if field32 buf 0 = DIR_LOOKUP then
       ibind (file_read junk (sint (field32 buf 4)) 0) (\<lambda>(_, blk).
       ibind (pure (dir_do_lookup blk (drop 8 buf))) (\<lambda>ino.
       ibind (sys_send sender (dir_reply (if ino = - 1 then DIR_ERROR else DIR_OK) (of_int ino))) (\<lambda>_. Done ())))
     else Stop ''sys_dir: request not implemented'')"

end
