(* ===== verification/Shell.thy ===== *)
theory Shell
  imports Servers
begin

text \<open>
  The requests of the process server (library/servers/servers.h) and the shell
  apps/system/sys_shell.c: how it splits a command line into a request, and what it sends and waits
  for. What the shell prints is not modelled.
\<close>

section \<open>Requests to the process server\<close>

definition PROC_SPAWN :: u32 where "PROC_SPAWN = 0"
definition PROC_EXIT :: u32 where "PROC_EXIT = 1"
definition PROC_KILLALL :: u32 where "PROC_KILLALL = 2"
definition CMD_OK :: u32 where "CMD_OK = 0"
definition CMD_ERROR :: u32 where "CMD_ERROR = 1"

text \<open>\<open>argv\<close> is the array of arrays as one list of bytes.\<close>

record proc_request =
  req_type :: u32
  req_argc :: u32
  req_argv :: "byte list"

definition proc_request_bytes :: "proc_request \<Rightarrow> byte list" where
  "proc_request_bytes req = word_bytes (req_type req) @ word_bytes (req_argc req) @ req_argv req"

section \<open>Command lines\<close>

text \<open>
  The loop over the characters of the command line. The result is the array, and the two counters
  unless the loop returned -1.
\<close>

fun parse_loop :: "byte list \<Rightarrow> nat \<Rightarrow> nat \<Rightarrow> byte list \<Rightarrow> (byte list \<times> (nat \<times> nat) option) outcome" where
  "parse_loop [] idx nargs argv = Ret (argv, Some (idx, nargs))"
| "parse_loop (c # cs) idx nargs argv =
     (if c \<noteq> chr CHR '' '' then
        obind (put argv (nargs * CMD_ARG_LEN + idx) c) (\<lambda>argv.
        if idx + 1 \<ge> CMD_ARG_LEN then Ret (argv, None) else parse_loop cs (idx + 1) nargs argv)
      else if idx \<noteq> 0 then
        obind (put argv (nargs * CMD_ARG_LEN + idx) 0) (\<lambda>argv.
        if nargs + 1 \<ge> CMD_NARGS then Ret (argv, None) else parse_loop cs 0 (nargs + 1) argv)
      else parse_loop cs idx nargs argv)"

definition parse_request :: "byte list \<Rightarrow> proc_request \<Rightarrow> (int \<times> proc_request) outcome" where
  "parse_request buf req =
     obind (strlen buf) (\<lambda>_.
     obind (parse_loop (cstr buf) 0 0 (replicate (CMD_NARGS * CMD_ARG_LEN) 0)) (\<lambda>(argv, r).
     case r of
       None \<Rightarrow> Ret (- 1, req\<lparr>req_argv := argv\<rparr>)
     | Some (idx, nargs) \<Rightarrow>
         Ret (0, req\<lparr>req_argv := argv, req_argc := of_nat (if idx \<noteq> 0 then nargs + 1 else nargs)\<rparr>)))"

section \<open>The shell\<close>

text \<open>
  \<open>req.argv[req.argc - 1][0]\<close>: the first character of the last argument. Without an argument the
  index is outside the array.
\<close>

definition last_arg_char :: "u32 \<Rightarrow> byte list \<Rightarrow> byte outcome" where
  "last_arg_char argc argv =
     (if 0 < sint argc then at argv ((nat (sint argc) - 1) * CMD_ARG_LEN) else Fatal undefined_read)"

text \<open>
  What one round of the loop does before it asks for the next command, where \<open>req\<close> is what the
  uninitialised struct holds.
\<close>

definition shell_command :: "proc_request \<Rightarrow> byte list \<Rightarrow> ('s, unit) io" where
  "shell_command req buf =
     ibind (pure (strcmp_eq buf (chars ''killall'' @ [0]))) (\<lambda>killall.
     if killall then
       ibind (sys_send GPID_PROCESS (proc_request_bytes (req\<lparr>req_type := PROC_KILLALL\<rparr>))) (\<lambda>_. Done ())
     else
       ibind (pure (parse_request buf (req\<lparr>req_type := PROC_SPAWN\<rparr>))) (\<lambda>(r, req).
       if r \<noteq> 0 then Done ()
       else
         ibind (sys_send GPID_PROCESS (proc_request_bytes req)) (\<lambda>_.
         ibind (sys_recv sizeof_proc_reply) (\<lambda>(_, reply).
         if field32 reply 0 \<noteq> CMD_OK then Done ()
         else
           ibind (pure (last_arg_char (req_argc req) (req_argv req))) (\<lambda>c.
           if c \<noteq> chr CHR ''&'' then ibind (sys_recv sizeof_proc_reply) (\<lambda>_. Done ())
           else Done ())))))"

text \<open>
  The shell alternates between a command and the prompt, which it repeats until tty_read returns a
  number other than 0; \<open>tty\<close> is earth->tty_read.
\<close>

datatype shell_state = Command "byte list" | Prompt "byte list"

definition shell_start :: shell_state where
  "shell_start = Command (chars ''cd'' @ replicate 254 0)"

definition sys_shell_round :: "(byte list \<Rightarrow> nat \<Rightarrow> 's \<Rightarrow> ((int \<times> byte list) \<times> 's) outcome) \<Rightarrow> proc_request \<Rightarrow>
    shell_state \<Rightarrow> ('s, shell_state) io" where
  "sys_shell_round tty req st =
     (case st of
        Command buf \<Rightarrow> ibind (shell_command req buf) (\<lambda>_. Done (Prompt buf))
      | Prompt buf \<Rightarrow> ibind (act (tty buf 256)) (\<lambda>(r, buf). Done (if r = 0 then Prompt buf else Command buf)))"

section \<open>Words of a command line\<close>

text \<open>The reference: cut the line at each space and drop the empty pieces.\<close>

fun pieces :: "byte list \<Rightarrow> byte list list" where
  "pieces [] = [[]]"
| "pieces (c # cs) = (if c = 32 then [] # pieces cs else (c # hd (pieces cs)) # tl (pieces cs))"

abbreviation nonempty :: "byte list list \<Rightarrow> byte list list" where
  "nonempty \<equiv> filter (\<lambda>w. w \<noteq> [])"

definition cmd_words :: "byte list \<Rightarrow> byte list list" where
  "cmd_words s = nonempty (pieces s)"

text \<open>The array of arguments: each word in a field of 32 bytes, filled with zeros.\<close>

definition pad_word :: "byte list \<Rightarrow> byte list" where
  "pad_word w = w @ replicate (32 - length w) 0"

definition argv_bytes :: "byte list list \<Rightarrow> byte list" where
  "argv_bytes ws = concat (map pad_word ws) @ replicate (512 - 32 * length ws) 0"

text \<open>Which lines the shell takes, in terms of the pieces.\<close>

definition pieces_fit :: "byte list list \<Rightarrow> byte list list \<Rightarrow> bool" where
  "pieces_fit ws ps \<longleftrightarrow> (\<forall>w\<in>set (ws @ ps). length w < 32) \<and>
     (length (ws @ nonempty ps) < 16 \<or> length (ws @ nonempty ps) = 16 \<and> last ps \<noteq> [])"

lemma pieces_ne [simp]: "pieces s \<noteq> []"
  by (cases s) auto

lemma length_pad [simp]: "length w \<le> 32 \<Longrightarrow> length (pad_word w) = 32"
  by (simp add: pad_word_def)

lemma length_pads: "\<forall>w\<in>set ws. length w \<le> 32 \<Longrightarrow> length (concat (map pad_word ws)) = 32 * length ws"
  by (induction ws) auto

lemma argv_bytes_Nil: "length ws < 16 \<Longrightarrow> argv_bytes (ws @ [[]]) = argv_bytes ws"
proof -
  assume "length ws < 16"
  then have "512 - 32 * length ws = 32 + (480 - 32 * length ws)" "512 - 32 * length (ws @ [[]]) = 480 - 32 * length ws"
    by simp_all
  then obtain k where "512 - 32 * length ws = 32 + k" "512 - 32 * length (ws @ [[]]) = k" by blast
  then show ?thesis unfolding argv_bytes_def by (simp only: replicate_add) (simp add: pad_word_def)
qed

lemma argv_put:
  assumes "\<forall>w\<in>set ws. length w \<le> 32" "length ws < 16" "length w < 32"
  shows "put (argv_bytes (ws @ [w])) (length ws * 32 + length w) c =
    Ret ((argv_bytes (ws @ [w]))[length ws * 32 + length w := c])"
    "(argv_bytes (ws @ [w]))[length ws * 32 + length w := c] =
      (if c = 0 then argv_bytes (ws @ [w]) else argv_bytes (ws @ [w @ [c]]))"
proof -
  let ?A = "concat (map pad_word ws)" and ?z = "replicate (512 - 32 * length (ws @ [w])) 0"
  have A: "length ?A = 32 * length ws" by (rule length_pads [OF assms(1)])
  have e: "argv_bytes (ws @ [w]) = ?A @ pad_word w @ ?z" by (simp add: argv_bytes_def)
  show "put (argv_bytes (ws @ [w])) (length ws * 32 + length w) c =
    Ret ((argv_bytes (ws @ [w]))[length ws * 32 + length w := c])"
    using assms A by (intro put_Ret) (simp add: e)
  have "(replicate (32 - length w) 0)[0 := c] = c # replicate (31 - length w) 0"
    using assms(3) by (cases "32 - length w") auto
  moreover have "(pad_word w)[length w := c] = w @ (replicate (32 - length w) 0)[0 := c]"
    by (simp add: pad_word_def list_update_append)
  ultimately have p: "(pad_word w)[length w := c] = w @ c # replicate (31 - length w) 0" by simp
  have "(pad_word w)[length w := c] = (if c = 0 then pad_word w else pad_word (w @ [c]))"
  proof (cases "c = 0")
    case True
    have "replicate (32 - length w) (0 :: byte) = 0 # replicate (31 - length w) 0"
      using assms(3) by (cases "32 - length w") auto
    then show ?thesis unfolding p by (simp add: True pad_word_def)
  next
    case False
    then show ?thesis unfolding p by (simp add: pad_word_def)
  qed
  moreover have "(argv_bytes (ws @ [w]))[length ws * 32 + length w := c] = ?A @ (pad_word w)[length w := c] @ ?z"
    using assms(3) A by (simp add: e list_update_append)
  moreover have "argv_bytes (ws @ [w @ [c]]) = ?A @ pad_word (w @ [c]) @ ?z" by (simp add: argv_bytes_def)
  ultimately show "(argv_bytes (ws @ [w]))[length ws * 32 + length w := c] =
      (if c = 0 then argv_bytes (ws @ [w]) else argv_bytes (ws @ [w @ [c]]))" by (simp add: e)
qed

text \<open>
  The loop with complete words \<open>ws\<close> behind it and the characters \<open>w\<close> of the current word.
\<close>

definition parse_post :: "bool \<Rightarrow> byte list list \<Rightarrow> byte list \<times> (nat \<times> nat) option \<Rightarrow> bool" where
  "parse_post fit W x \<longleftrightarrow> (case snd x of None \<Rightarrow> \<not> fit
     | Some (i, n) \<Rightarrow> fit \<and> fst x = argv_bytes W \<and> (if i \<noteq> 0 then n + 1 else n) = length W)"

lemma parse_loop_words:
  assumes "0 \<notin> set cs" "\<forall>v\<in>set ws. v \<noteq> [] \<and> length v < 32" "length ws < 16" "length w < 32"
  shows "owp (parse_loop cs (length w) (length ws) (argv_bytes (ws @ [w])))
    (parse_post (pieces_fit ws ((w @ hd (pieces cs)) # tl (pieces cs))) (ws @ nonempty ((w @ hd (pieces cs)) # tl (pieces cs))))"
  using assms
proof (induction cs arbitrary: w ws)
  case Nil
  then show ?case by (auto simp: pieces_fit_def argv_bytes_Nil parse_post_def)
next
  case (Cons c cs)
  have le: "\<forall>v\<in>set ws. length v \<le> 32" using Cons.prems(2) by auto
  note put = argv_put [OF le Cons.prems(3,4)]
  show ?case
  proof (cases "c = 32")
    case False
    have c: "c \<noteq> 0" "c \<noteq> chr CHR '' ''" using Cons.prems(1) False by (auto simp: chr_def)
    show ?thesis
    proof (cases "length w + 1 \<ge> 32")
      case True
      then have "\<not> pieces_fit ws ((w @ hd (pieces (c # cs))) # tl (pieces (c # cs)))"
        using False by (auto simp: pieces_fit_def)
      with True c put show ?thesis by (simp add: CMD_ARG_LEN_def parse_post_def)
    next
      case F: False
      with Cons.IH [of ws "w @ [c]"] Cons.prems c put False show ?thesis by (simp add: CMD_ARG_LEN_def)
    qed
  next
    case c: True
    show ?thesis
    proof (cases "w = []")
      case True
      have "pieces_fit ws ([] # pieces cs) = pieces_fit ws (pieces cs)" by (auto simp: pieces_fit_def)
      then show ?thesis using Cons.IH [of ws "[]"] Cons.prems True c by (simp add: chr_def)
    next
      case w: False
      have fit: "pieces_fit ws (w # pieces cs) = pieces_fit (ws @ [w]) (pieces cs)" using w by (auto simp: pieces_fit_def)
      show ?thesis
      proof (cases "length ws + 1 \<ge> 16")
        case True
        have "\<not> pieces_fit ws (w # pieces cs)"
        proof
          assume "pieces_fit ws (w # pieces cs)"
          then have f: "pieces_fit (ws @ [w]) (pieces cs)" by (simp add: fit)
          then have "length ws + length (nonempty (pieces cs)) \<le> 15" by (auto simp: pieces_fit_def)
          then have "length (nonempty (pieces cs)) = 0" using True by linarith
          then have "last (pieces cs) = []" by (simp add: filter_empty_conv)
          with f True show False by (simp add: pieces_fit_def)
        qed
        with True c w put show ?thesis by (simp add: CMD_ARG_LEN_def CMD_NARGS_def chr_def parse_post_def)
      next
        case F: False
        with Cons.IH [of "ws @ [w]" "[]"] Cons.prems w c argv_bytes_Nil [of "ws @ [w]"] put
        show ?thesis by (simp add: CMD_ARG_LEN_def CMD_NARGS_def chr_def fit)
      qed
    qed
  qed
qed

lemma last_pieces: "s \<noteq> [] \<Longrightarrow> last (pieces s) = [] \<longleftrightarrow> last s = 32"
proof (induction s)
  case (Cons c cs)
  show ?case
  proof (cases "cs = []")
    case False
    then have "pieces cs \<noteq> [[]]" by (cases cs) auto
    then have "last ((c # hd (pieces cs)) # tl (pieces cs)) = [] \<longleftrightarrow> last (pieces cs) = []"
      by (cases "pieces cs") auto
    then show ?thesis using Cons False by simp
  qed simp
qed simp

text \<open>The shell takes a line iff no word has more than 31 characters and there are at most 16, the last at the end.\<close>

definition line_fits :: "byte list \<Rightarrow> bool" where
  "line_fits s \<longleftrightarrow> (\<forall>w\<in>set (cmd_words s). length w < CMD_ARG_LEN) \<and>
     (length (cmd_words s) < CMD_NARGS \<or> length (cmd_words s) = CMD_NARGS \<and> last s \<noteq> 32)"

lemma pieces_fit_line: "pieces_fit [] (pieces s) = line_fits s"
proof (cases "s = []")
  case False
  then show ?thesis using last_pieces [OF False]
    by (auto simp: pieces_fit_def line_fits_def cmd_words_def layout_defs)
qed (simp add: pieces_fit_def line_fits_def cmd_words_def layout_defs)

lemma parse_request_words:
  assumes "0 \<notin> set s"
  shows "if line_fits s
    then parse_request (s @ 0 # rest) req =
      Ret (0, req\<lparr>req_argv := argv_bytes (cmd_words s), req_argc := of_nat (length (cmd_words s))\<rparr>)
    else \<exists>argv. parse_request (s @ 0 # rest) req = Ret (- 1, req\<lparr>req_argv := argv\<rparr>)"
proof -
  have z: "argv_bytes ([] @ [[]]) = replicate (CMD_NARGS * CMD_ARG_LEN) 0"
    using argv_bytes_Nil [of "[]"] by (simp add: argv_bytes_def layout_defs)
  have c: "cstr (s @ 0 # rest) = s" using assms unfolding cstr_def by (induction s) auto
  then have l: "strlen (s @ 0 # rest) = Ret (length s)" by (simp add: strlen_def)
  have e: "parse_request (s @ 0 # rest) req = obind (parse_loop s 0 0 (argv_bytes ([] @ [[]]))) (\<lambda>(argv, r).
     case r of None \<Rightarrow> Ret (- 1, req\<lparr>req_argv := argv\<rparr>)
     | Some (idx, nargs) \<Rightarrow>
         Ret (0, req\<lparr>req_argv := argv, req_argc := of_nat (if idx \<noteq> 0 then nargs + 1 else nargs)\<rparr>))"
    unfolding z parse_request_def c l obind.simps ..
  have "owp (parse_loop s 0 0 (argv_bytes ([] @ [[]]))) (parse_post (line_fits s) (cmd_words s))"
    using parse_loop_words [OF assms, of "[]" "[]"] by (simp add: pieces_fit_line cmd_words_def)
  then obtain argv r where "parse_loop s 0 0 (argv_bytes ([] @ [[]])) = Ret (argv, r)"
    "parse_post (line_fits s) (cmd_words s) (argv, r)" by (auto simp: owp_iff)
  then show ?thesis unfolding e by (cases r) (auto simp: parse_post_def simp del: of_nat_add of_nat_Suc)
qed

end
