(* ===== verification/Sys_Proc.thy ===== *)
theory Sys_Proc
  imports Shell Elf
begin

text \<open>
  The process server apps/system/sys_proc.c and the start of the grass layer grass/grass.c. They
  call the functions of the grass and earth interfaces, so the state outside is the kernel. What they
  print is not modelled.
\<close>

section \<open>Readers\<close>

text \<open>The two functions sys_proc_read: blocks of an executable in the disk, from block \<open>start\<close> on.\<close>

definition disk_reader :: "u32 \<Rightarrow> 'd elf_reader" where
  "disk_reader start block_no old =
     earth_do (\<lambda>e. obind (disk_read e (start + block_no) 1 (dev e)) (\<lambda>(_, bs, d). Ret (bs, e\<lparr>dev := d\<rparr>)))"

text \<open>\<open>junk\<close> is the block of the request, which file_read does not initialise.\<close>

definition app_read :: "block \<Rightarrow> int \<Rightarrow> 'd elf_reader" where
  "app_read junk app_ino off old = ibind (file_read junk app_ino off) (\<lambda>(_, blk). Done blk)"

section \<open>Exit\<close>

definition sys_exit :: "proc_request \<Rightarrow> ('s, unit) io" where
  "sys_exit req = ibind (sys_send GPID_PROCESS (proc_request_bytes (req\<lparr>req_type := PROC_EXIT\<rparr>))) (\<lambda>_. Done ())"

section \<open>Spawning\<close>

text \<open>
  What the uninitialised local variables hold: the buffer of elf_load, the name in the request of
  dir_lookup, and the block in that of file_read.
\<close>

record locals =
  elf_buf :: block
  name_buf :: "byte list"
  block_buf :: block

definition set_ready :: "int \<Rightarrow> ('d kernel, unit) io" where
  "set_ready pid = act (\<lambda>k. Ret ((), proc_set_ready pid k))"

definition sys_spawn :: "locals \<Rightarrow> u32 \<Rightarrow> ('d kernel, unit) io" where
  "sys_spawn l base =
     ibind (act proc_alloc) (\<lambda>pid.
     ibind (elf_load pid (disk_reader base) 0 None (elf_buf l)) (\<lambda>_. set_ready pid))"

text \<open>
  The static variables app_ino and app_pid, and the local shell_waiting of main. \<open>buf\<close> is the buffer
  that holds the request.
\<close>

record proc_vars =
  app_ino :: int
  app_pid :: int
  shell_waiting :: bool

definition app_spawn :: "locals \<Rightarrow> byte list \<Rightarrow> proc_vars \<Rightarrow> ('d kernel, int \<times> proc_vars) io" where
  "app_spawn l buf v =
     ibind (dir_lookup (name_buf l) 0 (chars ''bin/'' @ [0])) (\<lambda>bin_ino.
     ibind (dir_lookup (name_buf l) bin_ino (drop 8 buf)) (\<lambda>ino.
     let v = v\<lparr>app_ino := ino\<rparr> in
     if ino < 0 then Done (- 1, v)
     else
       ibind (act proc_alloc) (\<lambda>pid.
       ibind (pure (last_arg_char (field32 buf 4) (drop 8 buf))) (\<lambda>c.
       let argc = (if c = chr CHR ''&'' then sint (field32 buf 4) - 1 else sint (field32 buf 4)) in
       ibind (elf_load pid (app_read (block_buf l) ino) argc (Some (drop 8 buf)) (elf_buf l)) (\<lambda>_.
       ibind (set_ready pid) (\<lambda>_. Done (0, v\<lparr>app_pid := pid\<rparr>)))))))"

section \<open>The process server\<close>

definition sys_proc_start :: "locals \<Rightarrow> ('d kernel, unit) io" where
  "sys_proc_start l =
     ibind (sys_spawn l (of_nat SYS_FILE_EXEC_START)) (\<lambda>_.
     ibind (sys_recv SYSCALL_MSG_LEN) (\<lambda>_.
     ibind (sys_spawn l (of_nat SYS_DIR_EXEC_START)) (\<lambda>_.
     ibind (sys_recv SYSCALL_MSG_LEN) (\<lambda>_.
     sys_spawn l (of_nat SYS_SHELL_EXEC_START)))))"

text \<open>
  One round of the loop. The reply is the first word of the buffer; an exit is answered with what
  the request left there.
\<close>

definition sys_proc_round :: "locals \<Rightarrow> proc_vars \<Rightarrow> ('d kernel, proc_vars) io" where
  "sys_proc_round l v =
     ibind (sys_recv SYSCALL_MSG_LEN) (\<lambda>(sender, buf).
     if field32 buf 0 = PROC_SPAWN then
       ibind (app_spawn l buf v) (\<lambda>(r, v).
       ibind (pure (last_arg_char (field32 buf 4) (drop 8 buf))) (\<lambda>c.
       ibind (sys_send GPID_SHELL (word_bytes (if r < 0 then CMD_ERROR else CMD_OK))) (\<lambda>_.
       Done (v\<lparr>shell_waiting := (c \<noteq> chr CHR ''&'')\<rparr>))))
     else if field32 buf 0 = PROC_EXIT then
       ibind (act (\<lambda>k. Ret ((), proc_free sender k))) (\<lambda>_.
       if shell_waiting v \<and> app_pid v = sender
       then ibind (sys_send GPID_SHELL (take sizeof_proc_reply buf)) (\<lambda>_. Done v)
       else Done v)
     else if field32 buf 0 = PROC_KILLALL then
       ibind (act (\<lambda>k. Ret ((), proc_free (- 1) k))) (\<lambda>_. Done v)
     else Stop ''sys_proc: invalid request'')"

section \<open>The start of the grass layer\<close>

text \<open>
  main of grass/grass.c, from the point where the interface of the kernel is set up: it loads the
  first process, switches to it and jumps to its entry with the address of the arguments in a0.
\<close>

definition grass_main :: "block \<Rightarrow> ('d kernel, u32 \<times> u32) io" where
  "grass_main junk =
     ibind (elf_load GPID_PROCESS (disk_reader (of_nat SYS_PROC_EXEC_START)) 0 None junk) (\<lambda>_.
     ibind (act proc_alloc) (\<lambda>pid.
     ibind (act (\<lambda>k. Ret ((), proc_set_running pid k))) (\<lambda>_.
     ibind (earth_do (\<lambda>e. obind (mmu_switch GPID_PROCESS e) (\<lambda>e. Ret ((), e)))) (\<lambda>_.
     Done (APPS_ENTRY, APPS_ARG)))))"

end
