(* ===== verification/Kernel.thy ===== *)
theory Kernel
  imports Process
begin

text \<open>
  The kernel of grass/kernel.c: the scheduler, the two system calls and the trap handlers, each
  as one step on the state of the kernel.
\<close>

section \<open>The scheduler\<close>

definition runnable :: "proc_status \<Rightarrow> bool" where
  "runnable s \<longleftrightarrow> s = PROC_READY \<or> s = PROC_RUNNING \<or> s = PROC_RUNNABLE"

text \<open>The loop of proc_yield, from iteration \<open>i\<close> on, with \<open>n\<close> iterations left.\<close>

fun next_runnable :: "process list \<Rightarrow> nat \<Rightarrow> nat \<Rightarrow> nat \<Rightarrow> nat option" where
  "next_runnable ps cur i 0 = None"
| "next_runnable ps cur i (Suc n) =
     (if runnable (p_status (ps ! ((cur + i) mod MAX_NPROCESS)))
      then Some ((cur + i) mod MAX_NPROCESS) else next_runnable ps cur (Suc i) n)"

definition proc_yield :: "'d kernel \<Rightarrow> 'd kernel outcome" where
  "proc_yield k =
     (case next_runnable (proc_set k) (proc_curr_idx k) 1 MAX_NPROCESS of
        None \<Rightarrow> Fatal ''proc_yield: no runnable process''
      | Some next_idx \<Rightarrow>
          let k = (if curr_status k = PROC_RUNNING then proc_set_runnable (curr_pid k) k else k);
              k = k\<lparr>proc_curr_idx := next_idx\<rparr> in
          obind (earth_call (mmu_switch (curr_pid k)) k) (\<lambda>k.
          let k = reset_timer k;
              k = (if curr_status k = PROC_READY
                   then update_curr (\<lambda>p. p\<lparr>saved_register := (saved_register p)[8 := APPS_ARG, 9 := APPS_ARG + 4],
                                         p_mepc := APPS_ENTRY\<rparr>) k
                   else k) in
          Ret (proc_set_running (curr_pid k) k)))"

section \<open>System calls\<close>

text \<open>
  Copying a message from the sender to the kernel stack and from there to the receiver, as both
  system calls do it.
\<close>

definition copy_msg :: "int \<Rightarrow> int \<Rightarrow> 'd kernel \<Rightarrow> 'd kernel outcome" where
  "copy_msg sender receiver k =
     obind (earth_call (mmu_switch sender) k) (\<lambda>k.
     let tmp = mem_read (k_mem k) SC_MSG sizeof_sys_msg in
     obind (earth_call (mmu_switch receiver) k) (\<lambda>k.
     Ret (update_mem (\<lambda>m. mem_write m SC_MSG tmp) k)))"

definition proc_send :: "'d kernel \<Rightarrow> 'd kernel outcome" where
  "proc_send k =
     (let k = update_mem (\<lambda>m. store32 m SC_SENDER (of_int (curr_pid k))) k;
          receiver = sint (load32 (k_mem k) SC_RECEIVER) in
      case find_proc (\<lambda>p. p_pid p = receiver) 0 (proc_set k) of
        Some i \<Rightarrow>
          obind (if p_status (proc_set k ! i) \<noteq> PROC_WAIT_TO_RECV
                 then Ret (update_curr (\<lambda>p. p\<lparr>p_status := PROC_WAIT_TO_SEND, receiver_pid := receiver\<rparr>) k)
                 else obind (copy_msg (curr_pid k) receiver k) (\<lambda>k.
                   Ret (proc_set_runnable receiver k))) proc_yield
      | None \<Rightarrow> Ret (update_mem (\<lambda>m. store32 m SC_RETVAL 0xFFFFFFFF) k))"

text \<open>The loop of proc_recv: the pid of the last process that waits to send to \<open>pid\<close>, or -1.\<close>

definition waiting_sender :: "int \<Rightarrow> process list \<Rightarrow> int" where
  "waiting_sender pid ps =
     fold (\<lambda>p sender. if p_status p = PROC_WAIT_TO_SEND \<and> receiver_pid p = pid then p_pid p else sender)
       ps (- 1)"

definition proc_recv :: "'d kernel \<Rightarrow> 'd kernel outcome" where
  "proc_recv k =
     (let sender = waiting_sender (curr_pid k) (proc_set k) in
      obind (if sender = - 1 then Ret (update_curr (\<lambda>p. p\<lparr>p_status := PROC_WAIT_TO_RECV\<rparr>) k)
             else obind (copy_msg sender (curr_pid k) k) (\<lambda>k.
               Ret (proc_set_runnable sender k))) proc_yield)"

definition proc_syscall :: "'d kernel \<Rightarrow> 'd kernel outcome" where
  "proc_syscall k =
     (let type = load32 (k_mem k) SC_TYPE;
          k = update_mem (\<lambda>m. store32 (store32 (store32 m SC_RETVAL 0) SC_TYPE SYS_UNUSED)
                (MSIP (platform (k_earth k))) 0) k in
      if type = SYS_RECV then proc_recv k
      else if type = SYS_SEND then proc_send k
      else Fatal ''proc_syscall: got unknown syscall type'')"

section \<open>Traps\<close>

definition INTR_ID_SOFT :: u32 where [layout_defs]: "INTR_ID_SOFT = 3"
definition INTR_ID_TIMER :: u32 where [layout_defs]: "INTR_ID_TIMER = 7"

definition excp_entry :: "u32 \<Rightarrow> 'd kernel \<Rightarrow> 'd kernel outcome" where
  "excp_entry iid k = Fatal ''excp_entry: kernel got exception''"

definition intr_entry :: "u32 \<Rightarrow> 'd kernel \<Rightarrow> 'd kernel outcome" where
  "intr_entry iid k =
     (if iid = INTR_ID_TIMER \<and> curr_pid k < GPID_SHELL then Ret (reset_timer k)
      else
        let (r, d) = tty_recv_intr (k_earth k) (dev (k_earth k));
            k = k\<lparr>k_earth := (k_earth k)\<lparr>dev := d\<rparr>\<rparr> in
        if r \<noteq> 0 \<and> curr_pid k \<ge> GPID_USER_START then Ret (k\<lparr>csr_mepc := 0x800500C\<rparr>)
        else
          obind (if iid = INTR_ID_SOFT then proc_syscall k else Ret k) (\<lambda>k.
          if iid = INTR_ID_TIMER then proc_yield k else Ret k))"

text \<open>Registers as the 29 words that the trap code leaves below the top of the kernel stack.\<close>

definition load_regs :: "mem \<Rightarrow> u32 list" where
  "load_regs m = map (\<lambda>i. load32 m (SAVED_REGISTER_ADDR + of_nat (4 * i))) [0..<SAVED_REGISTER_NUM]"

definition regs_bytes :: "u32 list \<Rightarrow> byte list" where
  "regs_bytes rs = concat (map word_bytes rs)"

definition kernel_entry :: "bool \<Rightarrow> u32 \<Rightarrow> 'd kernel \<Rightarrow> 'd kernel outcome" where
  "kernel_entry is_interrupt iid k =
     (let k = update_curr (\<lambda>p. p\<lparr>p_mepc := csr_mepc k, saved_register := load_regs (k_mem k)\<rparr>) k in
      obind (if is_interrupt then intr_entry iid k else excp_entry iid k) (\<lambda>k.
      let k = k\<lparr>csr_mepc := p_mepc (curr_proc k)\<rparr> in
      Ret (update_mem (\<lambda>m. mem_write m SAVED_REGISTER_ADDR (regs_bytes (saved_register (curr_proc k)))) k)))"

end
