(* ===== verification/Kernel_Correct.thy ===== *)
theory Kernel_Correct
  imports Kernel Mmu_Correct
begin

text \<open>
  The invariant of the process table, what the scheduler does, and how messages move between
  address spaces, over any paging device.
\<close>

section \<open>The process table\<close>

text \<open>
  Processes have distinct positive pids that the counter has passed; an entry with pid 0 was
  never used.
\<close>

definition procs_wf :: "process list \<Rightarrow> u32 \<Rightarrow> bool" where
  "procs_wf ps n \<longleftrightarrow> length ps = MAX_NPROCESS \<and> unat n < 2 ^ 31 \<and>
     (\<forall>p\<in>set ps. 0 \<le> p_pid p \<and> p_pid p \<le> int (unat n) \<and> length (saved_register p) = SAVED_REGISTER_NUM \<and>
        (p_pid p = 0 \<longrightarrow> p_status p = PROC_UNUSED)) \<and>
     (\<forall>i<MAX_NPROCESS. \<forall>j<MAX_NPROCESS. p_pid (ps ! i) = p_pid (ps ! j) \<longrightarrow> p_pid (ps ! i) \<noteq> 0 \<longrightarrow> i = j)"

text \<open>The current process is the only one that runs.\<close>

definition kernel_wf :: "'d kernel \<Rightarrow> bool" where
  "kernel_wf k \<longleftrightarrow> procs_wf (proc_set k) (proc_nprocs k) \<and> proc_curr_idx k < MAX_NPROCESS \<and>
     (\<forall>i<MAX_NPROCESS. p_status (proc_set k ! i) = PROC_RUNNING \<longleftrightarrow> i = proc_curr_idx k)"

lemma MAX_NPROCESS_8 [simp]: "MAX_NPROCESS = 8"
  by (simp add: MAX_NPROCESS_def)

lemma procs_wf_nth:
  assumes "procs_wf ps n" "i < 8"
  shows "0 \<le> p_pid (ps ! i)" "p_pid (ps ! i) \<le> int (unat n)" "p_pid (ps ! i) = 0 \<Longrightarrow> p_status (ps ! i) = PROC_UNUSED"
    "length (saved_register (ps ! i)) = 29"
  using assms by (auto simp: procs_wf_def SAVED_REGISTER_NUM_def)

lemma procs_wf_unique:
  assumes "procs_wf ps n" "i < 8" "j < 8" "p_pid (ps ! i) = p_pid (ps ! j)" "p_pid (ps ! i) \<noteq> 0"
  shows "i = j"
  using assms by (simp add: procs_wf_def)

lemma procs_wfI:
  assumes "procs_wf ps n" "length qs = 8"
    and "\<And>i. i < 8 \<Longrightarrow> p_pid (qs ! i) = p_pid (ps ! i) \<and> length (saved_register (qs ! i)) = 29 \<and>
      (p_pid (ps ! i) = 0 \<longrightarrow> p_status (qs ! i) = PROC_UNUSED)"
  shows "procs_wf qs n"
proof -
  have "0 \<le> p_pid q \<and> p_pid q \<le> int (unat n) \<and> length (saved_register q) = SAVED_REGISTER_NUM \<and>
      (p_pid q = 0 \<longrightarrow> p_status q = PROC_UNUSED)" if "q \<in> set qs" for q
  proof -
    obtain i where i: "i < 8" "q = qs ! i" using \<open>q \<in> set qs\<close> assms(2) by (auto simp: in_set_conv_nth)
    then show ?thesis using assms(3) [OF i(1)] procs_wf_nth [OF assms(1) i(1)] by (simp add: SAVED_REGISTER_NUM_def)
  qed
  then show ?thesis using assms procs_wf_unique [OF assms(1)] by (auto simp: procs_wf_def)
qed

lemma length_set_status [simp]: "length (set_status pid st ps) = length ps"
  by (simp add: set_status_def)

lemma nth_set_status:
  "i < length ps \<Longrightarrow> set_status pid st ps ! i = (if p_pid (ps ! i) = pid then (ps ! i)\<lparr>p_status := st\<rparr> else ps ! i)"
  by (simp add: set_status_def)

text \<open>With distinct pids, setting the status of a process by its pid changes its entry only.\<close>

lemma set_status_unique:
  assumes "procs_wf ps n" "i < 8" "p_pid (ps ! i) \<noteq> 0"
  shows "set_status (p_pid (ps ! i)) st ps = ps[i := (ps ! i)\<lparr>p_status := st\<rparr>]"
proof (rule nth_equalityI)
  have len: "length ps = 8" using assms(1) by (simp add: procs_wf_def)
  fix j assume "j < length (set_status (p_pid (ps ! i)) st ps)"
  then have j: "j < 8" using len by simp
  show "set_status (p_pid (ps ! i)) st ps ! j = ps[i := (ps ! i)\<lparr>p_status := st\<rparr>] ! j"
    using procs_wf_unique [OF assms(1) assms(2) j] assms(2,3) j len
    by (auto simp: nth_set_status nth_list_update)
qed simp

lemma find_proc_Some:
  "find_proc P k ps = Some i \<Longrightarrow> k \<le> i \<and> i - k < length ps \<and> P (ps ! (i - k)) \<and> (\<forall>j<i - k. \<not> P (ps ! j))"
proof (induction P k ps rule: find_proc.induct)
  case (2 P k p ps)
  show ?case
  proof (cases "P p")
    case False
    with 2 have IH: "Suc k \<le> i \<and> i - Suc k < length ps \<and> P (ps ! (i - Suc k)) \<and> (\<forall>j<i - Suc k. \<not> P (ps ! j))"
      by simp
    then have "i - k = Suc (i - Suc k)" by (metis Suc_diff_Suc Suc_le_eq)
    with IH False show ?thesis by (auto simp: nth_Cons split: nat.splits)
  qed (use 2 in simp)
qed simp

lemma find_proc_None: "find_proc P k ps = None \<longleftrightarrow> (\<forall>p\<in>set ps. \<not> P p)"
  by (induction P k ps rule: find_proc.induct) auto

section \<open>Choosing the next process\<close>

text \<open>
  \<open>next_runnable\<close> finds the first runnable process in cyclic order after \<open>cur\<close>.
\<close>

lemma next_runnable_spec:
  "next_runnable ps cur i n = Some t \<longleftrightarrow>
    (\<exists>j. i \<le> j \<and> j < i + n \<and> t = (cur + j) mod 8 \<and> runnable (p_status (ps ! t)) \<and>
       (\<forall>j'. i \<le> j' \<longrightarrow> j' < j \<longrightarrow> \<not> runnable (p_status (ps ! ((cur + j') mod 8)))))"
proof (induction ps cur i n rule: next_runnable.induct)
  case (2 ps cur i n)
  let ?r = "\<lambda>j. runnable (p_status (ps ! ((cur + j) mod 8)))"
  show ?case
  proof (cases "?r i")
    case True
    then show ?thesis by (auto simp: le_less intro!: exI [of _ i])
  next
    case False
    have "(\<exists>j. i \<le> j \<and> j < i + Suc n \<and> t = (cur + j) mod 8 \<and> runnable (p_status (ps ! t)) \<and>
         (\<forall>j'. i \<le> j' \<longrightarrow> j' < j \<longrightarrow> \<not> ?r j')) \<longleftrightarrow>
      (\<exists>j. Suc i \<le> j \<and> j < Suc i + n \<and> t = (cur + j) mod 8 \<and> runnable (p_status (ps ! t)) \<and>
         (\<forall>j'. Suc i \<le> j' \<longrightarrow> j' < j \<longrightarrow> \<not> ?r j'))" (is "(\<exists>j. ?A j) \<longleftrightarrow> (\<exists>j. ?B j)")
    proof
      assume "\<exists>j. ?A j"
      then obtain j where j: "?A j" by blast
      with False have "j \<noteq> i" by auto
      with j show "\<exists>j. ?B j" by (intro exI [of _ j]) auto
    next
      assume "\<exists>j. ?B j"
      then obtain j where j: "?B j" by blast
      have "\<not> ?r j'" if "i \<le> j'" "j' < j" for j'
        using j False that by (cases "j' = i") auto
      with j show "\<exists>j. ?A j" by (intro exI [of _ j]) auto
    qed
    with 2 False show ?thesis by simp
  qed
qed simp

lemma next_runnable_None:
  "next_runnable ps cur i n = None \<longleftrightarrow> (\<forall>j. i \<le> j \<longrightarrow> j < i + n \<longrightarrow> \<not> runnable (p_status (ps ! ((cur + j) mod 8))))"
proof (induction ps cur i n rule: next_runnable.induct)
  case (2 ps cur i n)
  then show ?case by (auto simp: le_less Suc_le_eq) (metis less_Suc_eq not_less_eq)
qed simp

text \<open>How far index \<open>i\<close> is ahead of \<open>cur\<close> in the cyclic order, from 1 to 8.\<close>

definition cyc_dist :: "nat \<Rightarrow> nat \<Rightarrow> nat" where
  "cyc_dist cur i = (i + 7 - cur mod 8) mod 8 + 1"

lemma cyc_dist: "i < 8 \<Longrightarrow> 1 \<le> cyc_dist cur i \<and> cyc_dist cur i \<le> 8 \<and> (cur + cyc_dist cur i) mod 8 = i"
proof -
  assume i: "i < 8"
  define r where "r = cur mod 8"
  have r: "r < 8" by (simp add: r_def)
  have "(cur + cyc_dist cur i) mod 8 = (r + ((i + 7 - r) mod 8 + 1)) mod 8"
    unfolding cyc_dist_def r_def by (rule mod_add_left_eq [symmetric])
  also have "\<dots> = (i + 8) mod 8"
  proof (cases "i + 7 - r < 8")
    case True
    then show ?thesis using r by simp
  next
    case False
    then have "(i + 7 - r) mod 8 = i + 7 - r - 8" using i r by (simp add: mod_if)
    then have "r + ((i + 7 - r) mod 8 + 1) = i" using False by simp
    then show ?thesis by simp
  qed
  finally show ?thesis using i by (simp add: cyc_dist_def Suc_le_eq)
qed

section \<open>The scheduler\<close>

text \<open>
  The process table after a switch to the process at index \<open>t\<close>, with the frame of a new process
  set up if it was ready.
\<close>

definition first_run :: "process \<Rightarrow> process" where
  "first_run p = p\<lparr>saved_register := (saved_register p)[8 := APPS_ARG, 9 := APPS_ARG + 4], p_mepc := APPS_ENTRY\<rparr>"

lemma first_run_fun:
  "first_run = (\<lambda>p. p\<lparr>saved_register := (saved_register p)[8 := APPS_ARG, 9 := APPS_ARG + 4], p_mepc := APPS_ENTRY\<rparr>)"
  by (rule ext) (simp add: first_run_def)

definition scheduled :: "process list \<Rightarrow> nat \<Rightarrow> nat \<Rightarrow> process list" where
  "scheduled ps cur t =
     (let ps = (if p_status (ps ! cur) = PROC_RUNNING then ps[cur := (ps ! cur)\<lparr>p_status := PROC_RUNNABLE\<rparr>] else ps);
          p = (if p_status (ps ! t) = PROC_READY then first_run (ps ! t) else ps ! t) in
      ps[t := p\<lparr>p_status := PROC_RUNNING\<rparr>])"

lemma runnable_pid:
  assumes "procs_wf ps n" "i < 8" "runnable (p_status (ps ! i))"
  shows "p_pid (ps ! i) \<noteq> 0"
  using procs_wf_nth(3) [OF assms(1,2)] assms(3) by (auto simp: runnable_def)

text \<open>What a call of the earth layer keeps of the kernel state besides the memory and devices.\<close>

lemma procs_wf_update:
  assumes "procs_wf ps n" "i < 8" "length (saved_register p) = 29" "p_pid p = p_pid (ps ! i)"
    and "p_pid p = 0 \<longrightarrow> p_status p = PROC_UNUSED"
  shows "procs_wf (ps[i := p]) n"
proof -
  have len: "length ps = 8" using assms(1) by (simp add: procs_wf_def)
  show ?thesis
    by (rule procs_wfI [OF assms(1)])
      (use assms procs_wf_nth [OF assms(1)] len in \<open>auto simp: nth_list_update\<close>)
qed

lemma scheduled_wf:
  assumes "procs_wf ps n" "cur < 8" "t < 8" "runnable (p_status (ps ! t))"
  shows "procs_wf (scheduled ps cur t) n"
proof -
  have len: "length ps = 8" using assms(1) by (simp add: procs_wf_def)
  let ?qs = "if p_status (ps ! cur) = PROC_RUNNING then ps[cur := (ps ! cur)\<lparr>p_status := PROC_RUNNABLE\<rparr>] else ps"
  have q: "procs_wf ?qs n"
    using assms(1,2) procs_wf_nth [OF assms(1,2)] by (auto intro!: procs_wf_update)
  have "p_pid (?qs ! t) = p_pid (ps ! t)" "length (saved_register (?qs ! t)) = 29"
    using procs_wf_nth(4) [OF assms(1,3)] len assms(2,3) by (auto simp: nth_list_update)
  moreover have "p_pid (ps ! t) \<noteq> 0" using runnable_pid [OF assms(1,3,4)] .
  ultimately show ?thesis
    unfolding scheduled_def Let_def
    by (intro procs_wf_update [OF q]) (use assms(3) in \<open>auto simp: first_run_def\<close>)
qed

lemma scheduled_status:
  assumes "length ps = 8" "cur < 8" "t < 8" "i < 8"
  shows "p_status (scheduled ps cur t ! i) =
      (if i = t then PROC_RUNNING else if i = cur \<and> p_status (ps ! cur) = PROC_RUNNING then PROC_RUNNABLE
       else p_status (ps ! i))"
    and "p_pid (scheduled ps cur t ! i) = p_pid (ps ! i)"
    and "receiver_pid (scheduled ps cur t ! i) = receiver_pid (ps ! i)"
    and "length (scheduled ps cur t) = 8"
    and "i \<noteq> t \<or> p_status (ps ! t) \<noteq> PROC_READY \<Longrightarrow>
      saved_register (scheduled ps cur t ! i) = saved_register (ps ! i) \<and>
      p_mepc (scheduled ps cur t ! i) = p_mepc (ps ! i)"
    and "p_status (ps ! t) = PROC_READY \<Longrightarrow>
      saved_register (scheduled ps cur t ! t) = (saved_register (ps ! t))[8 := APPS_ARG, 9 := APPS_ARG + 4] \<and>
      p_mepc (scheduled ps cur t ! t) = APPS_ENTRY"
  using assms by (auto simp: scheduled_def Let_def nth_list_update first_run_def)

text \<open>
  The pages of the processes are now \<open>V\<close>, and all memory that is neither in the store nor in a
  page of a process is as before. Switching address spaces keeps every page.
\<close>

definition pages_now ::
  "('d earth \<Rightarrow> nat \<Rightarrow> byte list) \<Rightarrow> u32 set \<Rightarrow> 'd earth \<Rightarrow> (nat \<Rightarrow> byte list) \<Rightarrow> 'd earth \<Rightarrow> bool" where
  "pages_now frame S e V e' \<longleftrightarrow> table e' = table e \<and> platform e' = platform e \<and>
     translation e' = translation e \<and> tty_recv_intr e' = tty_recv_intr e \<and> timer_reset e' = timer_reset e \<and>
     (\<forall>i. used e i \<longrightarrow> page_view frame e' i = V i) \<and>
     (\<forall>x. x \<notin> S \<longrightarrow> (\<forall>p. x \<notin> user_pages e p) \<longrightarrow> mem e' x = mem e x)"

abbreviation same_pages :: "('d earth \<Rightarrow> nat \<Rightarrow> byte list) \<Rightarrow> u32 set \<Rightarrow> 'd earth \<Rightarrow> 'd earth \<Rightarrow> bool" where
  "same_pages frame S e e' \<equiv> pages_now frame S e (page_view frame e) e'"

lemma same_pages_refl [simp]: "same_pages frame S e e"
  by (simp add: pages_now_def)

lemma pages_now_trans:
  "pages_now frame S e V e' \<Longrightarrow> pages_now frame S e' W e'' \<Longrightarrow> pages_now frame S e W e''"
  by (simp add: pages_now_def user_pages_def)

lemma pages_now_cong:
  "pages_now frame S e V e' \<Longrightarrow> (\<And>i. used e i \<Longrightarrow> V i = W i) \<Longrightarrow> pages_now frame S e W e'"
  by (simp add: pages_now_def)

lemma same_pages_trans: "same_pages frame S e e' \<Longrightarrow> same_pages frame S e' e'' \<Longrightarrow> same_pages frame S e e''"
  by (simp add: pages_now_def user_pages_def)

context paging_device
begin

lemma mmu_switch_ok:
  assumes "inv e" "vm_wf store e"
  shows "owp (mmu_switch p e) (\<lambda>e'. inv e' \<and> vm_wf store e' \<and> curr_vm_pid e' = p \<and>
     same_pages frame store e e')"
proof -
  have "owp (soft_tlb_switch p e) (\<lambda>e'. inv e' \<and> vm_wf store e' \<and> curr_vm_pid e' = p \<and>
     same_pages frame store e e')"
    by (rule owp_mono [OF soft_tlb_switch_ok [OF assms]]) (auto simp: same_outside_def pages_now_def)
  then show ?thesis by (simp add: mmu_switch_def page_table_switch_def split: translation_mode.split)
qed

lemma switch_call_ok:
  assumes "inv (k_earth k)" "vm_wf store (k_earth k)"
  shows "owp (earth_call (mmu_switch p) k) (\<lambda>k'. \<exists>e'. k' = k\<lparr>k_earth := e'\<rparr> \<and> inv e' \<and> vm_wf store e' \<and>
     curr_vm_pid e' = p \<and> same_pages frame store (k_earth k) e')"
  using mmu_switch_ok [OF assms, of p] by (auto simp: earth_call_def elim!: owp_mono)

lemma reset_timer_ok:
  assumes "inv (k_earth k)" "vm_wf store (k_earth k)"
  shows "inv (k_earth (reset_timer k))" "vm_wf store (k_earth (reset_timer k))"
    "same_pages frame store (k_earth k) (k_earth (reset_timer k))"
    "curr_vm_pid (k_earth (reset_timer k)) = curr_vm_pid (k_earth k)"
    "proc_set (reset_timer k) = proc_set k" "proc_curr_idx (reset_timer k) = proc_curr_idx k"
    "proc_nprocs (reset_timer k) = proc_nprocs k" "csr_mepc (reset_timer k) = csr_mepc k"
  using assms frame_timer [OF assms(1)]
  by (simp_all add: reset_timer_def vm_wf_def pages_now_def page_view_def)

lemma proc_yield_ok:
  assumes e: "inv (k_earth k)" "vm_wf store (k_earth k)"
    and ps: "procs_wf (proc_set k) n" "proc_curr_idx k < 8"
    and t: "next_runnable (proc_set k) (proc_curr_idx k) 1 8 = Some t"
  shows "owp (proc_yield k) (\<lambda>k'. proc_set k' = scheduled (proc_set k) (proc_curr_idx k) t \<and>
     proc_curr_idx k' = t \<and> proc_nprocs k' = proc_nprocs k \<and> csr_mepc k' = csr_mepc k \<and>
     inv (k_earth k') \<and> vm_wf store (k_earth k') \<and> curr_vm_pid (k_earth k') = p_pid (proc_set k ! t) \<and>
     same_pages frame store (k_earth k) (k_earth k'))"
proof -
  let ?c = "proc_curr_idx k"
  have len: "length (proc_set k) = 8" using ps(1) by (simp add: procs_wf_def)
  have t8: "t < 8" "runnable (p_status (proc_set k ! t))" using t by (auto simp: next_runnable_spec)
  define qs where "qs = (if p_status (proc_set k ! ?c) = PROC_RUNNING
      then (proc_set k)[?c := (proc_set k ! ?c)\<lparr>p_status := PROC_RUNNABLE\<rparr>] else proc_set k)"
  have q: "(if curr_status k = PROC_RUNNING then proc_set_runnable (curr_pid k) k else k) = k\<lparr>proc_set := qs\<rparr>"
    using set_status_unique [OF ps(1) ps(2)] runnable_pid [OF ps(1,2)]
    by (auto simp: qs_def proc_set_runnable_def proc_set_status_def runnable_def)
  have wfq: "procs_wf qs n"
    using ps procs_wf_nth [OF ps] by (auto simp: qs_def intro!: procs_wf_update)
  have qt: "p_pid (qs ! t) = p_pid (proc_set k ! t)" "runnable (p_status (qs ! t))" "length qs = 8"
    using len ps(2) t8 by (auto simp: qs_def nth_list_update runnable_def)
  have sched: "scheduled (proc_set k) ?c t =
      qs[t := (if p_status (qs ! t) = PROC_READY then first_run (qs ! t) else qs ! t)\<lparr>p_status := PROC_RUNNING\<rparr>]"
    by (simp add: scheduled_def qs_def Let_def)
  have fin: "proc_set (proc_set_running (curr_pid k2) k2) = scheduled (proc_set k) ?c t"
    if k1: "proc_set k1 = qs" "proc_curr_idx k1 = t"
      and k2: "k2 = (if curr_status k1 = PROC_READY then update_curr first_run k1 else k1)" for k1 k2 :: "'d kernel"
  proof -
    let ?p = "if p_status (qs ! t) = PROC_READY then first_run (qs ! t) else qs ! t"
    have p2: "proc_set k2 = qs[t := ?p]" "proc_curr_idx k2 = t"
      using k1 by (simp_all add: k2 update_curr_def)
    have "procs_wf (qs[t := ?p]) n"
      using wfq t8(1) procs_wf_nth [OF wfq t8(1)] qt(2)
      by (intro procs_wf_update) (auto simp: first_run_def runnable_def)
    moreover have "p_pid (qs[t := ?p] ! t) \<noteq> 0"
      using runnable_pid [OF wfq t8(1) qt(2)] t8(1) qt(3) by (simp add: first_run_def)
    ultimately show ?thesis
      using set_status_unique [of "qs[t := ?p]" n t PROC_RUNNING] t8(1) p2 qt(3) sched
      by (simp add: proc_set_running_def proc_set_status_def)
  qed
  have body: "proc_yield k = obind (earth_call (mmu_switch (p_pid (qs ! t))) (k\<lparr>proc_set := qs, proc_curr_idx := t\<rparr>))
      (\<lambda>k. let k = reset_timer k; k = (if curr_status k = PROC_READY then update_curr first_run k else k) in
        Ret (proc_set_running (curr_pid k) k))"
    using t unfolding proc_yield_def MAX_NPROCESS_8 q Let_def first_run_fun
    by (simp add: q)
  show ?thesis unfolding body owp_obind
  proof (rule owp_mono [OF switch_call_ok], goal_cases)
    case (3 k1)
    then obtain e1 where k1: "k1 = k\<lparr>proc_set := qs, proc_curr_idx := t, k_earth := e1\<rparr>" "inv e1" "vm_wf store e1"
      "curr_vm_pid e1 = p_pid (qs ! t)" "same_pages frame store (k_earth k) e1" by auto
    have "inv (k_earth k1)" "vm_wf store (k_earth k1)" using k1 by simp_all
    note r = reset_timer_ok [OF this]
    have kk: "proc_set k1 = qs" "proc_curr_idx k1 = t" "proc_nprocs k1 = proc_nprocs k" "csr_mepc k1 = csr_mepc k"
      "k_earth k1 = e1" using k1(1) by simp_all
    let ?k1 = "reset_timer k1"
    let ?k2 = "if curr_status ?k1 = PROC_READY then update_curr first_run ?k1 else ?k1"
    have f: "proc_set (proc_set_running (curr_pid ?k2) ?k2) = scheduled (proc_set k) ?c t"
      by (rule fin [of ?k1]) (simp_all add: r kk)
    have same: "k_earth (proc_set_running p ?k2) = k_earth ?k1" "proc_curr_idx (proc_set_running p ?k2) = t"
      "proc_nprocs (proc_set_running p ?k2) = proc_nprocs k" "csr_mepc (proc_set_running p ?k2) = csr_mepc k" for p
      by (simp_all add: proc_set_running_def proc_set_status_def update_curr_def r kk)
    show ?case
      using f same r k1(4,5) qt(1) kk same_pages_trans [OF k1(5)]
      by (simp add: Let_def)
  qed (use e in simp_all)
qed

end

end
