(* ===== verification/Ipc_Correct.thy ===== *)
theory Ipc_Correct
  imports Kernel_Correct
begin

text \<open>
  How messages move between address spaces: writes of the current process to its own pages, the
  copy of a message from one process to another, and the two system calls built from them.
\<close>

section \<open>The page of the system call arguments\<close>

text \<open>Frame \<open>i\<close> backs the page at APPS_ARG of process \<open>p\<close>, which holds the struct syscall.\<close>

definition arg_frame :: "'d earth \<Rightarrow> int \<Rightarrow> nat \<Rightarrow> bool" where
  "arg_frame e p i \<longleftrightarrow> used e i \<and> fm_pid (table e ! i) = p \<and> fm_page_no (table e ! i) = 0x80000"

text \<open>The struct sys_msg in such a page, and its field sender.\<close>

definition msg_in :: "byte list \<Rightarrow> byte list" where
  "msg_in page = take sizeof_sys_msg (drop 0x404 page)"

definition put_msg :: "byte list \<Rightarrow> byte list \<Rightarrow> byte list" where
  "put_msg msg page = splice_at 0x404 msg page"

definition put_word :: "nat \<Rightarrow> u32 \<Rightarrow> byte list \<Rightarrow> byte list" where
  "put_word off v page = splice_at off (word_bytes v) page"

lemma arg_page: "page_addr 0x80000 = 0x80000000"
  by (simp add: push_bit_eq_mult)

lemma sc_addresses:
  "SC_MSG = page_addr 0x80000 + of_nat 0x404" "SC_SENDER = page_addr 0x80000 + of_nat 0x404"
  "SC_RECEIVER = page_addr 0x80000 + of_nat 0x408" "SC_RETVAL = page_addr 0x80000 + of_nat 0x80C"
  "SC_TYPE = page_addr 0x80000 + of_nat 0x400"
  by (simp_all add: arg_page layout_defs)

lemma sizeof_sys_msg_1032: "sizeof_sys_msg = 1032"
  by (simp add: layout_defs)

lemma msg_in_put_msg: "length page = 4096 \<Longrightarrow> length msg = 1032 \<Longrightarrow> msg_in (put_msg msg page) = msg"
  by (simp add: msg_in_def put_msg_def sizeof_sys_msg_1032 splice_at_def)

lemma arg_frame_cong: "table e' = table e \<Longrightarrow> arg_frame e' p i = arg_frame e p i"
  by (simp add: arg_frame_def)

context paging_device
begin

lemma page_view_length:
  assumes "inv e" "used e i"
  shows "length (page_view frame e i) = 4096"
proof -
  obtain a m where "mem_read m a 4096 = frame e i"
    using frame_read [OF assms(1), of i] assms(2) by (auto elim!: owpE)
  then have "length (frame e i) = 4096" using length_mem_read [of m a 4096] by simp
  then show ?thesis by (simp add: page_view_def)
qed

text \<open>A write of the mapped process inside one of its pages changes that page only.\<close>

lemma user_write_ok:
  assumes e: "inv e" "vm_wf store e" and i: "used e i" "fm_pid (table e ! i) = curr_vm_pid e"
    and off: "off + length bs \<le> 4096"
    and e': "e' = e\<lparr>mem := mem_write (mem e) (page_addr (fm_page_no (table e ! i)) + of_nat off) bs\<rparr>"
  shows "inv e'" "vm_wf store e'" "curr_vm_pid e' = curr_vm_pid e"
    "pages_now frame store e ((page_view frame e)(i := splice_at off bs (page_view frame e i))) e'"
proof -
  let ?k = "fm_page_no (table e ! i)"
  let ?m = "mem_write (mem e) (page_addr ?k + of_nat off) bs"
  have clear: "page_clear store ?k" using e(2) i(1) by (simp add: vm_wf_def)
  have out: "?m x = mem e x" if "\<not> in_page ?k x" for x
  proof (rule mem_write_outside)
    have "unat (page_addr ?k) + 4096 \<le> 2 ^ 32" "unat (page_addr ?k) = unat ?k * 4096"
      using clear by (simp_all add: page_clear_def unat_page_addr)
    moreover have "unat (page_addr ?k + of_nat off) = unat (page_addr ?k) + off" if "bs \<noteq> []"
    proof -
      have "off < 4096" using off that by (cases bs) auto
      then show ?thesis
        using calculation by (simp add: unat_word_ariths unat_of_nat take_bit_nat_eq_self)
    qed
    ultimately show "\<not> in_region (page_addr ?k + of_nat off) (length bs) x"
      using that off in_region_nat [of "page_addr ?k" 4096 x] in_region_nat [of "page_addr ?k + of_nat off" "length bs" x]
      by (cases "bs = []") (auto simp: in_page_def in_region_def)
  qed
  then have "\<forall>x\<in>store. ?m x = mem e x" using clear by (auto simp: page_clear_def)
  from frame_mem [OF e(1) this] have f: "inv e'" "frame e' = frame e" by (simp_all add: e')
  show "inv e'" "curr_vm_pid e' = curr_vm_pid e" using f by (simp_all add: e')
  show "vm_wf store e'" using e(2) by (simp add: vm_wf_def e')
  have vi: "page_view frame e' i = splice_at off bs (page_view frame e i)"
    using i(2) mem_read_write_part [OF off, of "mem e" "page_addr ?k"] by (simp add: page_view_def e')
  have vj: "page_view frame e' j = page_view frame e j" if j: "used e j" "j \<noteq> i" for j
  proof (cases "fm_pid (table e ! j) = curr_vm_pid e")
    case True
    have "mem_read ?m (page_addr (fm_page_no (table e ! j))) 4096 =
        mem_read (mem e) (page_addr (fm_page_no (table e ! j))) 4096"
    proof (rule page_read_cong, rule out)
      fix x assume "in_page (fm_page_no (table e ! j)) x"
      then show "\<not> in_page ?k x" using vm_wf_same_pages [OF e(2) i(1) j(1)] i(2) True j(2) by auto
    qed
    then show ?thesis using True by (simp add: page_view_def e')
  next
    case False
    then show ?thesis using f(2) by (simp add: page_view_def e')
  qed
  have mo: "mem e' x = mem e x" if "\<forall>p. x \<notin> user_pages e p" for x
    using out that i by (auto simp: e' user_pages_def)
  show "pages_now frame store e ((page_view frame e)(i := splice_at off bs (page_view frame e i))) e'"
    unfolding pages_now_def using vi vj mo by (simp add: e')
qed

lemma user_read_ok:
  assumes "used e i" "fm_pid (table e ! i) = curr_vm_pid e" "off + n \<le> 4096"
  shows "mem_read (mem e) (page_addr (fm_page_no (table e ! i)) + of_nat off) n =
    take n (drop off (page_view frame e i))"
  using assms mem_read_part [of off n 4096] by (simp add: page_view_def)

text \<open>Writes and reads of the mapped process in its system call page.\<close>

lemma arg_write_ok:
  assumes e: "inv e" "vm_wf store e" and i: "arg_frame e (curr_vm_pid e) i" and off: "off + length bs \<le> 4096"
  shows "inv (e\<lparr>mem := mem_write (mem e) (page_addr 0x80000 + of_nat off) bs\<rparr>)"
    "vm_wf store (e\<lparr>mem := mem_write (mem e) (page_addr 0x80000 + of_nat off) bs\<rparr>)"
    "pages_now frame store e ((page_view frame e)(i := splice_at off bs (page_view frame e i)))
       (e\<lparr>mem := mem_write (mem e) (page_addr 0x80000 + of_nat off) bs\<rparr>)"
proof -
  have "used e i" "fm_pid (table e ! i) = curr_vm_pid e" and k: "fm_page_no (table e ! i) = 0x80000"
    using i by (auto simp: arg_frame_def)
  note w = user_write_ok [OF e this(1,2) off refl, unfolded k]
  from w(1,2,4) show "inv (e\<lparr>mem := mem_write (mem e) (page_addr 0x80000 + of_nat off) bs\<rparr>)"
    "vm_wf store (e\<lparr>mem := mem_write (mem e) (page_addr 0x80000 + of_nat off) bs\<rparr>)"
    "pages_now frame store e ((page_view frame e)(i := splice_at off bs (page_view frame e i)))
       (e\<lparr>mem := mem_write (mem e) (page_addr 0x80000 + of_nat off) bs\<rparr>)" .
qed

lemma arg_read_ok:
  assumes "arg_frame e (curr_vm_pid e) i" "off + n \<le> 4096"
  shows "mem_read (mem e) (page_addr 0x80000 + of_nat off) n = take n (drop off (page_view frame e i))"
  using assms user_read_ok [where e = e and i = i and off = off and n = n] by (simp add: arg_frame_def)

lemma copy_msg_ok:
  assumes e: "inv (k_earth k)" "vm_wf store (k_earth k)"
    and a: "arg_frame (k_earth k) a ia" and b: "arg_frame (k_earth k) b ib"
  shows "owp (copy_msg a b k) (\<lambda>k'. \<exists>e'. k' = k\<lparr>k_earth := e'\<rparr> \<and> inv e' \<and> vm_wf store e' \<and>
     curr_vm_pid e' = b \<and> pages_now frame store (k_earth k)
       ((page_view frame (k_earth k))(ib :=
          put_msg (msg_in (page_view frame (k_earth k) ia)) (page_view frame (k_earth k) ib))) e')"
proof -
  let ?e = "k_earth k" and ?V = "page_view frame (k_earth k)"
  have fin: "\<exists>e'. update_mem (\<lambda>m. mem_write m SC_MSG (msg_in (?V ia))) k2 = k\<lparr>k_earth := e'\<rparr> \<and> inv e' \<and>
      vm_wf store e' \<and> curr_vm_pid e' = b \<and>
      pages_now frame store ?e (?V(ib := put_msg (msg_in (?V ia)) (?V ib))) e'"
    if k2: "k2 = k\<lparr>k_earth := e2\<rparr>" "inv e2" "vm_wf store e2" "curr_vm_pid e2 = b"
      "same_pages frame store ?e e2" for k2 e2
  proof -
    have t: "table e2 = table ?e" "\<And>i. used ?e i \<Longrightarrow> page_view frame e2 i = ?V i"
      using k2(5) by (simp_all add: pages_now_def)
    have len: "length (msg_in (?V ia)) = 1032"
      using page_view_length [OF e(1)] a by (simp add: msg_in_def sizeof_sys_msg_1032 arg_frame_def)
    have ib: "arg_frame e2 (curr_vm_pid e2) ib" using b k2(4) t(1) by (simp add: arg_frame_def)
    define e3 where "e3 = e2\<lparr>mem := mem_write (mem e2) (page_addr 0x80000 + of_nat 0x404) (msg_in (?V ia))\<rparr>"
    have fits: "0x404 + length (msg_in (?V ia)) \<le> 4096" using len by simp
    note w = arg_write_ok [OF k2(2,3) ib fits, folded e3_def]
    have "pages_now frame store ?e ((page_view frame e2)(ib := put_msg (msg_in (?V ia)) (page_view frame e2 ib))) e3"
      using pages_now_trans [OF k2(5) w(3)] by (simp add: put_msg_def)
    then have "pages_now frame store ?e (?V(ib := put_msg (msg_in (?V ia)) (?V ib))) e3"
      by (rule pages_now_cong) (use t b in \<open>auto simp: arg_frame_def\<close>)
    moreover have "update_mem (\<lambda>m. mem_write m SC_MSG (msg_in (?V ia))) k2 = k\<lparr>k_earth := e3\<rparr>"
      unfolding sc_addresses by (simp add: update_mem_def k2(1) e3_def)
    moreover have "curr_vm_pid e3 = b" using k2(4) by (simp add: e3_def)
    ultimately show ?thesis using w by blast
  qed
  show ?thesis unfolding copy_msg_def owp_obind
  proof (rule owp_mono [OF switch_call_ok [OF e]], elim exE conjE)
    fix k1 e1 assume k1: "k1 = k\<lparr>k_earth := e1\<rparr>" "inv e1" "vm_wf store e1" "curr_vm_pid e1 = a"
      "same_pages frame store ?e e1"
    have ia: "arg_frame e1 (curr_vm_pid e1) ia"
      using a k1(4,5) by (simp add: arg_frame_def pages_now_def)
    have "mem_read (k_mem k1) SC_MSG sizeof_sys_msg = take 1032 (drop 0x404 (page_view frame e1 ia))"
      using arg_read_ok [OF ia, of "0x404" 1032] unfolding sc_addresses sizeof_sys_msg_1032 by (simp add: k1(1))
    also have "page_view frame e1 ia = ?V ia" using k1(5) a by (simp add: pages_now_def arg_frame_def)
    finally have tmp: "mem_read (k_mem k1) SC_MSG sizeof_sys_msg = msg_in (?V ia)"
      by (simp add: msg_in_def sizeof_sys_msg_1032)
    show "owp (let tmp = mem_read (k_mem k1) SC_MSG sizeof_sys_msg in
        obind (earth_call (mmu_switch b) k1) (\<lambda>k. Ret (update_mem (\<lambda>m. mem_write m SC_MSG tmp) k)))
      (\<lambda>k'. \<exists>e'. k' = k\<lparr>k_earth := e'\<rparr> \<and> inv e' \<and> vm_wf store e' \<and> curr_vm_pid e' = b \<and>
        pages_now frame store ?e (?V(ib := put_msg (msg_in (?V ia)) (?V ib))) e')"
      unfolding Let_def tmp owp_obind
    proof (rule owp_mono [OF switch_call_ok], goal_cases)
      case (3 k2)
      then obtain e2 where k2: "k2 = k1\<lparr>k_earth := e2\<rparr>" "inv e2" "vm_wf store e2" "curr_vm_pid e2 = b"
        "same_pages frame store e1 e2" using k1(1) by auto
      have "same_pages frame store ?e e2" using same_pages_trans k1(5) k2(5) by blast
      then show ?case using fin [of k2 e2] k2 k1(1) by simp
    qed (use k1 in simp_all)
  qed
qed

end

section \<open>The system calls\<close>

text \<open>
  The kernel runs on behalf of its current process: its pages are the mapped ones.
\<close>

definition kernel_ok :: "('d earth \<Rightarrow> bool) \<Rightarrow> u32 set \<Rightarrow> 'd kernel \<Rightarrow> bool" where
  "kernel_ok I S k \<longleftrightarrow> kernel_wf k \<and> I (k_earth k) \<and> vm_wf S (k_earth k) \<and>
     curr_vm_pid (k_earth k) = curr_pid k"

lemma kernel_okD:
  assumes "kernel_ok I S k"
  shows "procs_wf (proc_set k) (proc_nprocs k)" "proc_curr_idx k < 8" "length (proc_set k) = 8"
    "curr_status k = PROC_RUNNING" "curr_pid k \<noteq> 0" "I (k_earth k)" "vm_wf S (k_earth k)"
    "curr_vm_pid (k_earth k) = curr_pid k"
    "\<And>i. i < 8 \<Longrightarrow> p_status (proc_set k ! i) = PROC_RUNNING \<longleftrightarrow> i = proc_curr_idx k"
proof -
  show w: "procs_wf (proc_set k) (proc_nprocs k)" "proc_curr_idx k < 8" "length (proc_set k) = 8"
    "curr_status k = PROC_RUNNING" "I (k_earth k)" "vm_wf S (k_earth k)" "curr_vm_pid (k_earth k) = curr_pid k"
    "\<And>i. i < 8 \<Longrightarrow> p_status (proc_set k ! i) = PROC_RUNNING \<longleftrightarrow> i = proc_curr_idx k"
    using assms by (auto simp: kernel_ok_def kernel_wf_def procs_wf_def)
  show "curr_pid k \<noteq> 0" using runnable_pid [OF w(1,2)] w(4) by (simp add: runnable_def)
qed

lemma next_runnable_ex:
  assumes "i < 8" "runnable (p_status (ps ! i))"
  shows "\<exists>t. next_runnable ps cur 1 8 = Some t"
proof (rule ccontr)
  assume "\<not> (\<exists>t. next_runnable ps cur 1 8 = Some t)"
  then have "next_runnable ps cur 1 8 = None" by simp
  then have no: "\<not> runnable (p_status (ps ! ((cur + j) mod 8)))" if "1 \<le> j" "j < 9" for j
    using that by (simp add: next_runnable_None)
  have "1 \<le> cyc_dist cur i" "cyc_dist cur i < 9" "(cur + cyc_dist cur i) mod 8 = i"
    using cyc_dist [OF assms(1), of cur] by auto
  then show False using no [of "cyc_dist cur i"] assms(2) by simp
qed

lemma find_proc_pid:
  assumes "procs_wf ps n" "j < 8" "p_pid (ps ! j) = r" "r \<noteq> 0"
  shows "find_proc (\<lambda>p. p_pid p = r) 0 ps = Some j"
proof -
  have len: "length ps = 8" using assms(1) by (simp add: procs_wf_def)
  obtain i where i: "find_proc (\<lambda>p. p_pid p = r) 0 ps = Some i"
    using find_proc_None [of "\<lambda>p. p_pid p = r" 0 ps] assms(2,3) len nth_mem [of j ps]
    by (cases "find_proc (\<lambda>p. p_pid p = r) 0 ps") auto
  with find_proc_Some [OF i] have "i = j"
    using procs_wf_unique [OF assms(1), of i j] assms len by auto
  with i show ?thesis by simp
qed

lemma waiting_sender_eq:
  "waiting_sender pid ps =
    (let ws = filter (\<lambda>p. p_status p = PROC_WAIT_TO_SEND \<and> receiver_pid p = pid) ps
     in if ws = [] then - 1 else p_pid (last ws))"
proof -
  have "fold (\<lambda>p s. if p_status p = PROC_WAIT_TO_SEND \<and> receiver_pid p = pid then p_pid p else s) ps s0 =
    (let ws = filter (\<lambda>p. p_status p = PROC_WAIT_TO_SEND \<and> receiver_pid p = pid) ps
     in if ws = [] then s0 else p_pid (last ws))" for s0
    by (induction ps arbitrary: s0) (auto simp: Let_def)
  then show ?thesis by (simp add: waiting_sender_def)
qed

lemma msg_in_put_sender:
  assumes "length page = 4096"
  shows "msg_in (put_word 0x404 v page) = word_bytes v @ drop 4 (msg_in page)"
  using assms by (simp add: msg_in_def put_word_def splice_at_def sizeof_sys_msg_1032 drop_take)

lemma scheduled_kernel_wf:
  assumes "procs_wf ps (proc_nprocs k)" "c < 8" "t < 8" "runnable (p_status (ps ! t))"
    and "\<forall>i<8. p_status (ps ! i) = PROC_RUNNING \<longrightarrow> i = c"
    and "proc_set k = scheduled ps c t" "proc_curr_idx k = t"
  shows "kernel_wf k"
proof -
  have len: "length ps = 8" using assms(1) by (simp add: procs_wf_def)
  have "p_status (scheduled ps c t ! i) = PROC_RUNNING \<longleftrightarrow> i = t" if "i < 8" for i
  proof (cases "i = t \<or> i = c")
    case True
    then show ?thesis unfolding scheduled_status(1) [OF len assms(2,3) that] by auto
  next
    case False
    then have "p_status (ps ! i) \<noteq> PROC_RUNNING" using assms(5) that by blast
    with False show ?thesis unfolding scheduled_status(1) [OF len assms(2,3) that] by simp
  qed
  moreover have "procs_wf (scheduled ps c t) (proc_nprocs k)" by (rule scheduled_wf [OF assms(1-4)])
  ultimately show ?thesis unfolding kernel_wf_def assms(6,7) MAX_NPROCESS_8 using assms(3) by blast
qed

text \<open>A word of a page.\<close>

definition page_word :: "nat \<Rightarrow> byte list \<Rightarrow> u32" where
  "page_word off page = word32_of (page ! off) (page ! (off + 1)) (page ! (off + 2)) (page ! (off + 3))"

lemma page_word_put_other:
  assumes "length page = 4096" "off + 4 \<le> 4096" "off' + 4 \<le> 4096" "off' + 4 \<le> off \<or> off + 4 \<le> off'"
  shows "page_word off (put_word off' v page) = page_word off page"
  using assms by (auto simp: page_word_def put_word_def nth_splice_at)

text \<open>
  The kernel went from \<open>k\<close> to \<open>k'\<close> by changing the process table to \<open>qs\<close> and the pages to \<open>V\<close>, and
  then switching to the process at index \<open>t\<close>.
\<close>

definition switched :: "('d earth \<Rightarrow> nat \<Rightarrow> byte list) \<Rightarrow> ('d earth \<Rightarrow> bool) \<Rightarrow> u32 set \<Rightarrow> 'd kernel \<Rightarrow>
    process list \<Rightarrow> nat \<Rightarrow> (nat \<Rightarrow> byte list) \<Rightarrow> 'd kernel \<Rightarrow> bool" where
  "switched frame I S k qs t V k' \<longleftrightarrow> proc_set k' = scheduled qs (proc_curr_idx k) t \<and> proc_curr_idx k' = t \<and>
     proc_nprocs k' = proc_nprocs k \<and> csr_mepc k' = csr_mepc k \<and> kernel_ok I S k' \<and>
     pages_now frame S (k_earth k) V (k_earth k')"

context paging_device
begin

lemma yield_ok:
  assumes e: "inv (k_earth k)" "vm_wf store (k_earth k)"
    and ps: "procs_wf (proc_set k) (proc_nprocs k)" "proc_curr_idx k < 8"
      "\<forall>i<8. p_status (proc_set k ! i) = PROC_RUNNING \<longrightarrow> i = proc_curr_idx k"
    and t: "next_runnable (proc_set k) (proc_curr_idx k) 1 8 = Some t"
  shows "owp (proc_yield k) (\<lambda>k'. proc_set k' = scheduled (proc_set k) (proc_curr_idx k) t \<and>
     proc_curr_idx k' = t \<and> proc_nprocs k' = proc_nprocs k \<and> csr_mepc k' = csr_mepc k \<and> kernel_ok inv store k' \<and>
     same_pages frame store (k_earth k) (k_earth k'))"
proof -
  have len: "length (proc_set k) = 8" using ps(1) by (simp add: procs_wf_def)
  have t8: "t < 8" "runnable (p_status (proc_set k ! t))" using t by (auto simp: next_runnable_spec)
  show ?thesis
  proof (rule owp_mono [OF proc_yield_ok [OF e ps(1,2) t]], elim conjE, intro conjI)
    fix k' :: "'d kernel"
    assume k': "proc_set k' = scheduled (proc_set k) (proc_curr_idx k) t" "proc_curr_idx k' = t"
      "proc_nprocs k' = proc_nprocs k" "inv (k_earth k')" "vm_wf store (k_earth k')"
      "curr_vm_pid (k_earth k') = p_pid (proc_set k ! t)"
    have "kernel_wf k'"
      by (rule scheduled_kernel_wf [OF _ ps(2) t8 ps(3) k'(1,2)]) (use ps(1) k'(3) in simp)
    then show "kernel_ok inv store k'"
      using k' scheduled_status(2) [OF len ps(2) t8(1) t8(1)] by (simp add: kernel_ok_def)
  qed
qed

text \<open>A store of the current process to a field of its system call page.\<close>

lemma arg_store_ok:
  assumes k: "kernel_ok inv store k" "arg_frame (k_earth k) (curr_pid k) i" "off + 4 \<le> 4096"
    and k1: "k1 = update_mem (\<lambda>m. store32 m (page_addr 0x80000 + of_nat off) v) k"
  shows "kernel_ok inv store k1" "proc_set k1 = proc_set k" "proc_curr_idx k1 = proc_curr_idx k"
    "proc_nprocs k1 = proc_nprocs k" "csr_mepc k1 = csr_mepc k"
    "pages_now frame store (k_earth k) ((page_view frame (k_earth k))(i := put_word off v (page_view frame (k_earth k) i)))
       (k_earth k1)"
proof -
  note D = kernel_okD [OF k(1)]
  have "off + length (word_bytes v) \<le> 4096" using k(3) by simp
  then have fits: "off + length (word_bytes v) \<le> 4096" .
  have i: "arg_frame (k_earth k) (curr_vm_pid (k_earth k)) i" using k(2) D(8) by simp
  have e1: "k_earth k1 = (k_earth k)\<lparr>mem := mem_write (k_mem k) (page_addr 0x80000 + of_nat off) (word_bytes v)\<rparr>"
    by (simp add: k1 update_mem_def store32_def)
  show rest: "proc_set k1 = proc_set k" "proc_curr_idx k1 = proc_curr_idx k"
    "proc_nprocs k1 = proc_nprocs k" "csr_mepc k1 = csr_mepc k"
    by (simp_all add: k1 update_mem_def)
  note w = arg_write_ok [OF D(6,7) i fits, folded e1]
  show "pages_now frame store (k_earth k)
      ((page_view frame (k_earth k))(i := put_word off v (page_view frame (k_earth k) i))) (k_earth k1)"
    using w(3) by (simp add: put_word_def)
  have "curr_vm_pid (k_earth k1) = curr_pid k1" using D(8) rest e1 by simp
  then show "kernel_ok inv store k1" using w(1,2) k(1) rest by (simp add: kernel_ok_def kernel_wf_def)
qed

lemma arg_load_ok:
  assumes "arg_frame e (curr_vm_pid e) i" "off + 4 \<le> 4096" "inv e"
  shows "load32 (mem e) (page_addr 0x80000 + of_nat off) = page_word off (page_view frame e i)"
proof -
  have "length (page_view frame e i) = 4096" using page_view_length [OF assms(3)] assms(1) by (simp add: arg_frame_def)
  then show ?thesis
    unfolding load32_mem_read arg_read_ok [OF assms(1,2)] page_word_def using assms(2) by simp
qed

text \<open>Yielding after a change of one entry of the process table.\<close>

lemma yield_after:
  assumes k: "kernel_ok inv store k" and j: "j < 8" "qs = (proc_set k)[j := p]"
    and p: "p_pid p = p_pid (proc_set k ! j)" "p_pid p \<noteq> 0" "length (saved_register p) = 29" "p_status p \<noteq> PROC_RUNNING"
    and t: "next_runnable qs (proc_curr_idx k) 1 8 = Some t"
    and k1: "proc_set k1 = qs" "proc_curr_idx k1 = proc_curr_idx k" "proc_nprocs k1 = proc_nprocs k"
      "csr_mepc k1 = csr_mepc k" "inv (k_earth k1)" "vm_wf store (k_earth k1)"
      "pages_now frame store (k_earth k) V (k_earth k1)"
  shows "owp (proc_yield k1) (switched frame inv store k qs t V)"
proof -
  note D = kernel_okD [OF k]
  have "procs_wf qs (proc_nprocs k)" unfolding j(2) by (rule procs_wf_update [OF D(1) j(1)]) (use p in auto)
  moreover have "\<forall>i<8. p_status (qs ! i) = PROC_RUNNING \<longrightarrow> i = proc_curr_idx k"
    using D(3,9) j p(4) by (auto simp: nth_list_update)
  ultimately have Y: "owp (proc_yield k1) (\<lambda>k'. proc_set k' = scheduled qs (proc_curr_idx k) t \<and>
     proc_curr_idx k' = t \<and> proc_nprocs k' = proc_nprocs k \<and> csr_mepc k' = csr_mepc k \<and> kernel_ok inv store k' \<and>
     same_pages frame store (k_earth k1) (k_earth k'))"
    using yield_ok [of k1 t] k1 D(2) t by simp
  have V: "page_view frame (k_earth k1) i = V i" if "used (k_earth k) i" for i
    using k1(7) that by (simp add: pages_now_def)
  show ?thesis
    by (rule owp_mono [OF Y])
      (auto simp: switched_def intro: pages_now_cong [OF pages_now_trans [OF k1(7)] V])
qed

end

end
