(* ===== verification/Trap_Correct.thy ===== *)
theory Trap_Correct
  imports Ipc_Correct
begin

text \<open>
  The system calls and the trap handler as transitions of the kernel: who runs next, what happens
  to the pages of the processes, and that the invariant of the kernel is kept.
\<close>

section \<open>Sending and receiving\<close>

text \<open>The system call page of a sender once the kernel has stamped its pid, and the message in it.\<close>

definition stamp :: "int \<Rightarrow> byte list \<Rightarrow> byte list" where
  "stamp pid page = put_word 0x404 (of_int pid) page"

definition stamped_msg :: "int \<Rightarrow> byte list \<Rightarrow> byte list" where
  "stamped_msg pid page = word_bytes (of_int pid) @ drop 4 (msg_in page)"

lemma msg_in_stamp: "length page = 4096 \<Longrightarrow> msg_in (stamp pid page) = stamped_msg pid page"
  by (simp add: stamp_def stamped_msg_def msg_in_put_sender)

text \<open>The receiver that a sender names in its system call page.\<close>

definition receiver_of :: "byte list \<Rightarrow> int" where
  "receiver_of page = sint (page_word 0x408 page)"

lemma receiver_of_stamp: "length page = 4096 \<Longrightarrow> receiver_of (stamp pid page) = receiver_of page"
  by (simp add: receiver_of_def stamp_def page_word_put_other)

lemma set_status_nth:
  assumes "procs_wf ps n" "j < 8" "p_pid (ps ! j) = r" "r \<noteq> 0"
  shows "set_status r st ps = ps[j := (ps ! j)\<lparr>p_status := st\<rparr>]"
  using set_status_unique [OF assms(1,2)] assms(3,4) by auto

lemma waiting_sender_last:
  assumes "length ps = 8" "j < 8" "p_status (ps ! j) = PROC_WAIT_TO_SEND" "receiver_pid (ps ! j) = pid"
    and "\<And>i. j < i \<Longrightarrow> i < 8 \<Longrightarrow> \<not> (p_status (ps ! i) = PROC_WAIT_TO_SEND \<and> receiver_pid (ps ! i) = pid)"
  shows "waiting_sender pid ps = p_pid (ps ! j)"
proof -
  let ?P = "\<lambda>p. p_status p = PROC_WAIT_TO_SEND \<and> receiver_pid p = pid"
  have "filter ?P ps = filter ?P (take j ps @ ps ! j # drop (Suc j) ps)"
    using assms(1,2) by (simp add: id_take_nth_drop [symmetric])
  also have "filter ?P (drop (Suc j) ps) = []"
  proof -
    have n: "\<not> ?P (drop (Suc j) ps ! i)" if "i < 7 - j" for i
      using assms(1) assms(5) [of "Suc j + i"] that by simp
    have "\<not> ?P p" if p: "p \<in> set (drop (Suc j) ps)" for p
    proof -
      obtain i where "i < 7 - j" "p = drop (Suc j) ps ! i"
        using p assms(1) by (auto simp: in_set_conv_nth)
      then show ?thesis using n by blast
    qed
    then show ?thesis by (simp add: filter_empty_conv)
  qed
  then have "filter ?P (take j ps @ ps ! j # drop (Suc j) ps) = filter ?P (take j ps) @ [ps ! j]"
    using assms(3,4) by simp
  finally show ?thesis by (simp add: waiting_sender_eq)
qed

lemma waiting_sender_none:
  "\<forall>p\<in>set ps. \<not> (p_status p = PROC_WAIT_TO_SEND \<and> receiver_pid p = pid) \<Longrightarrow> waiting_sender pid ps = - 1"
  by (simp add: waiting_sender_eq filter_empty_conv)

context paging_device
begin

text \<open>The kernel after it has stamped the sender.\<close>

lemma stamp_ok:
  assumes k: "kernel_ok inv store k" "arg_frame (k_earth k) (curr_pid k) i"
    and k1: "k1 = update_mem (\<lambda>m. store32 m SC_SENDER (of_int (curr_pid k))) k"
  shows "kernel_ok inv store k1" "proc_set k1 = proc_set k" "proc_curr_idx k1 = proc_curr_idx k"
    "proc_nprocs k1 = proc_nprocs k" "csr_mepc k1 = csr_mepc k"
    "pages_now frame store (k_earth k) ((page_view frame (k_earth k))(i := stamp (curr_pid k) (page_view frame (k_earth k) i)))
       (k_earth k1)"
    "page_view frame (k_earth k1) i = stamp (curr_pid k) (page_view frame (k_earth k) i)"
    "sint (load32 (k_mem k1) SC_RECEIVER) = receiver_of (page_view frame (k_earth k) i)"
proof -
  have "(0x404::nat) + 4 \<le> 4096" by simp
  note w = arg_store_ok [OF k this k1 [unfolded sc_addresses(2)]]
  show *: "kernel_ok inv store k1" "proc_set k1 = proc_set k" "proc_curr_idx k1 = proc_curr_idx k"
    "proc_nprocs k1 = proc_nprocs k" "csr_mepc k1 = csr_mepc k"
    "pages_now frame store (k_earth k) ((page_view frame (k_earth k))(i := stamp (curr_pid k) (page_view frame (k_earth k) i)))
       (k_earth k1)" using w by (simp_all add: stamp_def)
  show V: "page_view frame (k_earth k1) i = stamp (curr_pid k) (page_view frame (k_earth k) i)"
    using *(6) k(2) by (simp add: pages_now_def arg_frame_def)
  have "arg_frame (k_earth k1) (curr_vm_pid (k_earth k1)) i"
    using *(2,3,6) k(2) kernel_okD(8) [OF *(1)] by (simp add: pages_now_def arg_frame_def)
  moreover have "length (page_view frame (k_earth k) i) = 4096"
    using page_view_length kernel_okD(6) [OF k(1)] k(2) by (simp add: arg_frame_def)
  ultimately show "sint (load32 (k_mem k1) SC_RECEIVER) = receiver_of (page_view frame (k_earth k) i)"
    using arg_load_ok [of "k_earth k1" i "0x408"] kernel_okD(6) [OF *(1)] V
    unfolding sc_addresses by (simp flip: receiver_of_def add: receiver_of_stamp)
qed

lemma send_unknown:
  assumes k: "kernel_ok inv store k" "arg_frame (k_earth k) (curr_pid k) i"
    and r: "\<forall>p\<in>set (proc_set k). p_pid p \<noteq> receiver_of (page_view frame (k_earth k) i)"
  shows "owp (proc_send k) (\<lambda>k'. kernel_ok inv store k' \<and> proc_set k' = proc_set k \<and>
     proc_curr_idx k' = proc_curr_idx k \<and> proc_nprocs k' = proc_nprocs k \<and> csr_mepc k' = csr_mepc k \<and>
     pages_now frame store (k_earth k) ((page_view frame (k_earth k))(i :=
       put_word 0x80C 0xFFFFFFFF (stamp (curr_pid k) (page_view frame (k_earth k) i)))) (k_earth k'))"
proof -
  let ?k1 = "update_mem (\<lambda>m. store32 m SC_SENDER (of_int (curr_pid k))) k"
  note s = stamp_ok [OF k refl]
  have none: "find_proc (\<lambda>p. p_pid p = sint (load32 (k_mem ?k1) SC_RECEIVER)) 0 (proc_set ?k1) = None"
    unfolding find_proc_None s(2,8) using r by blast
  have i1: "arg_frame (k_earth ?k1) (curr_pid ?k1) i"
    using s(2,3,6) k(2) by (simp add: pages_now_def arg_frame_def)
  have "(0x80C::nat) + 4 \<le> 4096" by simp
  note w = arg_store_ok [OF s(1) i1 this refl, of "0xFFFFFFFF"]
  have "proc_send k = Ret (update_mem (\<lambda>m. store32 m (page_addr 0x80000 + of_nat 0x80C) 0xFFFFFFFF) ?k1)"
    unfolding proc_send_def Let_def none sc_addresses(4) by simp
  moreover have "pages_now frame store (k_earth k) ((page_view frame (k_earth k))(i :=
       put_word 0x80C 0xFFFFFFFF (stamp (curr_pid k) (page_view frame (k_earth k) i))))
      (k_earth (update_mem (\<lambda>m. store32 m (page_addr 0x80000 + of_nat 0x80C) 0xFFFFFFFF) ?k1))"
    by (rule pages_now_cong [OF pages_now_trans [OF s(6) w(6)]]) (use s(6) k(2) in \<open>auto simp: pages_now_def arg_frame_def\<close>)
  ultimately show ?thesis using w(1-5) s(2-5) by simp
qed

lemma send_blocks_eq:
  assumes k: "kernel_ok inv store k" "arg_frame (k_earth k) (curr_pid k) i"
    and r: "r = receiver_of (page_view frame (k_earth k) i)"
    and j: "find_proc (\<lambda>p. p_pid p = r) 0 (proc_set k) = Some j" "p_status (proc_set k ! j) \<noteq> PROC_WAIT_TO_RECV"
  shows "proc_send k = proc_yield (update_curr (\<lambda>p. p\<lparr>p_status := PROC_WAIT_TO_SEND, receiver_pid := r\<rparr>)
     (update_mem (\<lambda>m. store32 m SC_SENDER (of_int (curr_pid k))) k))"
proof -
  note s = stamp_ok [OF k refl]
  show ?thesis unfolding proc_send_def Let_def s(8) s(2) r [symmetric] j(1) using j(2) by simp
qed

lemma send_blocks:
  assumes k: "kernel_ok inv store k" "arg_frame (k_earth k) (curr_pid k) i"
    and r: "r = receiver_of (page_view frame (k_earth k) i)"
    and j: "find_proc (\<lambda>p. p_pid p = r) 0 (proc_set k) = Some j" "p_status (proc_set k ! j) \<noteq> PROC_WAIT_TO_RECV"
    and qs: "qs = (proc_set k)[proc_curr_idx k := (curr_proc k)\<lparr>p_status := PROC_WAIT_TO_SEND, receiver_pid := r\<rparr>]"
    and t: "next_runnable qs (proc_curr_idx k) 1 8 = Some t"
  shows "owp (proc_send k) (switched frame inv store k qs t
     ((page_view frame (k_earth k))(i := stamp (curr_pid k) (page_view frame (k_earth k) i))))"
proof -
  note s = stamp_ok [OF k refl] and D = kernel_okD [OF k(1)]
  note E = kernel_okD [OF s(1)]
  show ?thesis unfolding send_blocks_eq [OF k r j]
    by (rule yield_after [OF k(1) D(2) qs]) (use s E D procs_wf_nth(4) [OF D(1,2)] t qs in \<open>simp_all add: update_curr_def\<close>)
qed

lemma send_delivers:
  assumes k: "kernel_ok inv store k" "arg_frame (k_earth k) (curr_pid k) i"
    and r: "r = receiver_of (page_view frame (k_earth k) i)"
    and j: "j < 8" "p_pid (proc_set k ! j) = r" "p_status (proc_set k ! j) = PROC_WAIT_TO_RECV"
    and b: "arg_frame (k_earth k) r b"
    and qs: "qs = (proc_set k)[j := (proc_set k ! j)\<lparr>p_status := PROC_RUNNABLE\<rparr>]"
    and t: "next_runnable qs (proc_curr_idx k) 1 8 = Some t"
  shows "owp (proc_send k) (switched frame inv store k qs t
     ((page_view frame (k_earth k))(i := stamp (curr_pid k) (page_view frame (k_earth k) i),
        b := put_msg (stamped_msg (curr_pid k) (page_view frame (k_earth k) i)) (page_view frame (k_earth k) b))))"
    (is "owp _ (switched frame inv store k qs t ?W)")
proof -
  let ?V = "page_view frame (k_earth k)"
  let ?k1 = "update_mem (\<lambda>m. store32 m SC_SENDER (of_int (curr_pid k))) k"
  note s = stamp_ok [OF k refl] and D = kernel_okD [OF k(1)]
  note E = kernel_okD [OF s(1)]
  have r0: "r \<noteq> 0" using procs_wf_nth(3) [OF D(1) j(1)] j by auto
  have "j \<noteq> proc_curr_idx k" using D(4) j(3) by auto
  then have ib: "i \<noteq> b" using procs_wf_unique [OF D(1) j(1) D(2)] j(2) r0 k(2) b by (auto simp: arg_frame_def)
  have f: "find_proc (\<lambda>p. p_pid p = r) 0 (proc_set k) = Some j" by (rule find_proc_pid [OF D(1) j(1,2) r0])
  have body: "proc_send k = obind (copy_msg (curr_pid ?k1) r ?k1) (\<lambda>k. proc_yield (proc_set_runnable r k))"
    unfolding proc_send_def Let_def s(8) s(2) r [symmetric] f using j(3) s(2,3) by (simp add: obind_assoc)
  have tab: "table (k_earth ?k1) = table (k_earth k)" using s(6) by (simp add: pages_now_def)
  have a1: "arg_frame (k_earth ?k1) (curr_pid ?k1) i" "arg_frame (k_earth ?k1) r b"
    using tab k(2) b s(2,3) by (simp_all add: arg_frame_def)
  have V1: "page_view frame (k_earth ?k1) i' = (if i' = i then stamp (curr_pid k) (?V i) else ?V i')"
    if "used (k_earth k) i'" for i' using s(6) that by (simp add: pages_now_def)
  have len: "length (?V i) = 4096" using page_view_length D(6) k(2) by (simp add: arg_frame_def)
  show ?thesis unfolding body owp_obind
  proof (rule owp_mono [OF copy_msg_ok [OF E(6,7) a1]], elim exE conjE)
    fix k2 e2 assume k2: "k2 = ?k1\<lparr>k_earth := e2\<rparr>" "inv e2" "vm_wf store e2"
      "pages_now frame store (k_earth ?k1) ((page_view frame (k_earth ?k1))(b :=
        put_msg (msg_in (page_view frame (k_earth ?k1) i)) (page_view frame (k_earth ?k1) b))) e2"
    have W: "pages_now frame store (k_earth k) ?W e2"
    proof (rule pages_now_cong [OF pages_now_trans [OF s(6) k2(4)]])
      have u: "used (k_earth k) i" "used (k_earth k) b" using k(2) b by (simp_all add: arg_frame_def)
      fix i' assume "used (k_earth k) i'"
      then show "((page_view frame (k_earth ?k1))(b :=
          put_msg (msg_in (page_view frame (k_earth ?k1) i)) (page_view frame (k_earth ?k1) b))) i' = ?W i'"
        using V1 [OF u(1)] V1 [OF u(2)] V1 ib by (simp add: msg_in_stamp [OF len])
    qed
    show "owp (proc_yield (proc_set_runnable r k2)) (switched frame inv store k qs t ?W)"
      by (rule yield_after [OF k(1) j(1) qs])
        (use W k2(1-3) s(2-5) D j r0 procs_wf_nth(4) [OF D(1) j(1)] t set_status_nth [OF D(1) j(1,2) r0] qs in
          \<open>simp_all add: proc_set_runnable_def proc_set_status_def\<close>)
  qed
qed

lemma recv_blocks:
  assumes k: "kernel_ok inv store k"
    and w: "waiting_sender (curr_pid k) (proc_set k) = - 1"
    and qs: "qs = (proc_set k)[proc_curr_idx k := (curr_proc k)\<lparr>p_status := PROC_WAIT_TO_RECV\<rparr>]"
    and t: "next_runnable qs (proc_curr_idx k) 1 8 = Some t"
  shows "owp (proc_recv k) (switched frame inv store k qs t (page_view frame (k_earth k)))"
proof -
  note D = kernel_okD [OF k]
  have "proc_recv k = proc_yield (update_curr (\<lambda>p. p\<lparr>p_status := PROC_WAIT_TO_RECV\<rparr>) k)"
    unfolding proc_recv_def Let_def w by simp
  moreover have "owp (proc_yield (update_curr (\<lambda>p. p\<lparr>p_status := PROC_WAIT_TO_RECV\<rparr>) k))
      (switched frame inv store k qs t (page_view frame (k_earth k)))"
    by (rule yield_after [OF k D(2) qs])
      (use D procs_wf_nth(4) [OF D(1,2)] t qs in \<open>simp_all add: update_curr_def\<close>)
  ultimately show ?thesis by simp
qed

lemma recv_delivers:
  assumes k: "kernel_ok inv store k" "arg_frame (k_earth k) (curr_pid k) b"
    and j: "j < 8" "p_pid (proc_set k ! j) = s" "p_status (proc_set k ! j) = PROC_WAIT_TO_SEND"
    and w: "waiting_sender (curr_pid k) (proc_set k) = s"
    and i: "arg_frame (k_earth k) s i"
    and qs: "qs = (proc_set k)[j := (proc_set k ! j)\<lparr>p_status := PROC_RUNNABLE\<rparr>]"
    and t: "next_runnable qs (proc_curr_idx k) 1 8 = Some t"
  shows "owp (proc_recv k) (switched frame inv store k qs t
     ((page_view frame (k_earth k))(b := put_msg (msg_in (page_view frame (k_earth k) i)) (page_view frame (k_earth k) b))))"
    (is "owp _ (switched frame inv store k qs t ?W)")
proof -
  note D = kernel_okD [OF k(1)]
  have s0: "s \<noteq> 0" "s \<noteq> - 1" using procs_wf_nth(1,3) [OF D(1) j(1)] j by auto
  have body: "proc_recv k = obind (copy_msg s (curr_pid k) k) (\<lambda>k. proc_yield (proc_set_runnable s k))"
    unfolding proc_recv_def Let_def w using s0(2) by (simp add: obind_assoc)
  show ?thesis unfolding body owp_obind
  proof (rule owp_mono [OF copy_msg_ok [OF D(6,7) i k(2)]], elim exE conjE)
    fix k2 e2 assume k2: "k2 = k\<lparr>k_earth := e2\<rparr>" "inv e2" "vm_wf store e2" "pages_now frame store (k_earth k) ?W e2"
    show "owp (proc_yield (proc_set_runnable s k2)) (switched frame inv store k qs t ?W)"
      by (rule yield_after [OF k(1) j(1) qs])
        (use k2 D j s0 procs_wf_nth(4) [OF D(1) j(1)] t set_status_nth [OF D(1) j(1,2) s0(1)] qs in
          \<open>simp_all add: proc_set_runnable_def proc_set_status_def\<close>)
  qed
qed

end

section \<open>The invariant of the trap handler\<close>

text \<open>The memory that the handler writes itself: the software interrupt register and the saved registers.\<close>

definition kernel_area :: "platform_type \<Rightarrow> u32 set" where
  "kernel_area p = {x. in_region (MSIP p) 4 x} \<union> {x. in_region SAVED_REGISTER_ADDR SAVED_REGISTER_SIZE x}"

definition live :: "process \<Rightarrow> bool" where
  "live p \<longleftrightarrow> p_status p \<noteq> PROC_UNUSED \<and> p_status p \<noteq> PROC_LOADING"

text \<open>
  The kernel runs its current process, no page of a process overlaps the memory of the kernel, and
  each process past loading has a page for its system calls.
\<close>

definition trap_ok :: "('d earth \<Rightarrow> bool) \<Rightarrow> u32 set \<Rightarrow> 'd kernel \<Rightarrow> bool" where
  "trap_ok I S k \<longleftrightarrow> kernel_ok I S k \<and> vm_wf (S \<union> kernel_area (platform (k_earth k))) (k_earth k) \<and>
     (\<forall>x\<in>kernel_area (platform (k_earth k)). x \<notin> S) \<and>
     (\<forall>i<8. live (proc_set k ! i) \<longrightarrow> (\<exists>f. arg_frame (k_earth k) (p_pid (proc_set k ! i)) f))"

text \<open>The pages differ in the bytes of the struct syscall only.\<close>

definition same_but_sysarg :: "byte list \<Rightarrow> byte list \<Rightarrow> bool" where
  "same_but_sysarg p q \<longleftrightarrow> length q = length p \<and> take 0x400 q = take 0x400 p \<and> drop 0x810 q = drop 0x810 p"

lemma same_but_sysarg_refl [simp]: "same_but_sysarg p p"
  by (simp add: same_but_sysarg_def)

lemma same_but_sysarg_trans: "same_but_sysarg p q \<Longrightarrow> same_but_sysarg q r \<Longrightarrow> same_but_sysarg p r"
  by (simp add: same_but_sysarg_def)

lemma same_but_sysarg_splice:
  assumes "length p = 4096" "0x400 \<le> off" "off + length bs \<le> 0x810"
  shows "same_but_sysarg p (splice_at off bs p)"
  using assms by (auto simp: same_but_sysarg_def splice_at_def min_def)

lemma same_but_sysarg_msg:
  assumes "length p = 4096"
  shows "length m = 1032 \<Longrightarrow> same_but_sysarg p (put_msg m p)" "same_but_sysarg p (stamp pid p)"
    "off = 0x400 \<or> off = 0x80C \<Longrightarrow> same_but_sysarg p (put_word off v p)"
  using assms by (auto simp: put_msg_def stamp_def put_word_def intro!: same_but_sysarg_splice)

lemma same_but_sysarg_stamp:
  assumes "length p = 4096"
  shows "same_but_sysarg p (put_word 0x80C v (stamp pid p))"
proof -
  have "same_but_sysarg p (stamp pid p)" using same_but_sysarg_msg(2) [OF assms] .
  moreover from this have "length (stamp pid p) = 4096" using assms by (simp add: same_but_sysarg_def)
  ultimately show ?thesis using same_but_sysarg_msg(3) same_but_sysarg_trans by blast
qed

lemma same_but_sysarg_length: "same_but_sysarg p q \<Longrightarrow> length q = length p"
  by (simp add: same_but_sysarg_def)

text \<open>
  What a trap may do to the pages of the processes: the mapping stays, and pages other than those of
  the system calls keep their contents.
\<close>

definition isolated :: "('d earth \<Rightarrow> nat \<Rightarrow> byte list) \<Rightarrow> 'd earth \<Rightarrow> 'd earth \<Rightarrow> bool" where
  "isolated frame e e' \<longleftrightarrow> table e' = table e \<and> platform e' = platform e \<and>
     (\<forall>i. used e i \<longrightarrow> page_view frame e' i = page_view frame e i \<or>
        fm_page_no (table e ! i) = 0x80000 \<and> same_but_sysarg (page_view frame e i) (page_view frame e' i))"

lemma isolated_trans: "isolated frame e e' \<Longrightarrow> isolated frame e' e'' \<Longrightarrow> isolated frame e e''"
  using same_but_sysarg_trans by (fastforce simp: isolated_def)

lemma isolated_same: "same_pages frame S e e' \<Longrightarrow> isolated frame e e'"
  by (simp add: isolated_def pages_now_def)

lemma isolated_pages:
  assumes "pages_now frame S e V e'"
    and "\<And>i. used e i \<Longrightarrow> V i = page_view frame e i \<or>
      fm_page_no (table e ! i) = 0x80000 \<and> same_but_sysarg (page_view frame e i) (V i)"
  shows "isolated frame e e'"
  using assms by (simp add: isolated_def pages_now_def)

lemma vm_wf_mono: "vm_wf T e \<Longrightarrow> S \<subseteq> T \<Longrightarrow> vm_wf S e"
  unfolding vm_wf_def page_clear_def by blast

lemma vm_wf_table: "table e' = table e \<Longrightarrow> vm_wf S e' = vm_wf S e"
  by (simp add: vm_wf_def)

lemma trap_ok_kernel: "trap_ok I S k \<Longrightarrow> kernel_ok I S k"
  by (simp add: trap_ok_def)

lemma trap_ok_arg:
  assumes "trap_ok I S k" "i < 8" "live (proc_set k ! i)"
  obtains f where "arg_frame (k_earth k) (p_pid (proc_set k ! i)) f"
  using assms by (auto simp: trap_ok_def)

lemma trap_ok_curr:
  assumes "trap_ok I S k"
  obtains f where "arg_frame (k_earth k) (curr_pid k) f"
proof -
  note D = kernel_okD [OF trap_ok_kernel [OF assms]]
  show ?thesis using trap_ok_arg [OF assms D(2)] that D(4) by (auto simp: live_def)
qed

lemma trap_ok_keep:
  assumes k: "trap_ok I S k" and k': "kernel_ok I S k'"
    and e: "table (k_earth k') = table (k_earth k)" "platform (k_earth k') = platform (k_earth k)"
    and p: "\<And>i. i < 8 \<Longrightarrow> p_pid (proc_set k' ! i) = p_pid (proc_set k ! i)"
      "\<And>i. i < 8 \<Longrightarrow> live (proc_set k' ! i) \<Longrightarrow> live (proc_set k ! i)"
  shows "trap_ok I S k'"
  using k k' e p vm_wf_table [OF e(1)] by (simp add: trap_ok_def arg_frame_def)

lemma switched_trap_ok:
  assumes k: "trap_ok I S k" and w: "switched frame I S k qs t V k'"
    and qs: "qs = (proc_set k)[j := p]" "j < 8" "p_pid p = p_pid (proc_set k ! j)" "live (proc_set k ! j)"
    and t: "next_runnable qs (proc_curr_idx k) 1 8 = Some t"
  shows "trap_ok I S k'"
proof (rule trap_ok_keep [OF k])
  note D = kernel_okD [OF trap_ok_kernel [OF k]]
  have t8: "t < 8" "runnable (p_status (qs ! t))" using t by (auto simp: next_runnable_spec)
  have len: "length qs = 8" using qs(1) D(3) by simp
  have live_qs: "live (proc_set k ! i)" if "live (qs ! i)" "i < 8" for i
    using that qs D(3) by (auto simp: nth_list_update split: if_splits)
  show "kernel_ok I S k'" "table (k_earth k') = table (k_earth k)" "platform (k_earth k') = platform (k_earth k)"
    using w by (simp_all add: switched_def pages_now_def)
  fix i :: nat assume i: "i < 8"
  have P: "proc_set k' ! i = scheduled qs (proc_curr_idx k) t ! i" using w by (simp add: switched_def)
  show "p_pid (proc_set k' ! i) = p_pid (proc_set k ! i)"
    unfolding P scheduled_status(2) [OF len D(2) t8(1) i] using qs D(3) i by (simp add: nth_list_update)
  assume L: "live (proc_set k' ! i)"
  have "live (qs ! i)"
    using L t8(2) unfolding P live_def scheduled_status(1) [OF len D(2) t8(1) i]
    by (auto simp: runnable_def split: if_splits)
  then show "live (proc_set k ! i)" using live_qs i by blast
qed

context paging_device
begin

text \<open>A write of the kernel to its own memory.\<close>

lemma kernel_write_ok:
  assumes k: "trap_ok inv store k"
    and a: "\<And>x. in_region a (length bs) x \<Longrightarrow> x \<in> kernel_area (platform (k_earth k))"
    and k1: "k1 = update_mem (\<lambda>m. mem_write m a bs) k"
  shows "trap_ok inv store k1" "proc_set k1 = proc_set k" "proc_curr_idx k1 = proc_curr_idx k"
    "proc_nprocs k1 = proc_nprocs k" "csr_mepc k1 = csr_mepc k" "table (k_earth k1) = table (k_earth k)"
    "platform (k_earth k1) = platform (k_earth k)"
    "\<And>i. used (k_earth k) i \<Longrightarrow> page_view frame (k_earth k1) i = page_view frame (k_earth k) i"
proof -
  let ?m = "mem_write (k_mem k) a bs" and ?A = "kernel_area (platform (k_earth k))"
  have e1: "k_earth k1 = (k_earth k)\<lparr>mem := ?m\<rparr>" by (simp add: k1 update_mem_def)
  show rest: "proc_set k1 = proc_set k" "proc_curr_idx k1 = proc_curr_idx k"
    "proc_nprocs k1 = proc_nprocs k" "csr_mepc k1 = csr_mepc k" "table (k_earth k1) = table (k_earth k)"
    "platform (k_earth k1) = platform (k_earth k)" by (simp_all add: k1 update_mem_def)
  note D = kernel_okD [OF trap_ok_kernel [OF k]]
  have out: "?m x = k_mem k x" if "x \<notin> ?A" for x using that a by (auto intro!: mem_write_outside)
  have "\<forall>x\<in>store. ?m x = k_mem k x" using k out by (auto simp: trap_ok_def)
  from frame_mem [OF D(6) this] have f: "inv (k_earth k1)" "frame (k_earth k1) = frame (k_earth k)"
    by (simp_all add: e1)
  have "vm_wf store (k_earth k1)" using D(7) vm_wf_table [OF rest(5)] by simp
  moreover have "kernel_wf k1" using k rest by (simp add: trap_ok_def kernel_ok_def kernel_wf_def)
  moreover have "curr_vm_pid (k_earth k1) = curr_pid k1" using D(8) rest by (simp add: e1)
  ultimately have "kernel_ok inv store k1" using f by (simp add: kernel_ok_def)
  then show "trap_ok inv store k1" by (rule trap_ok_keep [OF k]) (use rest in simp_all)
  fix i assume u: "used (k_earth k) i"
  have "page_clear (store \<union> ?A) (fm_page_no (table (k_earth k) ! i))"
    using k u by (simp add: trap_ok_def vm_wf_def)
  then have "mem_read ?m (page_addr (fm_page_no (table (k_earth k) ! i))) 4096 =
      mem_read (k_mem k) (page_addr (fm_page_no (table (k_earth k) ! i))) 4096"
    by (intro page_read_cong out) (auto simp: page_clear_def)
  then show "page_view frame (k_earth k1) i = page_view frame (k_earth k) i"
    using f(2) by (simp add: page_view_def e1)
qed

end

end
