(* ===== verification/Kernel_Invariant.thy ===== *)
theory Kernel_Invariant
  imports Trap_Correct
begin

text \<open>
  Every trap keeps the invariant of the kernel and the pages of the processes, or stops the system
  with one of three messages.
\<close>

section \<open>Outcomes that may stop\<close>

text \<open>The run returns a result with the property \<open>Q\<close>, or stops with a message of \<open>E\<close>.\<close>

primrec stops_or :: "string set \<Rightarrow> 'a outcome \<Rightarrow> ('a \<Rightarrow> bool) \<Rightarrow> bool" where
  "stops_or E (Ret x) Q = Q x"
| "stops_or E (Fatal s) Q = (s \<in> E)"

lemma stops_or_obind [simp]: "stops_or E (obind m f) Q = stops_or E m (\<lambda>x. stops_or E (f x) Q)"
  by (cases m) auto

lemma stops_or_mono: "stops_or E m P \<Longrightarrow> (\<And>x. P x \<Longrightarrow> Q x) \<Longrightarrow> E \<subseteq> E' \<Longrightarrow> stops_or E' m Q"
  by (cases m) auto

lemma owp_stops_or: "owp m Q \<Longrightarrow> stops_or E m Q"
  by (cases m) auto

definition no_runnable :: string where
  "no_runnable = ''proc_yield: no runnable process''"

definition trap_messages :: "string set" where
  "trap_messages = {no_runnable, ''proc_syscall: got unknown syscall type'', ''excp_entry: kernel got exception''}"

lemma yield_stops: "next_runnable (proc_set k) (proc_curr_idx k) 1 8 = None \<Longrightarrow> proc_yield k = Fatal no_runnable"
  by (simp add: proc_yield_def no_runnable_def)

lemma waiting_sender_ex:
  assumes "length ps = 8" "waiting_sender pid ps \<noteq> - 1"
  obtains j where "j < 8" "p_status (ps ! j) = PROC_WAIT_TO_SEND" "receiver_pid (ps ! j) = pid"
    "p_pid (ps ! j) = waiting_sender pid ps"
proof -
  let ?ws = "filter (\<lambda>p. p_status p = PROC_WAIT_TO_SEND \<and> receiver_pid p = pid) ps"
  have ne: "?ws \<noteq> []" and w: "waiting_sender pid ps = p_pid (last ?ws)"
    using assms(2) by (auto simp: waiting_sender_eq Let_def split: if_splits)
  from last_in_set [OF ne] have "last ?ws \<in> set ps" "p_status (last ?ws) = PROC_WAIT_TO_SEND"
    "receiver_pid (last ?ws) = pid" by auto
  then show ?thesis using that w assms(1) by (metis in_set_conv_nth)
qed

section \<open>The system calls\<close>

text \<open>Processes that have run keep the context that was saved for them.\<close>

definition ctx_kept :: "process list \<Rightarrow> process list \<Rightarrow> bool" where
  "ctx_kept ps ps' \<longleftrightarrow> (\<forall>i<8. p_status (ps ! i) \<noteq> PROC_READY \<longrightarrow> p_status (ps' ! i) \<noteq> PROC_READY \<and>
     p_mepc (ps' ! i) = p_mepc (ps ! i) \<and> saved_register (ps' ! i) = saved_register (ps ! i))"

lemma ctx_kept_refl [simp]: "ctx_kept ps ps"
  by (simp add: ctx_kept_def)

lemma ctx_kept_trans: "ctx_kept ps qs \<Longrightarrow> ctx_kept qs rs \<Longrightarrow> ctx_kept ps rs"
  by (simp add: ctx_kept_def)

lemma ctx_kept_update:
  assumes "p_mepc p = p_mepc (ps ! j)" "saved_register p = saved_register (ps ! j)" "p_status p \<noteq> PROC_READY"
    "length ps = 8"
  shows "ctx_kept ps (ps[j := p])"
  using assms by (cases "j < 8") (auto simp: ctx_kept_def nth_list_update list_update_beyond)

lemma ctx_kept_scheduled:
  assumes "length ps = 8" "c < 8" "t < 8"
  shows "ctx_kept ps (scheduled ps c t)"
  unfolding ctx_kept_def
proof (intro allI impI)
  fix i :: nat assume i: "i < 8" and r: "p_status (ps ! i) \<noteq> PROC_READY"
  have "i \<noteq> t \<or> p_status (ps ! t) \<noteq> PROC_READY" using r by auto
  from scheduled_status(5) [OF assms i this] r
  show "p_status (scheduled ps c t ! i) \<noteq> PROC_READY \<and>
     p_mepc (scheduled ps c t ! i) = p_mepc (ps ! i) \<and> saved_register (scheduled ps c t ! i) = saved_register (ps ! i)"
    by (simp add: scheduled_status(1) [OF assms i])
qed

definition step_ok :: "('d earth \<Rightarrow> nat \<Rightarrow> byte list) \<Rightarrow> ('d earth \<Rightarrow> bool) \<Rightarrow> u32 set \<Rightarrow> 'd kernel \<Rightarrow> 'd kernel \<Rightarrow> bool" where
  "step_ok frame I S k k' \<longleftrightarrow> trap_ok I S k' \<and> isolated frame (k_earth k) (k_earth k') \<and>
     ctx_kept (proc_set k) (proc_set k')"

lemma step_ok_trans: "step_ok frame I S k k' \<Longrightarrow> step_ok frame I S k' k'' \<Longrightarrow> step_ok frame I S k k''"
  unfolding step_ok_def by (blast intro: isolated_trans ctx_kept_trans)

context paging_device
begin

lemma switched_step_ok:
  assumes k: "trap_ok inv store k" and w: "switched frame inv store k qs t V k'"
    and qs: "qs = (proc_set k)[j := p]" "j < 8" "p_pid p = p_pid (proc_set k ! j)" "live (proc_set k ! j)"
    and c: "p_mepc p = p_mepc (proc_set k ! j)" "saved_register p = saved_register (proc_set k ! j)" "p_status p \<noteq> PROC_READY"
    and t: "next_runnable qs (proc_curr_idx k) 1 8 = Some t"
    and V: "\<And>i. used (k_earth k) i \<Longrightarrow> V i = page_view frame (k_earth k) i \<or>
      fm_page_no (table (k_earth k) ! i) = 0x80000 \<and> same_but_sysarg (page_view frame (k_earth k) i) (V i)"
  shows "step_ok frame inv store k k'"
proof -
  note D = kernel_okD [OF trap_ok_kernel [OF k]]
  have "t < 8" using t by (auto simp: next_runnable_spec)
  then have "ctx_kept qs (proc_set k')" using ctx_kept_scheduled [of qs "proc_curr_idx k" t] w D(2,3) qs(1)
    by (simp add: switched_def)
  then have "ctx_kept (proc_set k) (proc_set k')"
    using ctx_kept_update [OF c D(3)] qs(1) ctx_kept_trans by blast
  moreover have "isolated frame (k_earth k) (k_earth k')"
    by (rule isolated_pages [OF _ V]) (use w in \<open>auto simp: switched_def\<close>)
  ultimately show ?thesis using switched_trap_ok [OF k w qs t] by (simp add: step_ok_def)
qed

lemma arg_length: "trap_ok inv store k \<Longrightarrow> arg_frame (k_earth k) p i \<Longrightarrow> length (page_view frame (k_earth k) i) = 4096"
  using page_view_length [of "k_earth k" i] kernel_okD(6) [OF trap_ok_kernel, of inv store k] by (simp add: arg_frame_def)

lemma msg_in_length: "length page = 4096 \<Longrightarrow> length (msg_in page) = 1032"
  by (simp add: msg_in_def sizeof_sys_msg_1032)

lemma yield_step_ok:
  assumes k: "trap_ok inv store k"
  shows "owp (proc_yield k) (step_ok frame inv store k)"
proof -
  note D = kernel_okD [OF trap_ok_kernel [OF k]]
  let ?c = "proc_curr_idx k"
  obtain t where t: "next_runnable (proc_set k) ?c 1 8 = Some t"
    using next_runnable_ex [of ?c "proc_set k" ?c] D(2,4) by (auto simp: runnable_def)
  have "owp (proc_yield k) (switched frame inv store k (proc_set k) t (page_view frame (k_earth k)))"
    by (rule owp_mono [OF yield_ok [OF D(6,7,1,2) _ t]]) (use D(9) in \<open>auto simp: switched_def\<close>)
  then show ?thesis
  proof (rule owp_mono)
    fix k' assume w: "switched frame inv store k (proc_set k) t (page_view frame (k_earth k)) k'"
    show "step_ok frame inv store k k'"
      by (rule switched_step_ok [OF k w _ D(2) _ _ _ _ _ t, where p = "curr_proc k"]) (use D(4) in \<open>simp_all add: live_def\<close>)
  qed
qed

lemma send_unknown_step:
  assumes k: "trap_ok inv store k" and i: "arg_frame (k_earth k) (curr_pid k) i"
    and r: "\<forall>p\<in>set (proc_set k). p_pid p \<noteq> receiver_of (page_view frame (k_earth k) i)"
  shows "owp (proc_send k) (step_ok frame inv store k)"
proof (rule owp_mono [OF send_unknown [OF trap_ok_kernel [OF k] i r]], elim conjE)
  fix k' :: "'d kernel"
  assume k': "kernel_ok inv store k'" "proc_set k' = proc_set k"
    "pages_now frame store (k_earth k) ((page_view frame (k_earth k))(i :=
       put_word 0x80C 0xFFFFFFFF (stamp (curr_pid k) (page_view frame (k_earth k) i)))) (k_earth k')"
  have "trap_ok inv store k'"
    by (rule trap_ok_keep [OF k k'(1)]) (use k'(2,3) in \<open>simp_all add: pages_now_def\<close>)
  moreover have "isolated frame (k_earth k) (k_earth k')"
    by (rule isolated_pages [OF k'(3)])
      (use i same_but_sysarg_stamp [OF arg_length [OF k i]] in \<open>auto simp: arg_frame_def\<close>)
  ultimately show "step_ok frame inv store k k'" using k'(2) by (simp add: step_ok_def)
qed

lemma send_blocks_step:
  assumes k: "trap_ok inv store k" and i: "arg_frame (k_earth k) (curr_pid k) i"
    and r: "r = receiver_of (page_view frame (k_earth k) i)"
    and j: "find_proc (\<lambda>p. p_pid p = r) 0 (proc_set k) = Some j" "p_status (proc_set k ! j) \<noteq> PROC_WAIT_TO_RECV"
  shows "stops_or {no_runnable} (proc_send k) (step_ok frame inv store k)"
proof -
  note K = trap_ok_kernel [OF k]
  note D = kernel_okD [OF K]
  let ?c = "proc_curr_idx k" and ?V = "page_view frame (k_earth k)"
  define qs where qs: "qs = (proc_set k)[?c := (curr_proc k)\<lparr>p_status := PROC_WAIT_TO_SEND, receiver_pid := r\<rparr>]"
  show ?thesis
  proof (cases "next_runnable qs ?c 1 8")
    case None
    then have "proc_send k = Fatal no_runnable"
      unfolding send_blocks_eq [OF K i r j] by (intro yield_stops) (simp add: update_curr_def update_mem_def qs)
    then show ?thesis by simp
  next
    case (Some t)
    have "owp (proc_send k) (step_ok frame inv store k)"
    proof (rule owp_mono [OF send_blocks [OF K i r j qs Some]])
      fix k' assume w: "switched frame inv store k qs t (?V(i := stamp (curr_pid k) (?V i))) k'"
      show "step_ok frame inv store k k'"
        by (rule switched_step_ok [OF k w qs D(2) _ _ _ _ _ Some])
          (use D(4) i same_but_sysarg_msg(2) [OF arg_length [OF k i]] in \<open>auto simp: live_def arg_frame_def\<close>)
    qed
    then show ?thesis by (rule owp_stops_or)
  qed
qed

lemma runnable_other:
  assumes "kernel_ok inv store k" "qs = (proc_set k)[j := p]" "j \<noteq> proc_curr_idx k"
  obtains t where "next_runnable qs (proc_curr_idx k) 1 8 = Some t"
proof -
  note D = kernel_okD [OF assms(1)]
  have "runnable (p_status (qs ! proc_curr_idx k))" using D assms(2,3) by (simp add: runnable_def)
  from next_runnable_ex [OF D(2) this] that show ?thesis by blast
qed

lemma send_delivers_step:
  assumes k: "trap_ok inv store k" and i: "arg_frame (k_earth k) (curr_pid k) i"
    and r: "r = receiver_of (page_view frame (k_earth k) i)"
    and j: "j < 8" "p_pid (proc_set k ! j) = r" "p_status (proc_set k ! j) = PROC_WAIT_TO_RECV"
  shows "owp (proc_send k) (step_ok frame inv store k)"
proof -
  note K = trap_ok_kernel [OF k]
  note D = kernel_okD [OF K]
  let ?V = "page_view frame (k_earth k)"
  define qs where qs: "qs = (proc_set k)[j := (proc_set k ! j)\<lparr>p_status := PROC_RUNNABLE\<rparr>]"
  have lj: "live (proc_set k ! j)" using j(3) by (simp add: live_def)
  have "j \<noteq> proc_curr_idx k" using D(4) j(3) by auto
  from runnable_other [OF K qs this] obtain t where t: "next_runnable qs (proc_curr_idx k) 1 8 = Some t" .
  from trap_ok_arg [OF k j(1) lj] obtain b where b: "arg_frame (k_earth k) r b" unfolding j(2) .
  show ?thesis
  proof (rule owp_mono [OF send_delivers [OF K i r j b qs t]])
    fix k' assume w: "switched frame inv store k qs t (?V(i := stamp (curr_pid k) (?V i),
      b := put_msg (stamped_msg (curr_pid k) (?V i)) (?V b))) k'"
    have len: "length (stamped_msg (curr_pid k) (?V i)) = 1032"
      using msg_in_length [OF arg_length [OF k i]] by (simp add: stamped_msg_def)
    show "step_ok frame inv store k k'"
      by (rule switched_step_ok [OF k w qs j(1) _ lj _ _ _ t])
        (use i b same_but_sysarg_msg(2) [OF arg_length [OF k i]] same_but_sysarg_msg(1) [OF arg_length [OF k b] len]
          in \<open>auto simp: arg_frame_def\<close>)
  qed
qed

lemma send_step_ok:
  assumes k: "trap_ok inv store k"
  shows "stops_or {no_runnable} (proc_send k) (step_ok frame inv store k)"
proof -
  obtain i where i: "arg_frame (k_earth k) (curr_pid k) i" using trap_ok_curr [OF k] .
  define r where r: "r = receiver_of (page_view frame (k_earth k) i)"
  show ?thesis
  proof (cases "find_proc (\<lambda>p. p_pid p = r) 0 (proc_set k)")
    case None
    then show ?thesis using send_unknown_step [OF k i] owp_stops_or by (simp add: find_proc_None r)
  next
    case (Some j)
    then have j: "j < 8" "p_pid (proc_set k ! j) = r"
      using find_proc_Some [OF Some] kernel_okD(3) [OF trap_ok_kernel [OF k]] by auto
    then show ?thesis
      using send_blocks_step [OF k i r Some] owp_stops_or [OF send_delivers_step [OF k i r j]] by blast
  qed
qed

lemma recv_step_ok:
  assumes k: "trap_ok inv store k"
  shows "stops_or {no_runnable} (proc_recv k) (step_ok frame inv store k)"
proof (cases "waiting_sender (curr_pid k) (proc_set k) = - 1")
  case w: True
  note K = trap_ok_kernel [OF k]
  note D = kernel_okD [OF K]
  let ?c = "proc_curr_idx k"
  define qs where qs: "qs = (proc_set k)[?c := (curr_proc k)\<lparr>p_status := PROC_WAIT_TO_RECV\<rparr>]"
  show ?thesis
  proof (cases "next_runnable qs ?c 1 8")
    case None
    then have "proc_yield (update_curr (\<lambda>p. p\<lparr>p_status := PROC_WAIT_TO_RECV\<rparr>) k) = Fatal no_runnable"
      by (intro yield_stops) (simp add: update_curr_def qs)
    then show ?thesis by (simp add: proc_recv_def w)
  next
    case (Some t)
    have "owp (proc_recv k) (step_ok frame inv store k)"
      by (rule owp_mono [OF recv_blocks [OF K w qs Some]], rule switched_step_ok [OF k _ qs D(2) _ _ _ _ _ Some])
        (use D(4) in \<open>auto simp: live_def\<close>)
    then show ?thesis by (rule owp_stops_or)
  qed
next
  case False
  note K = trap_ok_kernel [OF k]
  note D = kernel_okD [OF K]
  let ?V = "page_view frame (k_earth k)"
  obtain j where j: "j < 8" "p_status (proc_set k ! j) = PROC_WAIT_TO_SEND"
    "p_pid (proc_set k ! j) = waiting_sender (curr_pid k) (proc_set k)"
    using waiting_sender_ex [OF D(3) False] by metis
  define qs where qs: "qs = (proc_set k)[j := (proc_set k ! j)\<lparr>p_status := PROC_RUNNABLE\<rparr>]"
  have lj: "live (proc_set k ! j)" using j(2) by (simp add: live_def)
  have "j \<noteq> proc_curr_idx k" using D(4) j(2) by auto
  from runnable_other [OF K qs this] obtain t where t: "next_runnable qs (proc_curr_idx k) 1 8 = Some t" .
  obtain b where b: "arg_frame (k_earth k) (curr_pid k) b" using trap_ok_curr [OF k] .
  obtain i where i: "arg_frame (k_earth k) (p_pid (proc_set k ! j)) i" using trap_ok_arg [OF k j(1) lj] .
  have "owp (proc_recv k) (step_ok frame inv store k)"
  proof (rule owp_mono [OF recv_delivers [OF K b j(1) refl j(2) j(3) [symmetric] i qs t]])
    fix k' assume w: "switched frame inv store k qs t (?V(b := put_msg (msg_in (?V i)) (?V b))) k'"
    have len: "length (msg_in (?V i)) = 1032" by (rule msg_in_length [OF arg_length [OF k i]])
    show "step_ok frame inv store k k'"
      by (rule switched_step_ok [OF k w qs j(1) _ lj _ _ _ t])
        (use b same_but_sysarg_msg(1) [OF arg_length [OF k b] len] in \<open>auto simp: arg_frame_def\<close>)
  qed
  then show ?thesis by (rule owp_stops_or)
qed

end

section \<open>The trap handler\<close>

lemma update_mem_comp: "update_mem f (update_mem g k) = update_mem (\<lambda>m. f (g m)) k"
  by (simp add: update_mem_def)

text \<open>The system call page once the kernel has taken the call: return value and type are cleared.\<close>

definition taken :: "byte list \<Rightarrow> byte list" where
  "taken page = put_word 0x400 0 (put_word 0x80C 0 page)"

lemma same_but_sysarg_taken:
  assumes "length p = 4096"
  shows "same_but_sysarg p (taken p)"
proof -
  have 1: "same_but_sysarg p (put_word 0x80C 0 p)" using same_but_sysarg_msg(3) [OF assms] by simp
  then have "length (put_word 0x80C 0 p) = 4096" using assms by (simp add: same_but_sysarg_def)
  from same_but_sysarg_msg(3) [OF this] show ?thesis unfolding taken_def
    by (intro same_but_sysarg_trans [OF 1]) simp
qed

lemma length_regs_bytes: "length (regs_bytes rs) = 4 * length rs"
  by (induction rs) (simp_all add: regs_bytes_def)

lemma regs_bytes_nth: "i < length rs \<Longrightarrow> take 4 (drop (4 * i) (regs_bytes rs)) = word_bytes (rs ! i)"
proof (induction rs arbitrary: i)
  case (Cons r rs)
  have r: "regs_bytes (r # rs) = word_bytes r @ regs_bytes rs" by (simp add: regs_bytes_def)
  show ?case
  proof (cases i)
    case (Suc j)
    have "drop (4 * i) (regs_bytes (r # rs)) = drop (4 * j) (regs_bytes rs)" by (simp add: r Suc)
    with Cons Suc show ?thesis by simp
  qed (simp add: r)
qed simp

lemma load_regs_bytes:
  assumes "length rs = 29"
  shows "load_regs (mem_write m SAVED_REGISTER_ADDR (regs_bytes rs)) = rs"
proof (rule nth_equalityI)
  let ?m = "mem_write m SAVED_REGISTER_ADDR (regs_bytes rs)"
  show "length (load_regs ?m) = length rs" using assms by (simp add: load_regs_def SAVED_REGISTER_NUM_def)
  fix i assume "i < length (load_regs ?m)"
  then have i: "i < 29" by (simp add: load_regs_def SAVED_REGISTER_NUM_def)
  have "mem_read ?m SAVED_REGISTER_ADDR 116 = regs_bytes rs"
    using assms by (simp add: length_regs_bytes)
  then have "mem_read ?m (SAVED_REGISTER_ADDR + of_nat (4 * i)) 4 = word_bytes (rs ! i)"
    using mem_read_part [of "4 * i" 4 116 ?m SAVED_REGISTER_ADDR] i assms regs_bytes_nth [of i rs] by simp
  then have "load32 ?m (SAVED_REGISTER_ADDR + of_nat (4 * i)) = rs ! i"
    unfolding load32_mem_read by (simp only:) (simp add: word_bytes_def)
  then show "load_regs ?m ! i = rs ! i" using i by (simp add: load_regs_def SAVED_REGISTER_NUM_def)
qed

context paging_device
begin

lemma arg_store_trap_ok:
  assumes k: "trap_ok inv store k" "arg_frame (k_earth k) (curr_pid k) i" "off + 4 \<le> 4096"
    and k1: "k1 = update_mem (\<lambda>m. store32 m (page_addr 0x80000 + of_nat off) v) k"
  shows "trap_ok inv store k1" "proc_set k1 = proc_set k" "proc_curr_idx k1 = proc_curr_idx k"
    "proc_nprocs k1 = proc_nprocs k" "csr_mepc k1 = csr_mepc k"
    "table (k_earth k1) = table (k_earth k)" "platform (k_earth k1) = platform (k_earth k)"
    "\<And>f. used (k_earth k) f \<Longrightarrow> page_view frame (k_earth k1) f =
       (if f = i then put_word off v (page_view frame (k_earth k) i) else page_view frame (k_earth k) f)"
proof -
  note w = arg_store_ok [OF trap_ok_kernel [OF k(1)] k(2,3) k1]
  show *: "proc_set k1 = proc_set k" "proc_curr_idx k1 = proc_curr_idx k"
    "proc_nprocs k1 = proc_nprocs k" "csr_mepc k1 = csr_mepc k"
    "table (k_earth k1) = table (k_earth k)" "platform (k_earth k1) = platform (k_earth k)"
    "\<And>f. used (k_earth k) f \<Longrightarrow> page_view frame (k_earth k1) f =
       (if f = i then put_word off v (page_view frame (k_earth k) i) else page_view frame (k_earth k) f)"
    using w(2-6) by (simp_all add: pages_now_def)
  show "trap_ok inv store k1" by (rule trap_ok_keep [OF k(1) w(1)]) (use * in simp_all)
qed

lemma syscall_taken:
  assumes k: "trap_ok inv store k" "arg_frame (k_earth k) (curr_pid k) i"
    and k1: "k1 = update_mem (\<lambda>m. store32 (store32 (store32 m SC_RETVAL 0) SC_TYPE SYS_UNUSED)
                (MSIP (platform (k_earth k))) 0) k"
  shows "trap_ok inv store k1" "proc_set k1 = proc_set k" "proc_curr_idx k1 = proc_curr_idx k"
    "proc_nprocs k1 = proc_nprocs k" "csr_mepc k1 = csr_mepc k"
    "table (k_earth k1) = table (k_earth k)" "platform (k_earth k1) = platform (k_earth k)"
    "\<And>f. used (k_earth k) f \<Longrightarrow> page_view frame (k_earth k1) f =
       (if f = i then taken (page_view frame (k_earth k) i) else page_view frame (k_earth k) f)"
proof -
  have off: "(0x80C::nat) + 4 \<le> 4096" "(0x400::nat) + 4 \<le> 4096" by simp_all
  let ?p = "platform (k_earth k)"
  define ka where "ka = update_mem (\<lambda>m. store32 m (page_addr 0x80000 + of_nat 0x80C) 0) k"
  note A = arg_store_trap_ok [OF k off(1) ka_def]
  have ia: "arg_frame (k_earth ka) (curr_pid ka) i" using A(2,3,6) k(2) by (simp add: arg_frame_def)
  define kb where "kb = update_mem (\<lambda>m. store32 m (page_addr 0x80000 + of_nat 0x400) 0) ka"
  note B = arg_store_trap_ok [OF A(1) ia off(2) kb_def]
  have k1': "k1 = update_mem (\<lambda>m. mem_write m (MSIP ?p) (word_bytes 0)) kb"
    unfolding k1 kb_def ka_def update_mem_comp sc_addresses SYS_UNUSED_def by (simp add: store32_def)
  have "in_region (MSIP ?p) (length (word_bytes 0)) x \<Longrightarrow> x \<in> kernel_area (platform (k_earth kb))" for x
    using A(7) B(7) by (simp add: kernel_area_def)
  note C = kernel_write_ok [OF B(1) this k1']
  show "trap_ok inv store k1" "proc_set k1 = proc_set k" "proc_curr_idx k1 = proc_curr_idx k"
    "proc_nprocs k1 = proc_nprocs k" "csr_mepc k1 = csr_mepc k"
    "table (k_earth k1) = table (k_earth k)" "platform (k_earth k1) = platform (k_earth k)"
    using A B C by simp_all
  fix f assume u: "used (k_earth k) f"
  moreover have "used (k_earth k) i" using k(2) by (simp add: arg_frame_def)
  ultimately show "page_view frame (k_earth k1) f =
       (if f = i then taken (page_view frame (k_earth k) i) else page_view frame (k_earth k) f)"
    using A(6,8) B(6,8) C(8) by (simp add: taken_def)
qed

lemma isolated_taken:
  assumes k: "trap_ok inv store k" "arg_frame (k_earth k) (curr_pid k) i"
    and e: "table e = table (k_earth k)" "platform e = platform (k_earth k)"
    and V: "\<And>f. used (k_earth k) f \<Longrightarrow> page_view frame e f =
       (if f = i then taken (page_view frame (k_earth k) i) else page_view frame (k_earth k) f)"
  shows "isolated frame (k_earth k) e"
  using k(2) e V same_but_sysarg_taken [OF arg_length [OF k]] by (auto simp: isolated_def arg_frame_def)

lemma syscall_step_ok:
  assumes k: "trap_ok inv store k"
  shows "stops_or trap_messages (proc_syscall k) (step_ok frame inv store k)"
proof -
  obtain i where i: "arg_frame (k_earth k) (curr_pid k) i" using trap_ok_curr [OF k] .
  define k1 where "k1 = update_mem (\<lambda>m. store32 (store32 (store32 m SC_RETVAL 0) SC_TYPE SYS_UNUSED)
                (MSIP (platform (k_earth k))) 0) k"
  note T = syscall_taken [OF k i k1_def]
  have 1: "step_ok frame inv store k k1" using T isolated_taken [OF k i] by (simp add: step_ok_def)
  have "stops_or trap_messages (proc_send k1) (step_ok frame inv store k)"
    "stops_or trap_messages (proc_recv k1) (step_ok frame inv store k)"
    by (rule stops_or_mono [OF send_step_ok [OF T(1)] step_ok_trans [OF 1]] stops_or_mono [OF recv_step_ok [OF T(1)] step_ok_trans [OF 1]],
        assumption, simp add: trap_messages_def)+
  then show ?thesis unfolding proc_syscall_def Let_def k1_def [symmetric] by (simp add: trap_messages_def)
qed

lemma reset_timer_step_ok:
  assumes k: "trap_ok inv store k"
  shows "step_ok frame inv store k (reset_timer k)"
proof -
  note D = kernel_okD [OF trap_ok_kernel [OF k]]
  note r = reset_timer_ok [OF D(6,7)]
  have "kernel_ok inv store (reset_timer k)"
    using trap_ok_kernel [OF k] r by (simp add: kernel_ok_def kernel_wf_def)
  then have "trap_ok inv store (reset_timer k)"
    by (rule trap_ok_keep [OF k]) (use r in \<open>simp_all add: pages_now_def\<close>)
  then show ?thesis using isolated_same [OF r(3)] r(5) by (simp add: step_ok_def)
qed

lemma tty_step_ok:
  assumes k: "trap_ok inv store k"
    and k1: "k1 = k\<lparr>k_earth := (k_earth k)\<lparr>dev := snd (tty_recv_intr (k_earth k) (dev (k_earth k)))\<rparr>\<rparr>"
  shows "step_ok frame inv store k k1"
proof -
  note D = kernel_okD [OF trap_ok_kernel [OF k]]
  note f = frame_tty [OF D(6)]
  have "kernel_ok inv store k1"
    using trap_ok_kernel [OF k] f by (simp add: kernel_ok_def kernel_wf_def k1 vm_wf_def)
  then have "trap_ok inv store k1" by (rule trap_ok_keep [OF k]) (simp_all add: k1)
  moreover have "isolated frame (k_earth k) (k_earth k1)"
    using f by (simp add: isolated_def page_view_def k1)
  ultimately show ?thesis by (simp add: step_ok_def k1)
qed

lemma mepc_step_ok: "step_ok frame inv store k k' \<Longrightarrow> step_ok frame inv store k (k'\<lparr>csr_mepc := v\<rparr>)"
  by (auto simp: step_ok_def trap_ok_def kernel_ok_def kernel_wf_def)

lemma intr_step_ok:
  assumes k: "trap_ok inv store k"
  shows "stops_or trap_messages (intr_entry iid k) (step_ok frame inv store k)"
proof (cases "iid = INTR_ID_TIMER \<and> curr_pid k < GPID_SHELL")
  case True
  then show ?thesis using reset_timer_step_ok [OF k] by (simp add: intr_entry_def)
next
  case False
  define k1 where "k1 = k\<lparr>k_earth := (k_earth k)\<lparr>dev := snd (tty_recv_intr (k_earth k) (dev (k_earth k)))\<rparr>\<rparr>"
  note 1 = tty_step_ok [OF k k1_def]
  have t1: "trap_ok inv store k1" using 1 by (simp add: step_ok_def)
  have y: "stops_or trap_messages (proc_yield k2) (step_ok frame inv store k)"
    if "step_ok frame inv store k k2" for k2
    by (rule stops_or_mono [OF owp_stops_or [OF yield_step_ok, of k2 trap_messages] step_ok_trans [OF that]])
      (use that in \<open>simp_all add: step_ok_def\<close>)
  have body: "intr_entry iid k = (if fst (tty_recv_intr (k_earth k) (dev (k_earth k))) \<noteq> 0 \<and> curr_pid k1 \<ge> GPID_USER_START
      then Ret (k1\<lparr>csr_mepc := 0x800500C\<rparr>)
      else obind (if iid = INTR_ID_SOFT then proc_syscall k1 else Ret k1)
        (\<lambda>k. if iid = INTR_ID_TIMER then proc_yield k else Ret k))"
    unfolding intr_entry_def if_not_P [OF False] by (simp add: k1_def case_prod_beta Let_def)
  have "stops_or trap_messages (if iid = INTR_ID_SOFT then proc_syscall k1 else Ret k1) (step_ok frame inv store k)"
    using stops_or_mono [OF syscall_step_ok [OF t1] step_ok_trans [OF 1]] 1 by simp
  from stops_or_mono [OF this _ subset_refl] y have "stops_or trap_messages (if iid = INTR_ID_SOFT then proc_syscall k1 else Ret k1)
      (\<lambda>k2. stops_or trap_messages (if iid = INTR_ID_TIMER then proc_yield k2 else Ret k2) (step_ok frame inv store k))"
    by simp
  then show ?thesis unfolding body using mepc_step_ok [OF 1] by (auto simp only: stops_or.simps stops_or_obind split: if_split)
qed

lemma save_ok:
  assumes k: "trap_ok inv store k"
    and k1: "k1 = update_curr (\<lambda>p. p\<lparr>p_mepc := pc, saved_register := regs\<rparr>) k" "length regs = 29"
  shows "trap_ok inv store k1" "isolated frame (k_earth k) (k_earth k1)"
proof -
  note D = kernel_okD [OF trap_ok_kernel [OF k]]
  have wf: "procs_wf (proc_set k1) (proc_nprocs k)"
    using procs_wf_update [OF D(1,2), of "(curr_proc k)\<lparr>p_mepc := pc, saved_register := regs\<rparr>"]
      k1(2) procs_wf_nth(3) [OF D(1,2)] by (simp add: k1(1) update_curr_def)
  have nth: "p_status (proc_set k1 ! i) = p_status (proc_set k ! i)" "p_pid (proc_set k1 ! i) = p_pid (proc_set k ! i)"
    if "i < 8" for i using D(2,3) that by (auto simp: k1 update_curr_def nth_list_update)
  have same: "proc_curr_idx k1 = proc_curr_idx k" "k_earth k1 = k_earth k" "proc_nprocs k1 = proc_nprocs k"
    by (simp_all add: k1 update_curr_def)
  have "kernel_wf k1" using wf D(2,9) nth(1) by (simp add: kernel_wf_def same)
  then have "kernel_ok inv store k1" using D nth(2) [OF D(2)] by (simp add: kernel_ok_def same)
  then show "trap_ok inv store k1" by (rule trap_ok_keep [OF k]) (use nth in \<open>simp_all add: same live_def\<close>)
  show "isolated frame (k_earth k) (k_earth k1)" by (simp add: same isolated_def)
qed

lemma restore_step_ok:
  assumes 1: "step_ok frame inv store k k1"
  shows "step_ok frame inv store k (update_mem (\<lambda>m. mem_write m SAVED_REGISTER_ADDR (regs_bytes (saved_register (curr_proc k1)))) k1)"
proof -
  have t: "trap_ok inv store k1" using 1 by (simp add: step_ok_def)
  note D = kernel_okD [OF trap_ok_kernel [OF t]]
  have "length (regs_bytes (saved_register (curr_proc k1))) = SAVED_REGISTER_SIZE"
    using procs_wf_nth(4) [OF D(1,2)] by (simp add: length_regs_bytes layout_defs)
  then have "in_region SAVED_REGISTER_ADDR (length (regs_bytes (saved_register (curr_proc k1)))) x \<Longrightarrow>
      x \<in> kernel_area (platform (k_earth k1))" for x by (simp add: kernel_area_def)
  note w = kernel_write_ok [OF t this refl]
  then have "step_ok frame inv store k1
      (update_mem (\<lambda>m. mem_write m SAVED_REGISTER_ADDR (regs_bytes (saved_register (curr_proc k1)))) k1)"
    by (simp add: step_ok_def isolated_def)
  with 1 show ?thesis by (rule step_ok_trans)
qed

text \<open>
  An interrupt saves the context of the current process, handles the interrupt, and leaves the
  context of the process that is current then in place.
\<close>

lemma kernel_entry_ok:
  assumes k: "trap_ok inv store k"
    and k1: "k1 = update_curr (\<lambda>p. p\<lparr>p_mepc := csr_mepc k, saved_register := load_regs (k_mem k)\<rparr>) k"
  shows "stops_or trap_messages (kernel_entry is_interrupt iid k) (\<lambda>k'. trap_ok inv store k' \<and>
     isolated frame (k_earth k) (k_earth k') \<and> ctx_kept (proc_set k1) (proc_set k') \<and>
     csr_mepc k' = p_mepc (curr_proc k') \<and> load_regs (k_mem k') = saved_register (curr_proc k'))"
proof (cases is_interrupt)
  case True
  have "length (load_regs (k_mem k)) = 29" by (simp add: load_regs_def SAVED_REGISTER_NUM_def)
  note 1 = save_ok [OF k k1 this]
  let ?Q = "\<lambda>k'. trap_ok inv store k' \<and>
     isolated frame (k_earth k) (k_earth k') \<and> ctx_kept (proc_set k1) (proc_set k') \<and>
     csr_mepc k' = p_mepc (curr_proc k') \<and> load_regs (k_mem k') = saved_register (curr_proc k')"
  have fin: "?Q (update_mem (\<lambda>m. mem_write m SAVED_REGISTER_ADDR (regs_bytes (saved_register (curr_proc k3)))) k3)"
    if k2: "step_ok frame inv store k1 k2" and k3: "k3 = k2\<lparr>csr_mepc := p_mepc (curr_proc k2)\<rparr>" for k2 k3 :: "'d kernel"
  proof -
    let ?k4 = "update_mem (\<lambda>m. mem_write m SAVED_REGISTER_ADDR (regs_bytes (saved_register (curr_proc k3)))) k3"
    have 3: "step_ok frame inv store k1 k3" using mepc_step_ok [OF k2] k3 by simp
    from restore_step_ok [OF this] have 4: "step_ok frame inv store k1 ?k4" .
    have "trap_ok inv store k3" using 3 by (simp add: step_ok_def)
    note D = kernel_okD [OF trap_ok_kernel [OF this]]
    have "load_regs (k_mem ?k4) = saved_register (curr_proc k3)"
      using load_regs_bytes [of "saved_register (curr_proc k3)" "k_mem k3"] procs_wf_nth(4) [OF D(1,2)]
      by (simp add: update_mem_def)
    then show ?thesis using 4 isolated_trans [OF 1(2)] k3 by (auto simp: step_ok_def update_mem_def)
  qed
  have "stops_or trap_messages (intr_entry iid k1) (step_ok frame inv store k1)"
    by (rule intr_step_ok [OF 1(1)])
  from stops_or_mono [OF this fin [OF _ refl] subset_refl]
  show ?thesis using True unfolding kernel_entry_def Let_def k1 [symmetric] by simp
next
  case False
  then show ?thesis by (simp add: kernel_entry_def excp_entry_def trap_messages_def Let_def)
qed

end

end
