(* ===== verification/Kernel_Runs.thy ===== *)
theory Kernel_Runs
  imports Kernel_Invariant
begin

text \<open>
  Runs of the kernel of grass/kernel.c on QEMU, where the frames of the paging device are
  in memory.
\<close>

section \<open>The kernel on QEMU\<close>

abbreviation sys_ok :: "'d kernel \<Rightarrow> bool" where
  "sys_ok k \<equiv> trap_ok on_qemu qemu_store k"

text \<open>The contents of frame \<open>i\<close> as its process sees it.\<close>

abbreviation page_of :: "'d kernel \<Rightarrow> nat \<Rightarrow> byte list" where
  "page_of k i \<equiv> page_view qemu_frame (k_earth k) i"

text \<open>
  Runs of the machine: the current process stores to one of its pages, or a trap enters the kernel.
  The trap code has saved the registers below the top of the kernel stack then. The list holds the
  processes that made stores.
\<close>

inductive kernel_run :: "'d kernel \<Rightarrow> int list \<Rightarrow> 'd kernel \<Rightarrow> bool" where
  start: "kernel_run k [] k"
| user_store: "kernel_run k ws k1 \<Longrightarrow> used (k_earth k1) i \<Longrightarrow> fm_pid (table (k_earth k1) ! i) = curr_pid k1 \<Longrightarrow>
    off + length bs \<le> PAGE_SIZE \<Longrightarrow>
    kernel_run k (curr_pid k1 # ws)
      (update_mem (\<lambda>m. mem_write m (page_addr (fm_page_no (table (k_earth k1) ! i)) + of_nat off) bs) k1)"
| trap: "kernel_run k ws k1 \<Longrightarrow> length regs = SAVED_REGISTER_NUM \<Longrightarrow>
    kernel_entry is_interrupt iid
      (update_mem (\<lambda>m. mem_write m SAVED_REGISTER_ADDR (regs_bytes regs)) (k1\<lparr>csr_mepc := pc\<rparr>)) = Ret k2 \<Longrightarrow>
    kernel_run k ws k2"

inductive_cases kernel_runE: "kernel_run k ws k'"

lemma stops_or_Ret: "stops_or E m Q \<Longrightarrow> m = Ret x \<Longrightarrow> Q x"
  by simp

text \<open>A trap with the registers and the program counter of the process that it interrupts.\<close>

lemma trap_run_ok:
  assumes k: "sys_ok k" and regs: "length regs = SAVED_REGISTER_NUM"
    and k0: "k0 = update_mem (\<lambda>m. mem_write m SAVED_REGISTER_ADDR (regs_bytes regs)) (k\<lparr>csr_mepc := pc\<rparr>)"
    and k2: "kernel_entry is_interrupt iid k0 = Ret k2"
  shows "sys_ok k2" "isolated qemu_frame (k_earth k) (k_earth k2)"
    "ctx_kept ((proc_set k)[proc_curr_idx k := (curr_proc k)\<lparr>p_mepc := pc, saved_register := regs\<rparr>]) (proc_set k2)"
    "csr_mepc k2 = p_mepc (curr_proc k2)" "load_regs (k_mem k2) = saved_register (curr_proc k2)"
proof -
  have r: "length regs = 29" using regs by (simp add: SAVED_REGISTER_NUM_def)
  have k1: "sys_ok (k\<lparr>csr_mepc := pc\<rparr>)"
    using k by (auto simp: trap_ok_def kernel_ok_def kernel_wf_def)
  have "in_region SAVED_REGISTER_ADDR (length (regs_bytes regs)) x \<Longrightarrow>
      x \<in> kernel_area (platform (k_earth (k\<lparr>csr_mepc := pc\<rparr>)))" for x
    by (simp add: kernel_area_def length_regs_bytes r layout_defs)
  note w = qemu.kernel_write_ok [OF k1 this k0]
  have iso: "isolated qemu_frame (k_earth k) (k_earth k0)" using w(6-8) by (simp add: isolated_def)
  have lr: "load_regs (k_mem k0) = regs" "csr_mepc k0 = pc"
    using load_regs_bytes [OF r] by (simp_all add: k0 update_mem_def)
  have save: "proc_set (update_curr (\<lambda>p. p\<lparr>p_mepc := csr_mepc k0, saved_register := load_regs (k_mem k0)\<rparr>) k0) =
      (proc_set k)[proc_curr_idx k := (curr_proc k)\<lparr>p_mepc := pc, saved_register := regs\<rparr>]"
    using w(2,3) by (simp add: update_curr_def lr)
  note e = stops_or_Ret [OF qemu.kernel_entry_ok [OF w(1) refl] k2, unfolded save]
  from e isolated_trans [OF iso] show "sys_ok k2" "isolated qemu_frame (k_earth k) (k_earth k2)"
    "ctx_kept ((proc_set k)[proc_curr_idx k := (curr_proc k)\<lparr>p_mepc := pc, saved_register := regs\<rparr>]) (proc_set k2)"
    "csr_mepc k2 = p_mepc (curr_proc k2)" "load_regs (k_mem k2) = saved_register (curr_proc k2)" by auto
qed

lemma store_run_ok:
  assumes k: "sys_ok k" and i: "used (k_earth k) i" "fm_pid (table (k_earth k) ! i) = curr_pid k" "off + length bs \<le> PAGE_SIZE"
    and k1: "k1 = update_mem (\<lambda>m. mem_write m (page_addr (fm_page_no (table (k_earth k) ! i)) + of_nat off) bs) k"
  shows "sys_ok k1" "proc_set k1 = proc_set k" "proc_curr_idx k1 = proc_curr_idx k"
    "table (k_earth k1) = table (k_earth k)"
    "\<And>j. used (k_earth k) j \<Longrightarrow> page_of k1 j = (if j = i then splice_at off bs (page_of k i) else page_of k j)"
proof -
  note D = kernel_okD [OF trap_ok_kernel [OF k]]
  have off: "off + length bs \<le> 4096" using i(3) by (simp add: PAGE_SIZE_def)
  have e1: "k_earth k1 = (k_earth k)\<lparr>mem := mem_write (k_mem k) (page_addr (fm_page_no (table (k_earth k) ! i)) + of_nat off) bs\<rparr>"
    by (simp add: k1 update_mem_def)
  have c: "fm_pid (table (k_earth k) ! i) = curr_vm_pid (k_earth k)" using i(2) D(8) by simp
  note w = qemu.user_write_ok [OF D(6,7) i(1) c off e1]
  show rest: "proc_set k1 = proc_set k" "proc_curr_idx k1 = proc_curr_idx k" "table (k_earth k1) = table (k_earth k)"
    by (simp_all add: k1 update_mem_def)
  have n: "proc_nprocs k1 = proc_nprocs k" by (simp add: k1 update_mem_def)
  have "kernel_ok on_qemu qemu_store k1"
    using trap_ok_kernel [OF k] w(1-3) rest n D(8) by (simp add: kernel_ok_def kernel_wf_def)
  then show "sys_ok k1" by (rule trap_ok_keep [OF k]) (use rest e1 in simp_all)
  show "\<And>j. used (k_earth k) j \<Longrightarrow> page_of k1 j = (if j = i then splice_at off bs (page_of k i) else page_of k j)"
    using w(4) by (simp add: pages_now_def)
qed

lemma kernel_run_ok:
  assumes "kernel_run k ws k'" "sys_ok k"
  shows "sys_ok k' \<and> table (k_earth k') = table (k_earth k) \<and>
    (\<forall>i. used (k_earth k) i \<longrightarrow> fm_pid (table (k_earth k) ! i) \<notin> set ws \<longrightarrow>
       page_of k' i = page_of k i \<or>
       fm_page_no (table (k_earth k) ! i) = 0x80000 \<and> same_but_sysarg (page_of k i) (page_of k' i))"
  using assms
proof (induction rule: kernel_run.induct)
  case (user_store k ws k1 i off bs)
  note w = store_run_ok [OF _ user_store(2-4) refl]
  have "fm_pid (table (k_earth k) ! j) \<notin> set (curr_pid k1 # ws) \<Longrightarrow> j \<noteq> i" for j
    using user_store.IH [OF user_store.prems] user_store.hyps(3) by auto
  then show ?case using user_store.IH [OF user_store.prems] w by auto
next
  case (trap k ws k1 regs is_interrupt iid pc k2)
  note w = trap_run_ok [OF _ trap(2) refl trap(3)]
  show ?case using trap.IH [OF trap.prems] w(1,2) same_but_sysarg_trans
    by (fastforce simp: isolated_def)
qed simp

section \<open>Fairness\<close>

text \<open>A number of yields in a row.\<close>

primrec yields :: "nat \<Rightarrow> 'd kernel \<Rightarrow> 'd kernel outcome" where
  "yields 0 k = Ret k"
| "yields (Suc n) k = obind (proc_yield k) (yields n)"

lemma cyc_dist_eq: "c < 8 \<Longrightarrow> i < 8 \<Longrightarrow> cyc_dist c i = (if c < i then i - c else i + 8 - c)"
proof -
  assume c: "c < 8" "i < 8"
  show ?thesis
  proof (cases "c < i")
    case True
    then have "(i + 7 - c) mod 8 = i - c - 1" using c by (simp add: mod_if)
    then show ?thesis using True c by (simp add: cyc_dist_def)
  qed (use c in \<open>simp add: cyc_dist_def\<close>)
qed

lemma cyc_dist_step:
  assumes "c < 8" "i < 8" "1 \<le> d" "d < cyc_dist c i" "t = (c + d) mod 8"
  shows "cyc_dist t i < cyc_dist c i"
proof -
  have "c + d < 16" using assms(1,4) cyc_dist [OF assms(2), of c] by simp
  then have t: "t = (if c + d < 8 then c + d else c + d - 8)" and "t < 8"
    using assms(5) by (auto simp: mod_if)
  with t show ?thesis using assms(1-4) by (auto simp: cyc_dist_eq split: if_splits)
qed

text \<open>Each yield brings the kernel closer to a runnable process, or switches to it.\<close>

lemma yield_progress:
  assumes k: "sys_ok k" and i: "i < 8" "runnable (p_status (proc_set k ! i))"
  shows "owp (proc_yield k) (\<lambda>k'. sys_ok k' \<and> runnable (p_status (proc_set k' ! i)) \<and>
    (proc_curr_idx k' = i \<or> cyc_dist (proc_curr_idx k') i < cyc_dist (proc_curr_idx k) i))"
proof -
  let ?c = "proc_curr_idx k" and ?ps = "proc_set k"
  note D = kernel_okD [OF trap_ok_kernel [OF k]]
  obtain t where t: "next_runnable ?ps ?c 1 8 = Some t" using next_runnable_ex [OF i] by blast
  then obtain j where j: "1 \<le> j" "j < 9" "t = (?c + j) mod 8" "runnable (p_status (?ps ! t))"
    "\<forall>j'. 1 \<le> j' \<longrightarrow> j' < j \<longrightarrow> \<not> runnable (p_status (?ps ! ((?c + j') mod 8)))"
    by (auto simp: next_runnable_spec)
  have t8: "t < 8" using j(3) by simp
  note c = cyc_dist [OF i(1), of ?c]
  have "\<not> cyc_dist ?c i < j" using j(5) c i(2) by auto
  then have near: "t = i \<or> cyc_dist t i < cyc_dist ?c i"
    using cyc_dist_step [OF D(2) i(1) j(1) _ j(3)] j(3) c by (cases "j = cyc_dist ?c i") auto
  have "owp (proc_yield k) (\<lambda>k'. proc_set k' = scheduled ?ps ?c t \<and> proc_curr_idx k' = t)"
    by (rule owp_mono [OF qemu.proc_yield_ok [OF D(6,7,1,2) t]]) simp
  from owp_conj [OF this qemu.yield_step_ok [OF k]] show ?thesis
  proof (rule owp_mono, elim conjE)
    fix k' assume k': "proc_set k' = scheduled ?ps ?c t" "proc_curr_idx k' = t" "step_ok qemu_frame on_qemu qemu_store k k'"
    have "runnable (p_status (proc_set k' ! i))"
      unfolding k'(1) scheduled_status(1) [OF D(3,2) t8 i(1)] using i(2) by (simp add: runnable_def)
    then show "sys_ok k' \<and> runnable (p_status (proc_set k' ! i)) \<and>
        (proc_curr_idx k' = i \<or> cyc_dist (proc_curr_idx k') i < cyc_dist (proc_curr_idx k) i)"
      using near k'(2,3) by (simp add: step_ok_def)
  qed
qed

lemma yields_reach:
  assumes "sys_ok k" "i < 8" "runnable (p_status (proc_set k ! i))"
  shows "\<exists>n. 1 \<le> n \<and> n \<le> cyc_dist (proc_curr_idx k) i \<and> owp (yields n k) (\<lambda>k'. sys_ok k' \<and> proc_curr_idx k' = i)"
  using assms(1,3)
proof (induction "cyc_dist (proc_curr_idx k) i" arbitrary: k rule: less_induct)
  case (less k)
  from yield_progress [OF less.prems(1) assms(2) less.prems(2)] obtain k' where k': "proc_yield k = Ret k'" "sys_ok k'"
    "runnable (p_status (proc_set k' ! i))"
    "proc_curr_idx k' = i \<or> cyc_dist (proc_curr_idx k') i < cyc_dist (proc_curr_idx k) i"
    by (auto simp: owp_iff)
  show ?case
  proof (cases "proc_curr_idx k' = i")
    case True
    then show ?thesis using k'(1,2) cyc_dist [OF assms(2), of "proc_curr_idx k"] by (intro exI [of _ 1]) simp
  next
    case False
    then have "cyc_dist (proc_curr_idx k') i < cyc_dist (proc_curr_idx k) i" using k'(4) by blast
    from less.hyps [OF this k'(2,3)] obtain n where n: "1 \<le> n" "n \<le> cyc_dist (proc_curr_idx k') i"
      "owp (yields n k') (\<lambda>k'. sys_ok k' \<and> proc_curr_idx k' = i)" by blast
    with k'(1) \<open>cyc_dist (proc_curr_idx k') i < cyc_dist (proc_curr_idx k) i\<close>
    show ?thesis by (intro exI [of _ "Suc n"]) simp
  qed
qed

end
