(* ===== verification/Load_Correct.thy ===== *)
theory Load_Correct
  imports Elf_Correct Kernel_Runs
begin

text \<open>
  What load_app and elf_load leave in the pages of a new process: the segment of the executable
  followed by zeros, the page of the arguments, and a page for the stack.
\<close>

section \<open>The end of the segment\<close>

definition segment_page :: "(u32 \<Rightarrow> block) \<Rightarrow> u32 \<Rightarrow> nat \<Rightarrow> nat \<Rightarrow> byte list" where
  "segment_page bf b0 filesz j =
     map (\<lambda>q. if 4096 * j + q < filesz then segment_byte bf b0 (4096 * j + q) else 0) [0..<4096]"

definition pages_image :: "u32 \<Rightarrow> (nat \<Rightarrow> byte list) \<Rightarrow> new_pages \<Rightarrow> bool" where
  "pages_image code img L \<longleftrightarrow> (\<forall>j<length L. snd (L ! j) = (code + of_nat j, img j))"

lemma length_segment_page [simp]: "length (segment_page bf b0 n j) = 4096"
  by (simp add: segment_page_def)

lemma segment_page_zero: "n \<le> 4096 * j \<Longrightarrow> segment_page bf b0 n j = replicate 4096 0"
  unfolding segment_page_def by (rule nth_equalityI) auto

lemma pages_full:
  assumes "pages_upto code (segment_byte bf b0) n L" "j < length L" "4096 * Suc j \<le> n"
  shows "snd (L ! j) = (code + of_nat j, segment_page bf b0 n j)"
proof -
  have "snd (snd (L ! j)) = segment_page bf b0 n j"
    by (rule nth_equalityI) (use assms in \<open>auto simp: pages_upto_def segment_page_def\<close>)
  then show ?thesis using assms(1,2) by (auto simp: pages_upto_def prod_eq_iff)
qed

text \<open>After the rest of the last page has been cleared.\<close>

lemma pages_cleared:
  assumes p: "pages_upto code (segment_byte bf b0) n (Lp @ [(i, pg, bs)])" and m: "n mod 4096 \<noteq> 0"
  shows "pages_image code (segment_page bf b0 n)
    (Lp @ [(i, pg, splice_at (n mod 4096) (replicate (4096 - n mod 4096) 0) bs)])"
proof -
  define w m where "w = n mod 4096" and "m = n div 4096"
  have n: "n = 4096 * m + w" "w < 4096" "w \<noteq> 0" using m by (simp_all add: w_def m_def)
  have "(n + 4095) div 4096 = Suc m" unfolding n(1) using n(2,3) by (intro div_nat_eqI) auto
  with p have len: "length Lp = m" by (simp add: pages_upto_def)
  have bs: "length bs = 4096" "pg = code + of_nat m" "\<And>q. q < w \<Longrightarrow> bs ! q = segment_byte bf b0 (4096 * m + q)"
    using p [unfolded pages_upto_def, THEN conjunct2, rule_format, of m] n len
      nth_append_length [of Lp "(i, pg, bs)" "[]"] by simp_all
  have "splice_at w (replicate (4096 - w) 0) bs = segment_page bf b0 n m"
    by (rule nth_equalityI) (use n bs in \<open>auto simp: nth_splice_at segment_page_def\<close>)
  moreover have "snd (Lp ! j) = (code + of_nat j, segment_page bf b0 n j)" if "j < m" for j
  proof -
    have "4096 * Suc j \<le> n" using that n(1) by simp
    from pages_full [OF p _ this] that len show ?thesis by (simp add: nth_append)
  qed
  ultimately show ?thesis unfolding pages_image_def w_def [symmetric] using len bs(2) by (auto simp: nth_append less_Suc_eq)
qed

lemma pages_complete:
  assumes "pages_upto code (segment_byte bf b0) n L" "n mod 4096 = 0"
  shows "pages_image code (segment_page bf b0 n) L"
proof -
  obtain m where m: "n = 4096 * m" using assms(2) by auto
  then have "length L = m" using assms(1) by (simp add: pages_upto_def)
  with m pages_full [OF assms(1)] show ?thesis by (simp add: pages_image_def)
qed

section \<open>Pages of zeros\<close>

lemma zero_page_ok:
  assumes l: "loaded e0 pid L e" "0 < nfree e" "pid < 32" and J: "\<And>e m t. J e \<Longrightarrow> J (e\<lparr>mem := m\<rparr>) \<and> J (e\<lparr>table := t\<rparr>)" "J e"
  shows "owp (zero_page pid pg e) (\<lambda>e'. \<exists>i. loaded e0 pid (L @ [(i, pg, replicate 4096 0)]) e' \<and> J e' \<and> Suc (nfree e') = nfree e)"
proof -
  obtain i e1 where e1: "new_page pid pg e = Ret (frame_addr i, e1)" "loaded e0 pid (L @ [(i, pg, qemu_frame e i)]) e1"
    "Suc (nfree e1) = nfree e" "i < 256" "e1 = e\<lparr>table := table e1\<rparr>"
    by (rule loaded_new_page [OF l])
  have "J e1" using J e1(5) by metis
  then have "J (e1\<lparr>mem := m\<rparr>)" for m using J(1) by blast
  moreover have "splice_at 0 (replicate 4096 0) (qemu_frame e i) = replicate 4096 0"
    using e1(4) by (simp add: splice_at_def qemu_frame_def layout_defs)
  moreover have "nfree (e1\<lparr>mem := m\<rparr>) = nfree e1" for m by (simp add: nfree_def)
  ultimately show ?thesis using loaded_store [OF e1(2), of 0 "replicate 4096 0"] e1(1,3)
    by (auto simp: zero_page_def memset_def layout_defs)
qed

lemma apps_end_3: "n \<le> 3 \<Longrightarrow> drop_bit 12 APPS_ENTRY + of_nat n < apps_end \<longleftrightarrow> n < 3"
proof -
  assume n: "n \<le> 3"
  have e: "drop_bit 12 APPS_ENTRY = (0x8005 :: u32)" "apps_end = 0x8008"
    by (simp_all add: apps_end_def layout_defs drop_bit_eq_div)
  have "unat (0x8005 + of_nat n :: u32) = 0x8005 + n"
    using n by (simp add: unat_word_ariths unat_of_nat take_bit_nat_eq_self)
  then show ?thesis unfolding e word_less_nat_alt by simp
qed

lemma zero_pages_ok:
  assumes "loaded e0 pid L e" "3 \<le> nfree e + length L" "pid < 32" and J: "\<And>e m t. J e \<Longrightarrow> J (e\<lparr>mem := m\<rparr>) \<and> J (e\<lparr>table := t\<rparr>)"
    and "J e" "length L \<le> 3" "pages_image (drop_bit 12 APPS_ENTRY) (segment_page bf b0 n) L" "n \<le> 4096 * length L"
  shows "owp (zero_pages pid (drop_bit 12 APPS_ENTRY + of_nat (length L)) e) (\<lambda>e'. \<exists>L'. loaded e0 pid L' e' \<and> J e' \<and>
    nfree e' + length L' = nfree e + length L \<and> length L' = 3 \<and> pages_image (drop_bit 12 APPS_ENTRY) (segment_page bf b0 n) L')"
  using assms(1,2,5-)
proof (induction "3 - length L" arbitrary: L e)
  case 0
  then have "length L = 3" by simp
  with 0 show ?case using apps_end_3 [of "length L"] by (subst zero_pages.simps) (auto intro!: exI [of _ L])
next
  case (Suc x)
  let ?code = "drop_bit 12 APPS_ENTRY :: u32"
  have len: "length L < 3" using Suc.hyps(2) by simp
  have "owp (zero_page pid (?code + of_nat (length L)) e) (\<lambda>e1. \<exists>i. loaded e0 pid (L @ [(i, ?code + of_nat (length L), replicate 4096 0)]) e1 \<and>
      J e1 \<and> Suc (nfree e1) = nfree e)"
    by (rule zero_page_ok [OF Suc.prems(1) _ assms(3) J]) (use Suc.prems(2,3) len in simp_all)
  then obtain e1 i where e1: "zero_page pid (?code + of_nat (length L)) e = Ret e1"
    "loaded e0 pid (L @ [(i, ?code + of_nat (length L), replicate 4096 0)]) e1" "J e1" "Suc (nfree e1) = nfree e"
    by (auto simp: owp_iff)
  let ?L = "L @ [(i, ?code + of_nat (length L), replicate 4096 0)]"
  have img: "pages_image ?code (segment_page bf b0 n) ?L"
    using Suc.prems(5,6) by (auto simp: pages_image_def nth_append less_Suc_eq segment_page_zero)
  have "owp (zero_pages pid (?code + of_nat (length ?L)) e1) (\<lambda>e'. \<exists>L'. loaded e0 pid L' e' \<and> J e' \<and>
    nfree e' + length L' = nfree e1 + length ?L \<and> length L' = 3 \<and> pages_image ?code (segment_page bf b0 n) L')"
    by (rule Suc.hyps(1) [OF _ e1(2) _ e1(3) _ img]) (use Suc.hyps(2) Suc.prems(2,6) len e1(4) in simp_all)
  moreover have "?code + of_nat (length ?L) = (?code + of_nat (length L)) + 1" by simp
  moreover have "nfree e1 + length ?L = nfree e + length L" using e1(4) by simp
  ultimately have "owp (zero_pages pid ((?code + of_nat (length L)) + 1) e1) (\<lambda>e'. \<exists>L'. loaded e0 pid L' e' \<and> J e' \<and>
    nfree e' + length L' = nfree e + length L \<and> length L' = 3 \<and> pages_image ?code (segment_page bf b0 n) L')" by metis
  then show ?case using len apps_end_3 [of "length L"] e1(1) by (subst zero_pages.simps) simp
qed

section \<open>The page of the arguments\<close>

text \<open>argc, the pointers, and the strings of a page of arguments.\<close>

definition args_page :: "nat \<Rightarrow> byte list \<Rightarrow> byte list \<Rightarrow> bool" where
  "args_page argc argv page \<longleftrightarrow> length page = 4096 \<and> page_word 0 page = of_nat argc \<and>
     (\<forall>j<argc. page_word (4 + 4 * j) page = arg_pointer j) \<and>
     take (32 * argc) (drop 68 page) = take (32 * argc) argv"

definition put_pointers :: "nat \<Rightarrow> byte list \<Rightarrow> byte list" where
  "put_pointers n page = fold (\<lambda>i p. put_word (4 + 4 * i) (arg_pointer i) p) [0..<n] page"

lemma put_pointers_Suc: "put_pointers (Suc n) page = put_word (4 + 4 * n) (arg_pointer n) (put_pointers n page)"
  by (simp add: put_pointers_def)

lemma page_word_put: "off + 4 \<le> length page \<Longrightarrow> page_word off (put_word off v page) = v"
  by (simp add: page_word_def put_word_def nth_splice_at word_bytes_def)

lemma put_pointers_ok:
  assumes "length page = 4096" "n \<le> 16"
  shows "length (put_pointers n page) = 4096 \<and> page_word 0 (put_pointers n page) = page_word 0 page \<and>
    (\<forall>j<n. page_word (4 + 4 * j) (put_pointers n page) = arg_pointer j) \<and>
    drop 68 (put_pointers n page) = drop 68 page"
  using assms(2)
proof (induction n)
  case (Suc n)
  let ?p = "put_pointers n page"
  have IH: "length ?p = 4096" "page_word 0 ?p = page_word 0 page" "\<forall>j<n. page_word (4 + 4 * j) ?p = arg_pointer j"
    "drop 68 ?p = drop 68 page" using Suc by simp_all
  have l: "length (put_word (4 + 4 * n) (arg_pointer n) ?p) = 4096" using IH(1) Suc.prems by (simp add: put_word_def)
  have d: "drop 68 (put_word (4 + 4 * n) (arg_pointer n) ?p) = drop 68 ?p"
    using IH(1) Suc.prems by (simp add: put_word_def splice_at_def)
  have w: "page_word off (put_word (4 + 4 * n) (arg_pointer n) ?p) = page_word off ?p"
    if "off + 4 \<le> 4 + 4 * n" for off
    by (rule page_word_put_other) (use that IH(1) Suc.prems in auto)
  have v: "page_word (4 + 4 * n) (put_word (4 + 4 * n) (arg_pointer n) ?p) = arg_pointer n"
    by (rule page_word_put) (use IH(1) Suc.prems in simp)
  show ?case unfolding put_pointers_Suc using l d w [of 0] w v IH by (auto simp: less_Suc_eq)
qed (simp add: put_pointers_def assms)

lemma store_pointers_ok:
  assumes "loaded e0 pid (L @ [(i, pg, bs)]) e" "length bs = 4096" "n \<le> 16"
  shows "loaded e0 pid (L @ [(i, pg, put_pointers n bs)])
    (e\<lparr>mem := fold (\<lambda>j m. store32 m (frame_addr i + 4 + 4 * of_nat j) (arg_pointer j)) [0..<n] (mem e)\<rparr>)"
  using assms(3)
proof (induction n)
  case (Suc n)
  let ?m = "fold (\<lambda>j m. store32 m (frame_addr i + 4 + 4 * of_nat j) (arg_pointer j)) [0..<n] (mem e)"
  have l: "loaded e0 pid (L @ [(i, pg, put_pointers n bs)]) (e\<lparr>mem := ?m\<rparr>)" using Suc by simp
  have a: "frame_addr i + of_nat (4 + 4 * n) = frame_addr i + 4 + 4 * of_nat n" by (simp add: add.assoc)
  from loaded_store [OF l, of "4 + 4 * n" "word_bytes (arg_pointer n)", unfolded a] Suc.prems
  show ?case unfolding put_pointers_Suc by (simp add: a put_word_def store32_def)
qed (use assms in \<open>simp add: put_pointers_def\<close>)

lemma mem_write_Nil: "mem_write m a [] = m"
  by (simp add: mem_write_def)

lemma of_int_u32: "n \<le> 16 \<Longrightarrow> unat (of_int (int n) :: u32) = n" "n \<le> 16 \<Longrightarrow> unat (of_int (int n * 32) :: u32) = 32 * n"
  by (simp_all add: unat_of_nat take_bit_nat_eq_self unat_word_ariths)

text \<open>The strings that the caller hands over; without any, argc is 0.\<close>

definition args_given :: "nat \<Rightarrow> byte list option \<Rightarrow> byte list" where
  "args_given argc argv = (case argv of None \<Rightarrow> [] | Some bs \<Rightarrow> bs)"

definition args_valid :: "nat \<Rightarrow> byte list option \<Rightarrow> bool" where
  "args_valid argc argv \<longleftrightarrow> argc \<le> 16 \<and> (case argv of None \<Rightarrow> argc = 0 | Some bs \<Rightarrow> 32 * argc \<le> length bs)"

lemma store_args_ok:
  assumes l: "loaded e0 pid (L @ [(i, pg, bs)]) e" "length bs = 4096" and v: "args_valid argc argv"
  shows "owp (store_args (frame_addr i) (int argc) argv (mem e)) (\<lambda>m. \<exists>page. args_page argc (args_given argc argv) page \<and>
    loaded e0 pid (L @ [(i, pg, page)]) (e\<lparr>mem := m\<rparr>))"
proof -
  let ?n = "32 * argc" and ?a = "take (32 * argc) (args_given argc argv)"
  have argc: "argc \<le> 16" "length ?a = ?n"
    using v by (auto simp: args_valid_def args_given_def split: option.splits)
  note u = of_int_u32 [OF argc(1)]
  have ad: "frame_addr i + 4 + 4 * of_nat CMD_NARGS = frame_addr i + 68" by (simp add: layout_defs)
  let ?p0 = "put_word 0 (of_nat argc) bs" and ?m0 = "store32 (mem e) (frame_addr i) (of_nat argc)"
  let ?p1 = "splice_at 68 ?a ?p0" and ?m1 = "mem_write ?m0 (frame_addr i + 68) ?a"
  have l0: "loaded e0 pid (L @ [(i, pg, ?p0)]) (e\<lparr>mem := ?m0\<rparr>)"
    using loaded_store [OF l(1), of 0 "word_bytes (of_nat argc)"] by (simp add: put_word_def store32_def)
  have l1: "loaded e0 pid (L @ [(i, pg, ?p1)]) (e\<lparr>mem := ?m1\<rparr>)"
    using loaded_store [OF l0, of 68 ?a] argc by simp
  have len: "length ?p0 = 4096" "length ?p1 = 4096" using l(2) argc by (simp_all add: put_word_def)
  have "store_args (frame_addr i) (int argc) argv (mem e) =
      Ret (fold (\<lambda>j m. store32 m (frame_addr i + 4 + 4 * of_nat j) (arg_pointer j)) [0..<argc] ?m1)"
    using v argc u by (cases argv)
      (simp_all add: store_args_def Let_def args_valid_def args_given_def CMD_ARG_LEN_def ad mem_write_Nil)
  moreover have "loaded e0 pid (L @ [(i, pg, put_pointers argc ?p1)])
      (e\<lparr>mem := fold (\<lambda>j m. store32 m (frame_addr i + 4 + 4 * of_nat j) (arg_pointer j)) [0..<argc] ?m1\<rparr>)"
    using store_pointers_ok [OF l1 len(2) argc(1)] by simp
  moreover have "args_page argc (args_given argc argv) (put_pointers argc ?p1)"
  proof -
    have "page_word 0 ?p1 = of_nat argc"
      using page_word_put [of 0 bs "of_nat argc"] len argc l(2) by (simp add: page_word_def nth_splice_at)
    moreover have "take ?n (drop 68 ?p1) = ?a" using len argc by (simp add: splice_at_def)
    ultimately show ?thesis using put_pointers_ok [OF len(2) argc(1)] by (simp add: args_page_def)
  qed
  ultimately show ?thesis by auto
qed

section \<open>The whole application\<close>

lemma page_numbers: "drop_bit 12 APPS_ARG = (0x80000 :: u32)" "drop_bit 12 APPS_ENTRY = (0x8005 :: u32)"
  by (simp_all add: layout_defs drop_bit_eq_div)

text \<open>The five pages: code and data, arguments, stack.\<close>

definition app_image :: "nat \<Rightarrow> byte list \<Rightarrow> (nat \<Rightarrow> byte list) \<Rightarrow> new_pages \<Rightarrow> bool" where
  "app_image argc argv img L \<longleftrightarrow> (\<exists>Lc i page j junk. L = Lc @ [(i, 0x80000, page), (j, 0x80001, junk)] \<and> length Lc = 3 \<and>
     pages_image 0x8005 img Lc \<and> args_page argc argv page)"

lemma load_stack_ok:
  assumes l: "loaded e0 pid L e" "2 \<le> nfree e" "pid < 32" and J: "\<And>e m t. J e \<Longrightarrow> J (e\<lparr>mem := m\<rparr>) \<and> J (e\<lparr>table := t\<rparr>)" "J e"
    and v: "args_valid argc argv"
  shows "owp (load_stack pid (int argc) argv e) (\<lambda>e'. J e' \<and> (\<exists>i page j junk. args_page argc (args_given argc argv) page \<and>
    loaded e0 pid (L @ [(i, 0x80000, page), (j, 0x80001, junk)]) e'))"
proof -
  have "0 < nfree e" using l(2) by simp
  from loaded_new_page [OF l(1) this l(3), of "0x80000"] obtain i e1 where
    e1: "new_page pid 0x80000 e = Ret (frame_addr i, e1)" "loaded e0 pid (L @ [(i, 0x80000, qemu_frame e i)]) e1"
      "Suc (nfree e1) = nfree e" "i < 256" "e1 = e\<lparr>table := table e1\<rparr>" by blast
  have "length (qemu_frame e i) = 4096" using e1(4) by (simp add: qemu_frame_def layout_defs)
  from store_args_ok [OF e1(2) this v] obtain m page where
    m: "store_args (frame_addr i) (int argc) argv (mem e1) = Ret m" "args_page argc (args_given argc argv) page"
      "loaded e0 pid (L @ [(i, 0x80000, page)]) (e1\<lparr>mem := m\<rparr>)" by (auto simp: owp_iff)
  have "nfree (e1\<lparr>mem := m\<rparr>) = nfree e1" by (simp add: nfree_def)
  then have "0 < nfree (e1\<lparr>mem := m\<rparr>)" using l(2) e1(3) by simp
  from loaded_new_page [OF m(3) this l(3), of "0x80001"] obtain j e2 where
    e2: "new_page pid 0x80001 (e1\<lparr>mem := m\<rparr>) = Ret (frame_addr j, e2)"
      "loaded e0 pid (L @ [(i, 0x80000, page), (j, 0x80001, qemu_frame (e1\<lparr>mem := m\<rparr>) j)]) e2"
      "e2 = (e1\<lparr>mem := m\<rparr>)\<lparr>table := table e2\<rparr>" by (metis append.assoc append_Cons append_Nil)
  have "J e1" using J e1(5) by metis
  then have "J e2" using J(1) e2(3) by metis
  then show ?thesis using e1(1) m(1,2) e2(1,2) unfolding load_stack_def page_numbers(1) by (auto simp: Let_def)
qed

text \<open>The last page of the segment, cleared behind the file.\<close>

lemma clear_last_ok:
  assumes r: "reads_file srv J reader bf N" and l: "loaded e0 pid L (k_earth k)" "J (k_earth k)"
    and p: "pages_upto code (segment_byte bf b0) n L" and b: "L \<noteq> [] \<Longrightarrow> base = frame_addr (fst (last L))"
  shows "owp (run srv (if n mod PAGE_SIZE \<noteq> 0
      then mem_do (\<lambda>m. memset m (base + of_nat (n mod PAGE_SIZE)) 0 (PAGE_SIZE - n mod PAGE_SIZE)) else Done ()) (None, k))
    (\<lambda>(_, p', k'). p' = None \<and> (\<exists>L' e'. k' = k\<lparr>k_earth := e'\<rparr> \<and> loaded e0 pid L' e' \<and> J e' \<and>
      nfree e' + length L' = nfree (k_earth k) + length L \<and> length L' = length L \<and> pages_image code (segment_page bf b0 n) L'))"
proof (cases "n mod 4096 = 0")
  case True
  then show ?thesis using l pages_complete [OF p True] by (auto simp: PAGE_SIZE_def intro!: exI [of _ "k_earth k"] exI [of _ L])
next
  case False
  then have "0 < n" by (cases n) auto
  then have "1 \<le> (n + 4095) div 4096" by simp
  then have "L \<noteq> []" using p by (auto simp: pages_upto_def)
  then obtain Lp i pg bs where L: "L = Lp @ [(i, pg, bs)]" by (metis append_butlast_last_id surj_pair)
  let ?z = "replicate (4096 - n mod 4096) 0"
  let ?e = "(k_earth k)\<lparr>mem := mem_write (mem (k_earth k)) (frame_addr i + of_nat (n mod 4096)) ?z\<rparr>"
  let ?L = "Lp @ [(i, pg, splice_at (n mod 4096) ?z bs)]"
  have "loaded e0 pid ?L ?e" by (rule loaded_store) (use l(1) L in simp_all)
  moreover have "J ?e" using r l(2) by (simp add: reads_file_def)
  moreover have "nfree ?e = nfree (k_earth k)" by (simp add: nfree_def)
  moreover have "pages_image code (segment_page bf b0 n) ?L" by (rule pages_cleared [OF p [unfolded L] False])
  moreover have "base = frame_addr i" using b L by simp
  ultimately show ?thesis using False L
    by (auto simp: PAGE_SIZE_def run_mem_do memset_def intro!: exI [of _ ?L])
qed

lemma ceil_le: "(n :: nat) \<le> 4096 * ((n + 4095) div 4096)"
proof -
  have "n + 4095 = 4096 * ((n + 4095) div 4096) + (n + 4095) mod 4096" by simp
  moreover have "(n + 4095) mod 4096 < 4096" by simp
  ultimately show ?thesis by linarith
qed

lemma segment_blocks:
  assumes "unat (off :: u32) + n \<le> 512 * N" "p < n"
  shows "unat (off div 512 + of_nat (p div 512)) < N"
proof -
  have "unat (off div 512 + of_nat (p div 512)) \<le> unat (off div 512) + unat (of_nat (p div 512) :: u32)"
    unfolding unat_word_ariths(1) by (rule mod_less_eq_dividend)
  also have "\<dots> \<le> unat off div 512 + p div 512" by (simp add: unat_div unat_of_nat take_bit_nat_less_eq_self)
  also have "\<dots> \<le> (unat off + p) div 512" by (subst div_add1_eq) simp
  also have "\<dots> < N" using assms by (simp add: div_less_iff_less_mult mult.commute)
  finally show ?thesis .
qed

lemma load_app_ok:
  assumes r: "reads_file srv J reader bf N" and pid: "pid < 32" and e: "on_qemu (k_earth k)" "length (table (k_earth k)) = 256"
    and J: "J (k_earth k)" and n: "5 \<le> nfree (k_earth k)" "unat (p_filesz ph) \<le> 0x3000" and v: "args_valid argc argv"
    and N: "unat (p_offset ph) + unat (p_filesz ph) \<le> 512 * N"
  shows "owp (run srv (load_app pid reader (int argc) argv ph) (None, k)) (\<lambda>(_, p', k'). p' = None \<and>
    (\<exists>L e'. k' = k\<lparr>k_earth := e'\<rparr> \<and> loaded (k_earth k) pid L e' \<and> J e' \<and>
      app_image argc (args_given argc argv) (segment_page bf (p_offset ph div 512) (unat (p_filesz ph))) L))"
proof -
  let ?n = "unat (p_filesz ph)" and ?b0 = "p_offset ph div 512" and ?e0 = "k_earth k"
  have Jc: "\<And>e m t. J e \<Longrightarrow> J (e\<lparr>mem := m\<rparr>) \<and> J (e\<lparr>table := t\<rparr>)" using r by (simp add: reads_file_def)
  have c: "(?n + 4095) div 4096 \<le> 3" "?n \<le> 4096 * ((?n + 4095) div 4096)"
    using div_le_mono [of "?n + 4095" "0x3000 + 4095" 4096] n(2) ceil_le by simp_all
  have "owp (run srv (app_blocks pid reader ?n ?b0 0x8005 0 0) (None, k)) (\<lambda>((base', cs'), p', k'). p' = None \<and>
    (\<exists>L' e'. k' = k\<lparr>k_earth := e'\<rparr> \<and> loaded ?e0 pid L' e' \<and> J e' \<and>
       nfree e' + length L' = nfree (k_earth k) + length ([] :: new_pages) \<and>
       pages_upto 0x8005 (segment_byte bf ?b0) ?n L' \<and> cs' = 0x8005 + of_nat (length L') \<and>
       (L' \<noteq> [] \<longrightarrow> base' = frame_addr (fst (last L')))))"
    by (rule app_blocks_ok [OF r pid loaded_start [OF e] J]) (use n c segment_blocks [OF N] in \<open>simp_all add: pages_upto_def\<close>)
  then obtain base L1 e1 where s1: "run srv (app_blocks pid reader ?n ?b0 0x8005 0 0) (None, k) =
      Ret ((base, 0x8005 + of_nat (length L1)), (None, k\<lparr>k_earth := e1\<rparr>))" "loaded ?e0 pid L1 e1" "J e1"
    "nfree e1 + length L1 = nfree ?e0" "pages_upto 0x8005 (segment_byte bf ?b0) ?n L1" "L1 \<noteq> [] \<Longrightarrow> base = frame_addr (fst (last L1))"
    by (auto simp: owp_iff)
  have len: "length L1 \<le> 3" "?n \<le> 4096 * length L1" using s1(5) c by (simp_all add: pages_upto_def)
  from clear_last_ok [OF r _ _ s1(5,6), of ?e0 pid "k\<lparr>k_earth := e1\<rparr>"] s1(2-4) obtain L2 e2 where
    s2: "run srv (if ?n mod PAGE_SIZE \<noteq> 0
      then mem_do (\<lambda>m. memset m (base + of_nat (?n mod PAGE_SIZE)) 0 (PAGE_SIZE - ?n mod PAGE_SIZE)) else Done ()) (None, k\<lparr>k_earth := e1\<rparr>) =
      Ret ((), (None, k\<lparr>k_earth := e2\<rparr>))" "loaded ?e0 pid L2 e2" "J e2" "nfree e2 + length L2 = nfree ?e0" "length L2 = length L1"
      "pages_image 0x8005 (segment_page bf ?b0 ?n) L2"
    by (auto simp: owp_iff)
  have "owp (zero_pages pid (0x8005 + of_nat (length L2)) e2) (\<lambda>e'. \<exists>L'. loaded ?e0 pid L' e' \<and> J e' \<and>
    nfree e' + length L' = nfree e2 + length L2 \<and> length L' = 3 \<and> pages_image 0x8005 (segment_page bf ?b0 ?n) L')"
    by (rule zero_pages_ok [OF s2(2) _ pid Jc s2(3), unfolded page_numbers]) (use s2 len n in simp_all)
  then obtain L3 e3 where s3: "zero_pages pid (0x8005 + of_nat (length L2)) e2 = Ret e3" "loaded ?e0 pid L3 e3" "J e3"
    "nfree e3 + length L3 = nfree ?e0" "length L3 = 3" "pages_image 0x8005 (segment_page bf ?b0 ?n) L3"
    using s2(4) by (auto simp: owp_iff)
  have "2 \<le> nfree e3" using s3(4,5) n(1) by simp
  from load_stack_ok [OF s3(2) this pid Jc s3(3) v] obtain e4 i page j junk where
    s4: "load_stack pid (int argc) argv e3 = Ret e4" "J e4" "args_page argc (args_given argc argv) page"
      "loaded ?e0 pid (L3 @ [(i, 0x80000, page), (j, 0x80001, junk)]) e4" by (auto simp: owp_iff)
  have "run srv (load_app pid reader (int argc) argv ph) (None, k) = Ret ((), (None, k\<lparr>k_earth := e4\<rparr>))"
    using s1(1) s2(1,5) s3(1) s4(1) unfolding load_app_def page_numbers
    by (simp add: run_ibind run_earth_do Let_def BLOCK_SIZE_def del: if_not_P if_P)
  moreover have "app_image argc (args_given argc argv) (segment_page bf ?b0 ?n) (L3 @ [(i, 0x80000, page), (j, 0x80001, junk)])"
    unfolding app_image_def using s3(5,6) s4(3) by blast
  ultimately show ?thesis using s4(2,4) by auto
qed

section \<open>Executables\<close>

text \<open>
  An executable with one segment for applications: the headers are in the first block, one of them
  is that of the segment, and the others have no memory.
\<close>

definition app_executable :: "(u32 \<Rightarrow> block) \<Rightarrow> elf32_program_header \<Rightarrow> bool" where
  "app_executable bf ph \<longleftrightarrow> p_vaddr ph = APPS_ENTRY \<and> p_memsz ph \<noteq> 0 \<and> unat (p_filesz ph) \<le> unat APPS_SIZE \<and>
     (\<exists>off n i. e_phoff (bf 0) = Ret off \<and> e_phnum (bf 0) = Ret n \<and> i < n \<and>
        (\<forall>j<n. \<exists>h. program_header (bf 0) (unat off + j * sizeof_program_header) = Ret h \<and>
           (if j = i then h = ph else p_memsz h = 0)))"

lemma load_headers_skip:
  assumes "\<forall>j\<in>set js. \<exists>h. program_header buf (off + j * sizeof_program_header) = Ret h \<and> p_memsz h = 0"
  shows "load_headers pid reader argc argv buf off (js @ ks) = load_headers pid reader argc argv buf off ks"
  using assms by (induction js) auto

lemma elf_load_eq:
  assumes r: "reads_file srv J reader bf N" and x: "app_executable bf ph" and "J (k_earth k)" "length junk = 512" "0 < N"
  shows "\<exists>d. J ((k_earth k)\<lparr>dev := d\<rparr>) \<and> run srv (elf_load pid reader argc argv junk) (None, k) =
    run srv (load_app pid reader argc argv ph) (None, k\<lparr>k_earth := (k_earth k)\<lparr>dev := d\<rparr>\<rparr>)"
proof -
  have "owp (run srv (reader 0 junk) (None, k)) (\<lambda>(blk, p, k').
        blk = bf 0 \<and> p = None \<and> (\<exists>d. J ((k_earth k)\<lparr>dev := d\<rparr>) \<and> k' = k\<lparr>k_earth := (k_earth k)\<lparr>dev := d\<rparr>\<rparr>))"
    using r assms(3-5) by (simp add: reads_file_def)
  then obtain d where d: "run srv (reader 0 junk) (None, k) = Ret (bf 0, (None, k\<lparr>k_earth := (k_earth k)\<lparr>dev := d\<rparr>\<rparr>))"
    "J ((k_earth k)\<lparr>dev := d\<rparr>)" by (auto simp: owp_iff)
  from x obtain off n i where h: "e_phoff (bf 0) = Ret off" "e_phnum (bf 0) = Ret n" "i < n"
    "\<forall>j<n. \<exists>h. program_header (bf 0) (unat off + j * sizeof_program_header) = Ret h \<and> (if j = i then h = ph else p_memsz h = 0)"
    by (auto simp: app_executable_def)
  have zero: "\<exists>h. program_header (bf 0) (unat off + j * sizeof_program_header) = Ret h \<and> p_memsz h = 0"
    if "j < n" "j \<noteq> i" for j using h(4) [rule_format, OF that(1)] that(2) by auto
  have split: "[0..<n] = [0..<i] @ i # [Suc i..<n]" using h(3) upt_add_eq_append [where i = 0 and j = i and k = "n - i"] by (simp add: upt_conv_Cons)
  have skip: "load_headers pid reader argc argv (bf 0) (unat off) [0..<n] =
      load_headers pid reader argc argv (bf 0) (unat off) (i # [Suc i..<n])"
    unfolding split by (rule load_headers_skip) (use h(3) zero in simp)
  have rest: "load_headers pid reader argc argv (bf 0) (unat off) [Suc i..<n] = Done ()"
    using load_headers_skip [where js = "[Suc i..<n]" and buf = "bf 0" and off = "unat off" and ks = "[]"] zero by simp
  have "program_header (bf 0) (unat off + i * sizeof_program_header) = Ret ph" using h(3,4) by auto
  moreover have "GRASS_ENTRY \<noteq> APPS_ENTRY" by (simp add: layout_defs)
  ultimately have "load_headers pid reader argc argv (bf 0) (unat off) [0..<n] =
      ibind (load_app pid reader argc argv ph) (\<lambda>_. Done ())"
    unfolding skip using x by (simp add: rest app_executable_def)
  moreover have "(\<lambda>_. Done ()) = Done" by (rule ext) simp
  ultimately have "load_headers pid reader argc argv (bf 0) (unat off) [0..<n] = load_app pid reader argc argv ph" by simp
  then have "run srv (elf_load pid reader argc argv junk) (None, k) =
    run srv (load_app pid reader argc argv ph) (None, k\<lparr>k_earth := (k_earth k)\<lparr>dev := d\<rparr>\<rparr>)"
    using d(1) h(1,2) by (simp add: elf_load_def run_ibind)
  then show ?thesis using d(2) by blast
qed

lemma loaded_from_dev:
  assumes "loaded (e0\<lparr>dev := d\<rparr>) pid L e"
  shows "loaded e0 pid L e"
proof -
  have "e\<lparr>mem := mem e0, table := table e0, dev := d\<rparr> = e0\<lparr>dev := d\<rparr>" using assms by (simp add: loaded_def same_rest_def)
  then have "e\<lparr>mem := mem e0, table := table e0, dev := d\<rparr>\<lparr>dev := dev e0\<rparr> = e0\<lparr>dev := d\<rparr>\<lparr>dev := dev e0\<rparr>" by (rule arg_cong)
  then have "same_rest e0 e" by (simp add: same_rest_def)
  then show ?thesis using assms by (simp add: loaded_def on_qemu_def cong: option.case_cong)
qed

lemma elf_load_ok:
  assumes r: "reads_file srv J reader bf N" and x: "app_executable bf ph" and pid: "pid < 32"
    and e: "on_qemu (k_earth k)" "length (table (k_earth k)) = 256" and J: "J (k_earth k)" and n: "5 \<le> nfree (k_earth k)"
    and v: "args_valid argc argv" and junk: "length junk = 512"
    and N: "0 < N" "unat (p_offset ph) + unat (p_filesz ph) \<le> 512 * N"
  shows "owp (run srv (elf_load pid reader (int argc) argv junk) (None, k)) (\<lambda>(_, p', k'). p' = None \<and>
    (\<exists>L e'. k' = k\<lparr>k_earth := e'\<rparr> \<and> loaded (k_earth k) pid L e' \<and> J e' \<and>
      app_image argc (args_given argc argv) (segment_page bf (p_offset ph div 512) (unat (p_filesz ph))) L))"
proof -
  obtain d where d: "J ((k_earth k)\<lparr>dev := d\<rparr>)" "run srv (elf_load pid reader (int argc) argv junk) (None, k) =
    run srv (load_app pid reader (int argc) argv ph) (None, k\<lparr>k_earth := (k_earth k)\<lparr>dev := d\<rparr>\<rparr>)"
    using elf_load_eq [OF r x J junk N(1)] by blast
  let ?k = "k\<lparr>k_earth := (k_earth k)\<lparr>dev := d\<rparr>\<rparr>"
  have "owp (run srv (load_app pid reader (int argc) argv ph) (None, ?k)) (\<lambda>(_, p', k'). p' = None \<and>
    (\<exists>L e'. k' = ?k\<lparr>k_earth := e'\<rparr> \<and> loaded (k_earth ?k) pid L e' \<and> J e' \<and>
      app_image argc (args_given argc argv) (segment_page bf (p_offset ph div 512) (unat (p_filesz ph))) L))"
    by (rule load_app_ok [OF r pid]) (use e d n v x N in \<open>simp_all add: on_qemu_def nfree_def app_executable_def layout_defs\<close>)
  moreover have "loaded (k_earth k) pid L e'" if "loaded (k_earth ?k) pid L e'" for L e'
    using that by (simp add: loaded_from_dev)
  ultimately show ?thesis unfolding d(2) by (elim owp_mono) fastforce
qed

end
