(* ===== verification/Syscall_Correct.thy ===== *)
theory Syscall_Correct
  imports Kernel_Runs
begin

text \<open>
  The software interrupt of a system call on QEMU: what proc_syscall does for each type of call and
  each state of the other side.
\<close>

section \<open>Taking the call\<close>

lemma taken_keeps:
  assumes "length page = 4096"
  shows "msg_in (taken page) = msg_in page" "receiver_of (taken page) = receiver_of page" "length (taken page) = 4096"
proof -
  show "length (taken page) = 4096" using same_but_sysarg_taken [OF assms] assms by (simp add: same_but_sysarg_def)
  show "receiver_of (taken page) = receiver_of page"
    using assms by (simp add: receiver_of_def taken_def page_word_put_other put_word_def)
      (simp add: page_word_def nth_splice_at)
  show "msg_in (taken page) = msg_in page"
  proof (rule nth_equalityI)
    show "length (msg_in (taken page)) = length (msg_in page)"
      using assms \<open>length (taken page) = 4096\<close> by (simp add: msg_in_def)
    fix i assume "i < length (msg_in (taken page))"
    then have "i < 1032" by (simp add: msg_in_def sizeof_sys_msg_1032)
    then show "msg_in (taken page) ! i = msg_in page ! i"
      using assms \<open>length (taken page) = 4096\<close>
      by (simp add: msg_in_def sizeof_sys_msg_1032 taken_def put_word_def nth_splice_at)
  qed
qed

lemma page_word_put_same: "length page = 4096 \<Longrightarrow> off + 4 \<le> 4096 \<Longrightarrow> page_word off (put_word off v page) = v"
  by (simp add: page_word_def put_word_def nth_splice_at) (simp add: word_bytes_def)

text \<open>
  proc_syscall reads the type, clears it with the return value, and goes on to the call.
\<close>

lemma syscall_type:
  assumes k: "sys_ok k" "arg_frame (k_earth k) (curr_pid k) i"
  obtains k1 where "sys_ok k1" "proc_set k1 = proc_set k" "proc_curr_idx k1 = proc_curr_idx k"
    "proc_nprocs k1 = proc_nprocs k" "csr_mepc k1 = csr_mepc k" "table (k_earth k1) = table (k_earth k)"
    "\<And>f. used (k_earth k) f \<Longrightarrow> page_of k1 f = (if f = i then taken (page_of k i) else page_of k f)"
    "page_word 0x400 (page_of k i) = SYS_SEND \<Longrightarrow> proc_syscall k = proc_send k1"
    "page_word 0x400 (page_of k i) = SYS_RECV \<Longrightarrow> proc_syscall k = proc_recv k1"
proof -
  note D = kernel_okD [OF trap_ok_kernel [OF k(1)]]
  define k1 where "k1 = update_mem (\<lambda>m. store32 (store32 (store32 m SC_RETVAL 0) SC_TYPE SYS_UNUSED)
                (MSIP (platform (k_earth k))) 0) k"
  note T = qemu.syscall_taken [OF k k1_def]
  have "load32 (k_mem k) SC_TYPE = page_word 0x400 (page_of k i)"
    using qemu.arg_load_ok [of "k_earth k" i "0x400"] k(2) D(6,8) unfolding sc_addresses by simp
  then have "page_word 0x400 (page_of k i) = SYS_SEND \<Longrightarrow> proc_syscall k = proc_send k1"
    "page_word 0x400 (page_of k i) = SYS_RECV \<Longrightarrow> proc_syscall k = proc_recv k1"
    unfolding proc_syscall_def Let_def k1_def [symmetric] by (simp_all add: SYS_SEND_def SYS_RECV_def)
  with that [OF T(1-6,8)] show ?thesis by blast
qed

lemma arg_len: "sys_ok k \<Longrightarrow> arg_frame (k_earth k) p i \<Longrightarrow> length (page_of k i) = 4096"
  by (rule qemu.arg_length)

section \<open>The calls\<close>

lemma send_delivers_result:
  assumes k: "sys_ok k" "arg_frame (k_earth k) (curr_pid k) i"
    and j: "j < 8" "p_pid (proc_set k ! j) = receiver_of (page_of k i)" "p_status (proc_set k ! j) = PROC_WAIT_TO_RECV"
    and b: "arg_frame (k_earth k) (p_pid (proc_set k ! j)) b"
  shows "owp (proc_send k) (\<lambda>k'. sys_ok k' \<and> msg_in (page_of k' b) = stamped_msg (curr_pid k) (page_of k i) \<and>
     page_of k' i = stamp (curr_pid k) (page_of k i) \<and>
     runnable (p_status (proc_set k' ! j)) \<and> runnable (p_status (proc_set k' ! proc_curr_idx k)) \<and>
     (\<forall>f. used (k_earth k) f \<longrightarrow> f \<noteq> i \<longrightarrow> f \<noteq> b \<longrightarrow> page_of k' f = page_of k f))"
proof -
  note K = trap_ok_kernel [OF k(1)] and li = arg_len [OF k(1,2)] and lb = arg_len [OF k(1) b]
  note D = kernel_okD [OF K]
  have ne: "j \<noteq> proc_curr_idx k" using D(4) j(3) by auto
  have "p_pid (proc_set k ! j) \<noteq> 0" using procs_wf_nth(3) [OF D(1) j(1)] j(3) by auto
  then have ib: "i \<noteq> b" using procs_wf_unique [OF D(1) j(1) D(2)] ne k(2) b by (auto simp: arg_frame_def)
  define qs where qs: "qs = (proc_set k)[j := (proc_set k ! j)\<lparr>p_status := PROC_RUNNABLE\<rparr>]"
  from qemu.runnable_other [OF K qs ne] obtain t where t: "next_runnable qs (proc_curr_idx k) 1 8 = Some t" .
  have t8: "t < 8" using t by (auto simp: next_runnable_spec)
  have lq: "length qs = 8" using D(3) qs by simp
  have len: "length (stamped_msg (curr_pid k) (page_of k i)) = 1032"
    using qemu.msg_in_length [OF li] by (simp add: stamped_msg_def)
  note S = qemu.send_delivers [OF K k(2) j(2) j(1) refl j(3) b qs t]
  have T: "owp (proc_send k) sys_ok"
    by (rule owp_mono [OF qemu.send_delivers_step [OF k j(2) j(1) refl j(3)]]) (simp add: step_ok_def)
  have st: "runnable (p_status (scheduled qs (proc_curr_idx k) t ! j))"
    "runnable (p_status (scheduled qs (proc_curr_idx k) t ! proc_curr_idx k))"
    using scheduled_status(1) [OF lq D(2) t8] j(1) D(2-4) ne by (auto simp: qs runnable_def)
  show ?thesis
    by (rule owp_mono [OF owp_conj [OF S T]])
      (use k(2) b ib msg_in_put_msg [OF lb len] st in
        \<open>auto simp: switched_def pages_now_def arg_frame_def\<close>)
qed

lemma recv_delivers_result:
  assumes k: "sys_ok k" "arg_frame (k_earth k) (curr_pid k) b"
    and j: "j < 8" "p_status (proc_set k ! j) = PROC_WAIT_TO_SEND" "receiver_pid (proc_set k ! j) = curr_pid k"
    and last: "\<And>m. j < m \<Longrightarrow> m < 8 \<Longrightarrow> \<not> (p_status (proc_set k ! m) = PROC_WAIT_TO_SEND \<and> receiver_pid (proc_set k ! m) = curr_pid k)"
    and i: "arg_frame (k_earth k) (p_pid (proc_set k ! j)) i"
  shows "owp (proc_recv k) (\<lambda>k'. sys_ok k' \<and> msg_in (page_of k' b) = msg_in (page_of k i) \<and>
     runnable (p_status (proc_set k' ! j)) \<and> runnable (p_status (proc_set k' ! proc_curr_idx k)) \<and>
     (\<forall>f. used (k_earth k) f \<longrightarrow> f \<noteq> b \<longrightarrow> page_of k' f = page_of k f))"
proof -
  note K = trap_ok_kernel [OF k(1)] and li = arg_len [OF k(1) i] and lb = arg_len [OF k(1,2)]
  note D = kernel_okD [OF K]
  have ne: "j \<noteq> proc_curr_idx k" using D(4) j(2) by auto
  have w: "waiting_sender (curr_pid k) (proc_set k) = p_pid (proc_set k ! j)"
    by (rule waiting_sender_last [OF D(3) j last])
  define qs where qs: "qs = (proc_set k)[j := (proc_set k ! j)\<lparr>p_status := PROC_RUNNABLE\<rparr>]"
  from qemu.runnable_other [OF K qs ne] obtain t where t: "next_runnable qs (proc_curr_idx k) 1 8 = Some t" .
  have t8: "t < 8" using t by (auto simp: next_runnable_spec)
  have lq: "length qs = 8" using D(3) qs by simp
  note S = qemu.recv_delivers [OF K k(2) j(1) refl j(2) w i qs t]
  have T: "owp (proc_recv k) sys_ok"
  proof -
    from S obtain k' where "proc_recv k = Ret k'" by (auto simp: owp_iff)
    then show ?thesis using stops_or_Ret [OF qemu.recv_step_ok [OF k(1)]] by (simp add: step_ok_def)
  qed
  have st: "runnable (p_status (scheduled qs (proc_curr_idx k) t ! j))"
    "runnable (p_status (scheduled qs (proc_curr_idx k) t ! proc_curr_idx k))"
    using scheduled_status(1) [OF lq D(2) t8] j(1) D(2-4) ne by (auto simp: qs runnable_def)
  show ?thesis
    by (rule owp_mono [OF owp_conj [OF S T]])
      (use k(2) msg_in_put_msg [OF lb qemu.msg_in_length [OF li]] st in
        \<open>auto simp: switched_def pages_now_def arg_frame_def\<close>)
qed

text \<open>The same for the whole call, which clears type and return value first.\<close>

lemma syscall_send_delivers:
  assumes k: "sys_ok k" "arg_frame (k_earth k) (curr_pid k) i" "page_word 0x400 (page_of k i) = SYS_SEND"
    and j: "j < 8" "p_pid (proc_set k ! j) = receiver_of (page_of k i)" "p_status (proc_set k ! j) = PROC_WAIT_TO_RECV"
    and b: "arg_frame (k_earth k) (p_pid (proc_set k ! j)) b"
  shows "owp (proc_syscall k) (\<lambda>k'. sys_ok k' \<and> msg_in (page_of k' b) = stamped_msg (curr_pid k) (page_of k i) \<and>
     page_word 0x80C (page_of k' i) = 0 \<and>
     runnable (p_status (proc_set k' ! j)) \<and> runnable (p_status (proc_set k' ! proc_curr_idx k)) \<and>
     (\<forall>f. used (k_earth k) f \<longrightarrow> f \<noteq> i \<longrightarrow> f \<noteq> b \<longrightarrow> page_of k' f = page_of k f))"
proof -
  obtain k1 where k1: "sys_ok k1" "proc_set k1 = proc_set k" "proc_curr_idx k1 = proc_curr_idx k"
    "table (k_earth k1) = table (k_earth k)"
    "\<And>f. used (k_earth k) f \<Longrightarrow> page_of k1 f = (if f = i then taken (page_of k i) else page_of k f)"
    "proc_syscall k = proc_send k1"
    using syscall_type [OF k(1,2)] k(3) by metis
  note li = arg_len [OF k(1,2)]
  have v: "page_of k1 i = taken (page_of k i)" using k1(5) k(2) by (simp add: arg_frame_def)
  have a: "arg_frame (k_earth k1) = arg_frame (k_earth k)" using k1(4) by (simp add: arg_frame_def fun_eq_iff)
  note R = send_delivers_result [OF k1(1), of i, unfolded k1(2,3) a v taken_keeps(2) [OF li], OF k(2) j b]
  have "page_word 0x80C (stamp p (taken (page_of k i))) = 0" for p
    using taken_keeps(3) [OF li] li
    by (simp add: stamp_def page_word_put_other taken_def page_word_put_same put_word_def)
      (simp add: page_word_def nth_splice_at word_bytes_def)
  then show ?thesis unfolding k1(6)
    by (intro owp_mono [OF R]) (use k1(4,5) taken_keeps(1) [OF li] in \<open>auto simp: stamped_msg_def\<close>)
qed

lemma syscall_recv_delivers:
  assumes k: "sys_ok k" "arg_frame (k_earth k) (curr_pid k) b" "page_word 0x400 (page_of k b) = SYS_RECV"
    and j: "j < 8" "p_status (proc_set k ! j) = PROC_WAIT_TO_SEND" "receiver_pid (proc_set k ! j) = curr_pid k"
    and last: "\<And>m. j < m \<Longrightarrow> m < 8 \<Longrightarrow> \<not> (p_status (proc_set k ! m) = PROC_WAIT_TO_SEND \<and> receiver_pid (proc_set k ! m) = curr_pid k)"
    and i: "arg_frame (k_earth k) (p_pid (proc_set k ! j)) i"
  shows "owp (proc_syscall k) (\<lambda>k'. sys_ok k' \<and> msg_in (page_of k' b) = msg_in (page_of k i) \<and>
     runnable (p_status (proc_set k' ! j)) \<and> runnable (p_status (proc_set k' ! proc_curr_idx k)) \<and>
     (\<forall>f. used (k_earth k) f \<longrightarrow> f \<noteq> b \<longrightarrow> page_of k' f = page_of k f))"
proof -
  obtain k1 where k1: "sys_ok k1" "proc_set k1 = proc_set k" "proc_curr_idx k1 = proc_curr_idx k"
    "table (k_earth k1) = table (k_earth k)"
    "\<And>f. used (k_earth k) f \<Longrightarrow> page_of k1 f = (if f = b then taken (page_of k b) else page_of k f)"
    "proc_syscall k = proc_recv k1"
    using syscall_type [OF k(1,2)] k(3) by metis
  have a: "arg_frame (k_earth k1) = arg_frame (k_earth k)" using k1(4) by (simp add: arg_frame_def fun_eq_iff)
  have "msg_in (page_of k1 i) = msg_in (page_of k i)"
    using k1(5) [of i] i taken_keeps(1) [OF arg_len [OF k(1,2)]] by (auto simp: arg_frame_def)
  note R = recv_delivers_result [OF k1(1), unfolded k1(2,3) a, OF k(2) j last i, unfolded this]
  show ?thesis unfolding k1(6) by (rule owp_mono [OF R]) (use k1(4,5) in auto)
qed

lemma syscall_unknown:
  assumes k: "sys_ok k" "arg_frame (k_earth k) (curr_pid k) i" "page_word 0x400 (page_of k i) = SYS_SEND"
    and r: "\<forall>p\<in>set (proc_set k). p_pid p \<noteq> receiver_of (page_of k i)"
  shows "owp (proc_syscall k) (\<lambda>k'. sys_ok k' \<and> proc_set k' = proc_set k \<and> proc_curr_idx k' = proc_curr_idx k \<and>
     page_word 0x80C (page_of k' i) = 0xFFFFFFFF \<and>
     (\<forall>f. used (k_earth k) f \<longrightarrow> f \<noteq> i \<longrightarrow> page_of k' f = page_of k f))"
proof -
  obtain k1 where k1: "sys_ok k1" "proc_set k1 = proc_set k" "proc_curr_idx k1 = proc_curr_idx k"
    "table (k_earth k1) = table (k_earth k)"
    "\<And>f. used (k_earth k) f \<Longrightarrow> page_of k1 f = (if f = i then taken (page_of k i) else page_of k f)"
    "proc_syscall k = proc_send k1"
    using syscall_type [OF k(1,2)] k(3) by metis
  note li = arg_len [OF k(1,2)]
  have v: "page_of k1 i = taken (page_of k i)" using k1(5) k(2) by (simp add: arg_frame_def)
  have a: "arg_frame (k_earth k1) = arg_frame (k_earth k)" using k1(4) by (simp add: arg_frame_def fun_eq_iff)
  have r1: "\<forall>p\<in>set (proc_set k). p_pid p \<noteq> receiver_of (taken (page_of k i))" using r taken_keeps(2) [OF li] by simp
  note S = qemu.send_unknown [OF trap_ok_kernel [OF k1(1)], of i, unfolded k1(2,3) a v, OF k(2) r1]
  note T = qemu.send_unknown_step [OF k1(1), of i, unfolded k1(2,3) a v, OF k(2) r1]
  have "length (stamp p (taken (page_of k i))) = 4096" for p using taken_keeps(3) [OF li] by (simp add: stamp_def put_word_def)
  then have "page_word 0x80C (put_word 0x80C 0xFFFFFFFF (stamp p (taken (page_of k i)))) = 0xFFFFFFFF" for p
    by (simp add: page_word_put_same)
  then show ?thesis unfolding k1(6)
    by (intro owp_mono [OF owp_conj [OF S T]])
      (use k1(4,5) k(2) in \<open>auto simp: step_ok_def pages_now_def arg_frame_def\<close>)
qed

text \<open>
  A send to a process in the table that does not wait for a message blocks the sender, also when that
  process has terminated or is the sender itself.
\<close>

lemma syscall_send_blocks:
  assumes k: "sys_ok k" "arg_frame (k_earth k) (curr_pid k) i" "page_word 0x400 (page_of k i) = SYS_SEND"
    and j: "j < 8" "p_pid (proc_set k ! j) = receiver_of (page_of k i)" "receiver_of (page_of k i) \<noteq> 0"
      "p_status (proc_set k ! j) \<noteq> PROC_WAIT_TO_RECV"
    and m: "m < 8" "m \<noteq> proc_curr_idx k" "runnable (p_status (proc_set k ! m))"
  shows "owp (proc_syscall k) (\<lambda>k'. sys_ok k' \<and> proc_curr_idx k' \<noteq> proc_curr_idx k \<and>
     p_status (proc_set k' ! proc_curr_idx k) = PROC_WAIT_TO_SEND \<and>
     receiver_pid (proc_set k' ! proc_curr_idx k) = receiver_of (page_of k i) \<and>
     msg_in (page_of k' i) = stamped_msg (curr_pid k) (page_of k i))"
proof -
  obtain k1 where k1: "sys_ok k1" "proc_set k1 = proc_set k" "proc_curr_idx k1 = proc_curr_idx k"
    "table (k_earth k1) = table (k_earth k)"
    "\<And>f. used (k_earth k) f \<Longrightarrow> page_of k1 f = (if f = i then taken (page_of k i) else page_of k f)"
    "proc_syscall k = proc_send k1"
    using syscall_type [OF k(1,2)] k(3) by metis
  note li = arg_len [OF k(1,2)] and K = trap_ok_kernel [OF k(1)]
  note D = kernel_okD [OF K]
  let ?c = "proc_curr_idx k" and ?r = "receiver_of (page_of k i)"
  have v: "page_of k1 i = taken (page_of k i)" using k1(5) k(2) by (simp add: arg_frame_def)
  have a: "arg_frame (k_earth k1) = arg_frame (k_earth k)" using k1(4) by (simp add: arg_frame_def fun_eq_iff)
  define qs where qs: "qs = (proc_set k)[?c := (curr_proc k)\<lparr>p_status := PROC_WAIT_TO_SEND, receiver_pid := ?r\<rparr>]"
  have lq: "length qs = 8" using D(3) qs by simp
  have "runnable (p_status (qs ! m))" using m D(3) by (simp add: qs)
  then obtain t where t: "next_runnable qs ?c 1 8 = Some t" using next_runnable_ex [OF m(1)] by blast
  have t8: "t < 8" "runnable (p_status (qs ! t))" using t by (auto simp: next_runnable_spec)
  then have tc: "t \<noteq> ?c" using D(2,3) by (auto simp: qs runnable_def)
  have f: "find_proc (\<lambda>p. p_pid p = ?r) 0 (proc_set k) = Some j" by (rule find_proc_pid [OF D(1) j(1-3)])
  have r: "?r = receiver_of (taken (page_of k i))" using taken_keeps(2) [OF li] by simp
  note S = qemu.send_blocks [OF trap_ok_kernel [OF k1(1)], of i, unfolded k1(2,3) a v, OF k(2) r f j(4) qs t]
  have T: "owp (proc_send k1) sys_ok"
  proof -
    from S obtain k' where "proc_send k1 = Ret k'" by (auto simp: owp_iff)
    then show ?thesis using stops_or_Ret [OF qemu.send_step_ok [OF k1(1)]] by (simp add: step_ok_def)
  qed
  have st: "p_status (scheduled qs ?c t ! ?c) = PROC_WAIT_TO_SEND" "receiver_pid (scheduled qs ?c t ! ?c) = ?r"
    using scheduled_status(1,3) [OF lq D(2) t8(1) D(2)] tc D(2,3) by (simp_all add: qs)
  have "msg_in (stamp (curr_pid k) (taken (page_of k i))) = stamped_msg (curr_pid k) (page_of k i)"
    using msg_in_stamp [OF taken_keeps(3) [OF li]] taken_keeps(1) [OF li] by (simp add: stamped_msg_def)
  then show ?thesis unfolding k1(6)
    by (intro owp_mono [OF owp_conj [OF S T]])
      (use st tc k(2) k1(3,4) in \<open>auto simp: switched_def pages_now_def arg_frame_def\<close>)
qed

end
