(* ===== verification/Kernel_Properties.thy ===== *)
theory Kernel_Properties
  imports Syscall_Correct
begin

text \<open>
  The properties of the kernel of grass/kernel.c and grass/process.c, with an example state in which
  their hypotheses hold.
\<close>

section \<open>An example state\<close>

text \<open>
  Process \<open>p\<close> runs and has a code page, a call of type \<open>ty\<close> to receiver \<open>r\<close> is in its system call
  page, process 6 has status \<open>st\<close>, process 7 can run, and \<open>d\<close> says whether ctrl+C was typed.
\<close>

definition demo_mem :: "byte \<Rightarrow> byte \<Rightarrow> mem" where
  "demo_mem ty r = (\<lambda>x. if x = 0x80000400 then ty else if x = 0x80000408 then r else 0)"

definition demo_earth :: "int \<Rightarrow> bool \<Rightarrow> byte \<Rightarrow> byte \<Rightarrow> bool earth" where
  "demo_earth p d ty r = \<lparr>mem = demo_mem ty r, platform = QEMU_LATEST, translation = SOFT_TLB,
     table = [\<lparr>fm_use = 1, fm_pid = p, fm_page_no = 0x80000\<rparr>, \<lparr>fm_use = 1, fm_pid = 6, fm_page_no = 0x80000\<rparr>,
        \<lparr>fm_use = 1, fm_pid = 7, fm_page_no = 0x80000\<rparr>, \<lparr>fm_use = 1, fm_pid = p, fm_page_no = 0x08005\<rparr>]
       @ replicate 252 zero_mapping,
     curr_vm_pid = p, cache_slots = replicate ARTY_CACHED_NFRAMES 0xFFFFFFFF, rands = (\<lambda>_. 0), dev = d,
     disk_read = (\<lambda>_ n d. Ret (0, replicate (512 * unat n) 0, d)), disk_write = (\<lambda>_ _ _ d. Ret (0, d)),
     timer_reset = (\<lambda>d. (0, d)), tty_recv_intr = (\<lambda>d. (if d then 1 else 0, d))\<rparr>"

definition demo_proc :: "int \<Rightarrow> proc_status \<Rightarrow> int \<Rightarrow> process" where
  "demo_proc p st r = \<lparr>p_pid = p, p_status = st, p_mepc = 0x08005010, saved_register = replicate 29 0, receiver_pid = r\<rparr>"

definition demo :: "int \<Rightarrow> bool \<Rightarrow> byte \<Rightarrow> byte \<Rightarrow> proc_status \<Rightarrow> bool kernel" where
  "demo p d ty r st = \<lparr>proc_set = [demo_proc p PROC_RUNNING 0, demo_proc 6 st p, demo_proc 7 PROC_RUNNABLE 0] @
       replicate 5 (demo_proc 0 PROC_UNUSED 0),
     proc_curr_idx = 0, proc_nprocs = 7, csr_mepc = 0x08005000, k_earth = demo_earth p d ty r\<rparr>"

lemma demo_sel [simp]:
  "proc_curr_idx (demo p d ty r st) = 0" "proc_nprocs (demo p d ty r st) = 7" "csr_mepc (demo p d ty r st) = 0x08005000"
  "k_earth (demo p d ty r st) = demo_earth p d ty r" "length (proc_set (demo p d ty r st)) = 8"
  "proc_set (demo p d ty r st) ! 0 = demo_proc p PROC_RUNNING 0"
  "proc_set (demo p d ty r st) ! Suc 0 = demo_proc 6 st p"
  "proc_set (demo p d ty r st) ! 2 = demo_proc 7 PROC_RUNNABLE 0"
  by (simp_all add: demo_def)

lemma demo_proc_sel [simp]:
  "p_pid (demo_proc p st r) = p" "p_status (demo_proc p st r) = st" "receiver_pid (demo_proc p st r) = r"
  "length (saved_register (demo_proc p st r)) = 29"
  by (simp_all add: demo_proc_def)

lemma demo_nth:
  "i < 8 \<Longrightarrow> proc_set (demo p d ty r st) ! i = (if i = 0 then demo_proc p PROC_RUNNING 0
     else if i = 1 then demo_proc 6 st p else if i = 2 then demo_proc 7 PROC_RUNNABLE 0 else demo_proc 0 PROC_UNUSED 0)"
  by (auto simp: demo_def nth_Cons' nth_append)

lemma demo_table:
  "length (table (demo_earth p d ty r)) = 256"
  "i < 256 \<Longrightarrow> table (demo_earth p d ty r) ! i = (if i = 0 then \<lparr>fm_use = 1, fm_pid = p, fm_page_no = 0x80000\<rparr>
     else if i = 1 then \<lparr>fm_use = 1, fm_pid = 6, fm_page_no = 0x80000\<rparr>
     else if i = 2 then \<lparr>fm_use = 1, fm_pid = 7, fm_page_no = 0x80000\<rparr>
     else if i = 3 then \<lparr>fm_use = 1, fm_pid = p, fm_page_no = 0x08005\<rparr> else zero_mapping)"
  by (auto simp: demo_earth_def nth_append nth_Cons')

lemma demo_used: "used (demo_earth p d ty r) i \<longleftrightarrow> i < 4"
  using demo_table(2) [of i p d ty r] by (auto simp: zero_mapping_def split: if_splits)

lemma demo_arg_frame:
  "arg_frame (demo_earth p d ty r) p 0" "arg_frame (demo_earth p d ty r) 6 (Suc 0)" "arg_frame (demo_earth p d ty r) 7 2"
  by (simp_all add: arg_frame_def demo_table)

lemma demo_earth_sel [simp]:
  "platform (demo_earth p d ty r) = QEMU_LATEST" "curr_vm_pid (demo_earth p d ty r) = p"
  "mem (demo_earth p d ty r) = demo_mem ty r" "dev (demo_earth p d ty r) = d"
  "tty_recv_intr (demo_earth p d ty r) d' = (if d' then 1 else 0, d')"
  by (simp_all add: demo_earth_def)

lemma demo_area: "x \<in> kernel_area QEMU_LATEST \<longleftrightarrow> unat x \<in> {0x2000004..<0x2000008} \<union> {0x80003F0C..<0x80003F80}"
  by (auto simp: kernel_area_def in_region_nat layout_defs)

lemma demo_vm_wf:
  assumes "p \<noteq> 6" "p \<noteq> 7"
  shows "vm_wf (qemu_store \<union> kernel_area QEMU_LATEST) (demo_earth p d ty r)"
proof -
  let ?S = "qemu_store \<union> kernel_area QEMU_LATEST"
  have c: "page_clear ?S 0x80000" "page_clear ?S 0x08005"
    by (auto simp: page_clear_def in_page_iff in_qemu_store demo_area)
  have four: "i = 0 \<or> i = 1 \<or> i = 2 \<or> i = 3" if "used (demo_earth p d ty r) i" for i
    using that by (auto simp: demo_used)
  have "page_clear ?S (fm_page_no (table (demo_earth p d ty r) ! i))" if "used (demo_earth p d ty r) i" for i
    using four [OF that] c by (auto simp: demo_table)
  moreover have "i = j" if "used (demo_earth p d ty r) i" "used (demo_earth p d ty r) j"
    "fm_pid (table (demo_earth p d ty r) ! i) = fm_pid (table (demo_earth p d ty r) ! j)"
    "fm_page_no (table (demo_earth p d ty r) ! i) = fm_page_no (table (demo_earth p d ty r) ! j)" for i j
    using four [OF that(1)] four [OF that(2)] that(3,4) assms by (auto simp: demo_table)
  ultimately show ?thesis unfolding vm_wf_def using demo_table(1) by blast
qed

lemma demo_ok:
  assumes "p = 1 \<or> p = 5" "st \<noteq> PROC_RUNNING"
  shows "sys_ok (demo p d ty r st)"
proof -
  let ?k = "demo p d ty r st"
  have p: "p \<noteq> 6" "p \<noteq> 7" "0 < p" "p < 6" using assms by auto
  have mem: "q \<in> {demo_proc p PROC_RUNNING 0, demo_proc 6 st p, demo_proc 7 PROC_RUNNABLE 0, demo_proc 0 PROC_UNUSED 0}"
    if "q \<in> set (proc_set ?k)" for q using that by (auto simp: demo_def)
  have "procs_wf (proc_set ?k) 7"
    unfolding procs_wf_def using p by (auto simp: demo_nth layout_defs dest!: mem split: if_splits)
  then have "kernel_wf ?k" using assms(2) by (simp add: kernel_wf_def demo_nth)
  moreover have "vm_wf qemu_store (demo_earth p d ty r)" using vm_wf_mono [OF demo_vm_wf [OF p(1,2)]] by blast
  ultimately have "kernel_ok on_qemu qemu_store ?k" by (simp add: kernel_ok_def on_qemu_def)
  moreover have "x \<notin> qemu_store" if "x \<in> kernel_area QEMU_LATEST" for x
    using that unfolding demo_area in_qemu_store by auto
  moreover have "\<exists>f. arg_frame (demo_earth p d ty r) (p_pid (proc_set ?k ! i)) f" if "i < 8" "live (proc_set ?k ! i)" for i
    using that demo_arg_frame [of p d ty r] by (auto simp: demo_nth live_def split: if_splits)
  ultimately show ?thesis using demo_vm_wf [OF p(1,2)] by (auto simp: trap_ok_def)
qed

lemma demo_page:
  "off < 4096 \<Longrightarrow> page_view qemu_frame (demo_earth p d ty r) 0 ! off = (if off = 0x400 then ty else if off = 0x408 then r else 0)"
proof -
  assume off: "off < 4096"
  have "of_nat off = (0x400::u32) \<longleftrightarrow> off = 0x400" "of_nat off = (0x408::u32) \<longleftrightarrow> off = 0x408"
    using off by (auto simp: word_unat_eq_iff unat_of_nat take_bit_nat_eq_self)
  then show ?thesis using off
    by (simp add: page_view_def demo_table demo_mem_def push_bit_eq_mult)
qed

lemma demo_call:
  "page_word 0x400 (page_view qemu_frame (demo_earth p d ty r) 0) = word32_of ty 0 0 0"
  "receiver_of (page_view qemu_frame (demo_earth p d ty r) 0) = sint (word32_of r 0 0 0)"
  by (simp_all add: page_word_def receiver_of_def demo_page)

lemma demo_words:
  "word32_of 2 0 0 0 = SYS_SEND" "word32_of 1 0 0 0 = SYS_RECV" "word32_of 6 0 0 0 = 6" "word32_of 9 0 0 0 = 9"
  by (simp_all add: word32_of_def SYS_SEND_def SYS_RECV_def)

section \<open>The trap handler\<close>

text \<open>
  C11: The invariant of the kernel. A trap in a well-formed state (the process table has distinct pids,
  the current process is the only running one and its address space is mapped, pages of processes do
  not overlap, and every process past loading has a system call page) ends in a well-formed state, or
  stops the system with one of three messages: nothing is runnable, the type of a system call is
  unknown, or the trap is an exception.
\<close>

theorem kernel_entry_invariant:
  assumes "sys_ok k"
  shows "stops_or trap_messages (kernel_entry is_interrupt iid k) sys_ok"
  by (rule stops_or_mono [OF qemu.kernel_entry_ok [OF assms refl]]) auto

theorem kernel_entry_invariant_witness:
  "sys_ok (demo 5 False 2 6 PROC_WAIT_TO_RECV) \<and>
   stops_or trap_messages (kernel_entry True 3 (demo 5 False 2 6 PROC_WAIT_TO_RECV)) sys_ok"
  using kernel_entry_invariant [of "demo 5 False 2 6 PROC_WAIT_TO_RECV" True 3] demo_ok [of 5 PROC_WAIT_TO_RECV] by simp

text \<open>
  C12: Context switch. When the handler returns, mepc and the registers that the trap code will
  restore are those saved for the current process; the process that was interrupted has its own
  saved in its entry, and every other process that has run before keeps what was saved for it.
\<close>

theorem kernel_entry_contexts:
  assumes "sys_ok k" "kernel_entry is_interrupt iid k = Ret k'"
  shows "csr_mepc k' = p_mepc (curr_proc k') \<and> load_regs (k_mem k') = saved_register (curr_proc k') \<and>
    p_mepc (proc_set k' ! proc_curr_idx k) = csr_mepc k \<and>
    saved_register (proc_set k' ! proc_curr_idx k) = load_regs (k_mem k) \<and>
    (\<forall>i<MAX_NPROCESS. i \<noteq> proc_curr_idx k \<longrightarrow> p_status (proc_set k ! i) \<noteq> PROC_READY \<longrightarrow>
       p_mepc (proc_set k' ! i) = p_mepc (proc_set k ! i) \<and>
       saved_register (proc_set k' ! i) = saved_register (proc_set k ! i))"
proof -
  note D = kernel_okD [OF trap_ok_kernel [OF assms(1)]]
  let ?p = "(curr_proc k)\<lparr>p_mepc := csr_mepc k, saved_register := load_regs (k_mem k)\<rparr>"
  have e: "ctx_kept ((proc_set k)[proc_curr_idx k := ?p]) (proc_set k')"
    "csr_mepc k' = p_mepc (curr_proc k')" "load_regs (k_mem k') = saved_register (curr_proc k')"
    using stops_or_Ret [OF qemu.kernel_entry_ok [OF assms(1) refl] assms(2)] by (simp_all add: update_curr_def)
  have "p_mepc (proc_set k' ! i) = p_mepc ((proc_set k)[proc_curr_idx k := ?p] ! i) \<and>
      saved_register (proc_set k' ! i) = saved_register ((proc_set k)[proc_curr_idx k := ?p] ! i)"
    if "i < 8" "p_status ((proc_set k)[proc_curr_idx k := ?p] ! i) \<noteq> PROC_READY" for i
    using e(1) that by (simp add: ctx_kept_def)
  from this [of "proc_curr_idx k"] this show ?thesis using D(2-4) e(2,3) by simp
qed

theorem kernel_entry_contexts_witness:
  "let k = demo 1 False 0 0 PROC_RUNNABLE in
   \<exists>k'. kernel_entry True INTR_ID_TIMER k = Ret k' \<and> csr_mepc k' = 0x08005000"
proof -
  let ?k = "demo 1 False 0 0 PROC_RUNNABLE"
  obtain k' where k': "kernel_entry True INTR_ID_TIMER ?k = Ret k'" "proc_curr_idx k' = 0"
    by (simp add: kernel_entry_def intr_entry_def update_curr_def update_mem_def reset_timer_def GPID_SHELL_def demo_def Let_def demo_proc_def)
  have "csr_mepc k' = 0x08005000"
    using kernel_entry_contexts [OF demo_ok k'(1)] k'(2) by simp
  with k'(1) show ?thesis unfolding Let_def by blast
qed



section \<open>Scheduling\<close>

text \<open>
  C14: Round robin is fair. A runnable process gets the processor after at most MAX_NPROCESS yields.
\<close>

theorem proc_yield_fair:
  assumes "sys_ok k" "i < MAX_NPROCESS" "runnable (p_status (proc_set k ! i))"
  shows "\<exists>n. 1 \<le> n \<and> n \<le> MAX_NPROCESS \<and> owp (yields n k) (\<lambda>k'. sys_ok k' \<and> proc_curr_idx k' = i)"
proof -
  have i: "i < 8" using assms(2) by simp
  from yields_reach [OF assms(1) i assms(3)] cyc_dist [OF i, of "proc_curr_idx k"]
  show ?thesis unfolding MAX_NPROCESS_8 using le_trans by blast
qed

theorem proc_yield_fair_witness:
  "\<exists>n. 1 \<le> n \<and> n \<le> MAX_NPROCESS \<and>
     owp (yields n (demo 5 False 0 0 PROC_READY)) (\<lambda>k'. sys_ok k' \<and> proc_curr_idx k' = 2)"
  by (rule proc_yield_fair) (simp_all add: demo_ok runnable_def)

text \<open>
  C15: Timer interrupts do not preempt the system servers. While a process with a pid below that of
  the shell runs, a timer interrupt only sets the timer again: the process goes on with its
  registers, and the process table does not change.
\<close>

theorem servers_not_preempted:
  assumes "sys_ok k" "curr_pid k < GPID_SHELL"
  shows "owp (kernel_entry True INTR_ID_TIMER k) (\<lambda>k'. proc_curr_idx k' = proc_curr_idx k \<and>
    csr_mepc k' = csr_mepc k \<and> load_regs (k_mem k') = load_regs (k_mem k) \<and>
    map p_status (proc_set k') = map p_status (proc_set k))"
proof -
  note D = kernel_okD [OF trap_ok_kernel [OF assms(1)]]
  let ?k1 = "update_curr (\<lambda>p. p\<lparr>p_mepc := csr_mepc k, saved_register := load_regs (k_mem k)\<rparr>) k"
  have c: "curr_proc ?k1 = (curr_proc k)\<lparr>p_mepc := csr_mepc k, saved_register := load_regs (k_mem k)\<rparr>"
    "proc_curr_idx ?k1 = proc_curr_idx k"
    using D(2,3) by (simp_all add: update_curr_def)
  have "length (load_regs (k_mem k)) = 29" by (simp add: load_regs_def SAVED_REGISTER_NUM_def)
  note L = load_regs_bytes [OF this]
  have s: "map p_status (proc_set ?k1) = map p_status (proc_set k)"
    using D(2,3) by (simp add: update_curr_def map_update list_update_same_conv)
  have "intr_entry INTR_ID_TIMER ?k1 = Ret (reset_timer ?k1)"
    unfolding intr_entry_def using c assms(2) by simp
  then show ?thesis using c s L by (simp add: kernel_entry_def reset_timer_def update_mem_def)
qed

theorem servers_not_preempted_witness:
  "owp (kernel_entry True INTR_ID_TIMER (demo 1 False 0 0 PROC_RUNNABLE)) (\<lambda>k'. proc_curr_idx k' = 0)"
  by (rule owp_mono [OF servers_not_preempted]) (simp_all add: demo_ok GPID_SHELL_def)

section \<open>Messages\<close>

text \<open>
  C16: Sending to a waiting process. The system call copies the message, with the pid of the sender
  stamped in, into the receiver's system call page and makes the receiver runnable; the sender
  stays runnable with return value 0, and no other page changes.
\<close>

theorem sys_send_delivers:
  assumes "sys_ok k" "arg_frame (k_earth k) (curr_pid k) i" "page_word 0x400 (page_of k i) = SYS_SEND"
    and "j < MAX_NPROCESS" "p_pid (proc_set k ! j) = receiver_of (page_of k i)" "p_status (proc_set k ! j) = PROC_WAIT_TO_RECV"
    and "arg_frame (k_earth k) (p_pid (proc_set k ! j)) b"
  shows "owp (proc_syscall k) (\<lambda>k'. sys_ok k' \<and> msg_in (page_of k' b) = stamped_msg (curr_pid k) (page_of k i) \<and>
     page_word 0x80C (page_of k' i) = 0 \<and>
     runnable (p_status (proc_set k' ! j)) \<and> runnable (p_status (proc_set k' ! proc_curr_idx k)) \<and>
     (\<forall>f. used (k_earth k) f \<longrightarrow> f \<noteq> i \<longrightarrow> f \<noteq> b \<longrightarrow> page_of k' f = page_of k f))"
  by (rule syscall_send_delivers) (use assms in simp_all)

theorem sys_send_delivers_witness:
  "owp (proc_syscall (demo 5 False 2 6 PROC_WAIT_TO_RECV)) (\<lambda>k'. sys_ok k' \<and>
     msg_in (page_of k' 1) = stamped_msg 5 (page_of (demo 5 False 2 6 PROC_WAIT_TO_RECV) 0))"
  by (rule owp_mono [OF sys_send_delivers [where i = 0 and j = 1 and b = 1]])
    (simp_all add: demo_ok demo_arg_frame demo_call demo_words)

text \<open>
  C17: Receiving from a waiting process. Of the processes that wait to send to the current one, the
  last in the table delivers: its message is copied into the current process's system call page, it
  becomes runnable, and no other page changes.
\<close>

theorem sys_recv_delivers:
  assumes "sys_ok k" "arg_frame (k_earth k) (curr_pid k) b" "page_word 0x400 (page_of k b) = SYS_RECV"
    and "j < MAX_NPROCESS" "p_status (proc_set k ! j) = PROC_WAIT_TO_SEND" "receiver_pid (proc_set k ! j) = curr_pid k"
    and "\<And>m. j < m \<Longrightarrow> m < MAX_NPROCESS \<Longrightarrow>
      \<not> (p_status (proc_set k ! m) = PROC_WAIT_TO_SEND \<and> receiver_pid (proc_set k ! m) = curr_pid k)"
    and "arg_frame (k_earth k) (p_pid (proc_set k ! j)) i"
  shows "owp (proc_syscall k) (\<lambda>k'. sys_ok k' \<and> msg_in (page_of k' b) = msg_in (page_of k i) \<and>
     runnable (p_status (proc_set k' ! j)) \<and> runnable (p_status (proc_set k' ! proc_curr_idx k)) \<and>
     (\<forall>f. used (k_earth k) f \<longrightarrow> f \<noteq> b \<longrightarrow> page_of k' f = page_of k f))"
  by (rule syscall_recv_delivers [OF assms(1-3) _ assms(5,6) _ assms(8)]) (use assms(4,7) in simp_all)

theorem sys_recv_delivers_witness:
  "owp (proc_syscall (demo 5 False 1 0 PROC_WAIT_TO_SEND)) (\<lambda>k'. sys_ok k' \<and>
     msg_in (page_of k' 0) = msg_in (page_of (demo 5 False 1 0 PROC_WAIT_TO_SEND) 1))"
  by (rule owp_mono [OF sys_recv_delivers [where b = 0 and j = 1 and i = 1]])
    (simp_all add: demo_ok demo_arg_frame demo_call demo_words demo_nth)



text \<open>
  C19: Sending to a process that does not wait. When the pid is in the table, the sender is put to wait
  with the message stamped in its page, and another process runs. This also holds for a process that
  has terminated, whose entry keeps its pid, and for the sender itself: there is no error then.
\<close>

theorem sys_send_blocks:
  assumes "sys_ok k" "arg_frame (k_earth k) (curr_pid k) i" "page_word 0x400 (page_of k i) = SYS_SEND"
    and "j < MAX_NPROCESS" "p_pid (proc_set k ! j) = receiver_of (page_of k i)" "receiver_of (page_of k i) \<noteq> 0"
      "p_status (proc_set k ! j) \<noteq> PROC_WAIT_TO_RECV"
    and "m < MAX_NPROCESS" "m \<noteq> proc_curr_idx k" "runnable (p_status (proc_set k ! m))"
  shows "owp (proc_syscall k) (\<lambda>k'. sys_ok k' \<and> proc_curr_idx k' \<noteq> proc_curr_idx k \<and>
     p_status (proc_set k' ! proc_curr_idx k) = PROC_WAIT_TO_SEND \<and>
     receiver_pid (proc_set k' ! proc_curr_idx k) = receiver_of (page_of k i) \<and>
     msg_in (page_of k' i) = stamped_msg (curr_pid k) (page_of k i))"
  by (rule syscall_send_blocks [where j = j and m = m]) (use assms in simp_all)

theorem sys_send_blocks_witness:
  "owp (proc_syscall (demo 5 False 2 6 PROC_UNUSED)) (\<lambda>k'. p_status (proc_set k' ! 0) = PROC_WAIT_TO_SEND)"
  by (rule owp_mono [OF sys_send_blocks [where i = 0 and j = 1 and m = 2]])
    (simp_all add: demo_ok demo_arg_frame demo_call demo_words runnable_def)

text \<open>
  C20: ctrl+C does not end a user process. intr_entry sets mepc to the exit code of the process, but
  kernel_entry then writes back the mepc that it saved at the entry: the process goes on where it was
  interrupted, with its registers, and stays running.
\<close>

theorem ctrl_c_has_no_effect:
  assumes "sys_ok k" "curr_pid k \<ge> GPID_USER_START" "fst (tty_recv_intr (k_earth k) (dev (k_earth k))) \<noteq> 0"
  shows "owp (kernel_entry True iid k) (\<lambda>k'. csr_mepc k' = csr_mepc k \<and> proc_curr_idx k' = proc_curr_idx k \<and>
    load_regs (k_mem k') = load_regs (k_mem k) \<and> map p_status (proc_set k') = map p_status (proc_set k))"
proof -
  note D = kernel_okD [OF trap_ok_kernel [OF assms(1)]]
  let ?k1 = "update_curr (\<lambda>p. p\<lparr>p_mepc := csr_mepc k, saved_register := load_regs (k_mem k)\<rparr>) k"
  have c: "curr_proc ?k1 = (curr_proc k)\<lparr>p_mepc := csr_mepc k, saved_register := load_regs (k_mem k)\<rparr>"
    "proc_curr_idx ?k1 = proc_curr_idx k" "k_earth ?k1 = k_earth k"
    using D(2,3) by (simp_all add: update_curr_def)
  have "length (load_regs (k_mem k)) = 29" by (simp add: load_regs_def SAVED_REGISTER_NUM_def)
  note L = load_regs_bytes [OF this]
  have s: "map p_status (proc_set ?k1) = map p_status (proc_set k)"
    using D(2,3) by (simp add: update_curr_def map_update list_update_same_conv)
  have "\<not> curr_pid ?k1 < GPID_SHELL" "GPID_USER_START \<le> curr_pid ?k1" using c assms(2) by (simp_all add: layout_defs)
  then have "intr_entry iid ?k1 = Ret (?k1\<lparr>k_earth := (k_earth k)\<lparr>dev := snd (tty_recv_intr (k_earth k) (dev (k_earth k)))\<rparr>,
      csr_mepc := 0x800500C\<rparr>)"
    unfolding intr_entry_def using c(3) assms(3) by (simp add: case_prod_beta)
  then show ?thesis using c s L by (simp add: kernel_entry_def update_mem_def)
qed

theorem ctrl_c_has_no_effect_witness:
  "owp (kernel_entry True INTR_ID_TIMER (demo 5 True 0 0 PROC_RUNNABLE)) (\<lambda>k'. csr_mepc k' = 0x08005000)"
  by (rule owp_mono [OF ctrl_c_has_no_effect]) (simp_all add: demo_ok GPID_USER_START_def)

end
