(* ===== verification/Process_Properties.thy ===== *)
theory Process_Properties
  imports Kernel_Properties
begin

text \<open>
  Allocating and freeing processes (grass/process.c): both keep the invariant of the kernel.
\<close>

section \<open>Freeing\<close>

lemma platform_mmu_free: "platform (fold (free_frame p) xs e) = platform e"
  by (induction xs arbitrary: e) (simp_all add: free_frame_def paging_invalidate_cache_def Let_def)

lemma vm_wf_mmu_free:
  assumes e: "on_qemu e" "vm_wf S e" "vm_wf qemu_store e"
  shows "vm_wf S (mmu_free p e)"
proof -
  note f = qemu.mmu_free_ok [OF e(1,3), where p = p]
  have u: "used e i \<and> table (mmu_free p e) ! i = table e ! i" if "used (mmu_free p e) i" for i
    using f(6) [of i] that by (auto simp: zero_mapping_def split: if_splits)
  have "length (table (mmu_free p e)) = 256" using f(2) by (simp add: vm_wf_def)
  moreover have "page_clear S (fm_page_no (table (mmu_free p e) ! i))" if "used (mmu_free p e) i" for i
    using e(2) u [OF that] by (simp add: vm_wf_def)
  moreover have "i = j" if "used (mmu_free p e) i" "used (mmu_free p e) j"
    "fm_pid (table (mmu_free p e) ! i) = fm_pid (table (mmu_free p e) ! j)"
    "fm_page_no (table (mmu_free p e) ! i) = fm_page_no (table (mmu_free p e) ! j)" for i j
    using e(2) u [OF that(1)] u [OF that(2)] that(3,4) by (simp add: vm_wf_def)
  ultimately show ?thesis unfolding vm_wf_def by blast
qed

lemma set_status_wf:
  assumes "procs_wf ps n"
  shows "procs_wf (set_status pid PROC_UNUSED ps) n"
proof (rule procs_wfI [OF assms])
  have len: "length ps = 8" using assms by (simp add: procs_wf_def)
  then show "length (set_status pid PROC_UNUSED ps) = 8" by simp
  fix i :: nat assume "i < 8"
  then show "p_pid (set_status pid PROC_UNUSED ps ! i) = p_pid (ps ! i) \<and>
      length (saved_register (set_status pid PROC_UNUSED ps ! i)) = 29 \<and>
      (p_pid (ps ! i) = 0 \<longrightarrow> p_status (set_status pid PROC_UNUSED ps ! i) = PROC_UNUSED)"
    using procs_wf_nth [OF assms, of i] len by (simp add: nth_set_status)
qed

lemma free_sys_ok:
  assumes k: "sys_ok k" and p: "p \<noteq> curr_pid k"
    and k': "k' = proc_set_status p PROC_UNUSED (k\<lparr>k_earth := mmu_free p (k_earth k)\<rparr>)"
  shows "sys_ok k'"
proof -
  note D = kernel_okD [OF trap_ok_kernel [OF k]]
  note f = qemu.mmu_free_ok [OF D(6,7), where p = p]
  have s: "proc_set k' = set_status p PROC_UNUSED (proc_set k)" "k_earth k' = mmu_free p (k_earth k)"
    "proc_curr_idx k' = proc_curr_idx k" "proc_nprocs k' = proc_nprocs k"
    by (simp_all add: k' proc_set_status_def)
  have nth: "proc_set k' ! i = (if p_pid (proc_set k ! i) = p then (proc_set k ! i)\<lparr>p_status := PROC_UNUSED\<rparr> else proc_set k ! i)"
    if "i < 8" for i using that D(3) by (simp add: s nth_set_status)
  have plat: "platform (k_earth k') = platform (k_earth k)" by (simp add: s mmu_free_def platform_mmu_free)
  have "p_status (proc_set k' ! i) = PROC_RUNNING \<longleftrightarrow> i = proc_curr_idx k'" if "i < 8" for i
    using nth [OF that] D(9) [OF that] p s(3) by auto
  then have "kernel_wf k'" using set_status_wf [OF D(1)] D(2) s by (simp add: kernel_wf_def)
  then have 1: "kernel_ok on_qemu qemu_store k'"
    using f(1,2,4) D(8) nth [OF D(2)] p s by (simp add: kernel_ok_def)
  have 2: "vm_wf (qemu_store \<union> kernel_area (platform (k_earth k'))) (k_earth k')"
    unfolding plat unfolding s(2) by (rule vm_wf_mmu_free) (use k D(6,7) in \<open>simp_all add: trap_ok_def\<close>)
  have "\<exists>g. arg_frame (k_earth k') (p_pid (proc_set k' ! i)) g" if i: "i < 8" and L: "live (proc_set k' ! i)" for i
  proof -
    have ne: "p_pid (proc_set k ! i) \<noteq> p" and eq: "proc_set k' ! i = proc_set k ! i"
      using nth [OF i] L by (auto simp: live_def split: if_splits)
    from trap_ok_arg [OF k i] L eq obtain g where g: "arg_frame (k_earth k) (p_pid (proc_set k ! i)) g" by metis
    then have "table (mmu_free p (k_earth k)) ! g = table (k_earth k) ! g"
      using f(6) [of g] ne by (auto simp: arg_frame_def)
    then show ?thesis using g eq by (auto simp: arg_frame_def s(2))
  qed
  then show ?thesis using 1 2 k by (auto simp: trap_ok_def plat)
qed

text \<open>
  C21: Freeing a process. proc_free keeps the invariant of the kernel when it frees another process
  than the running one; the process has no frame left, its entry is unused, and the other
  processes keep their entries and their pages.
\<close>

theorem proc_free_invariant:
  assumes "sys_ok k" "pid \<noteq> curr_pid k" "pid \<noteq> - 1"
  shows "sys_ok (proc_free pid k) \<and>
    (\<forall>i<NFRAMES. \<not> (fm_use (table (k_earth (proc_free pid k)) ! i) \<noteq> 0 \<and> fm_pid (table (k_earth (proc_free pid k)) ! i) = pid)) \<and>
    (\<forall>i. used (k_earth k) i \<longrightarrow> fm_pid (table (k_earth k) ! i) \<noteq> pid \<longrightarrow> page_of (proc_free pid k) i = page_of k i) \<and>
    (\<forall>i<MAX_NPROCESS. proc_set (proc_free pid k) ! i =
       (if p_pid (proc_set k ! i) = pid then (proc_set k ! i)\<lparr>p_status := PROC_UNUSED\<rparr> else proc_set k ! i))"
proof -
  note D = kernel_okD [OF trap_ok_kernel [OF assms(1)]]
  note f = qemu.mmu_free_ok [OF D(6,7), where p = pid]
  have free: "proc_free pid k = proc_set_status pid PROC_UNUSED (k\<lparr>k_earth := mmu_free pid (k_earth k)\<rparr>)"
    using assms(3) by (simp add: proc_free_def)
  have e: "k_earth (proc_free pid k) = mmu_free pid (k_earth k)" by (simp add: free proc_set_status_def)
  have "\<not> (fm_use (table (mmu_free pid (k_earth k)) ! i) \<noteq> 0 \<and> fm_pid (table (mmu_free pid (k_earth k)) ! i) = pid)"
    if "i < NFRAMES" for i
    using f(6) [of i] that by (auto simp: NFRAMES_def zero_mapping_def)
  moreover have "proc_set (proc_free pid k) ! i =
      (if p_pid (proc_set k ! i) = pid then (proc_set k ! i)\<lparr>p_status := PROC_UNUSED\<rparr> else proc_set k ! i)" if "i < 8" for i
    using that D(3) by (simp add: free proc_set_status_def nth_set_status)
  ultimately show ?thesis using free_sys_ok [OF assms(1,2) free] f(7) e by simp
qed

theorem proc_free_invariant_witness:
  "sys_ok (proc_free 6 (demo 5 False 0 0 PROC_RUNNABLE)) \<and>
   p_status (proc_set (proc_free 6 (demo 5 False 0 0 PROC_RUNNABLE)) ! 1) = PROC_UNUSED"
  using proc_free_invariant [of "demo 5 False 0 0 PROC_RUNNABLE" 6] demo_ok [of 5 PROC_RUNNABLE False 0 0] by simp

section \<open>Allocating\<close>

lemma sint_nonneg:
  fixes w :: u32
  assumes "unat w < 2 ^ 31"
  shows "sint w = int (unat w)"
proof -
  have "int (unat w) < int (2 ^ 31)" using assms by (simp only: of_nat_less_iff)
  then have "uint w < 2 ^ 31" "- (2 ^ 31) \<le> uint w" by (simp_all add: order_trans [OF _ uint_ge_0])
  then show ?thesis by (simp add: sint_uint signed_take_bit_int_eq_self_iff)
qed

lemma alloc_procs_wf:
  assumes wf: "procs_wf ps n" and i: "i < 8" and n: "unat n' = unat n + 1" "unat n' < 2 ^ 31" "pid = int (unat n')"
    and lt: "\<And>j. j < 8 \<Longrightarrow> p_pid (ps ! j) < pid"
  shows "procs_wf (ps[i := (ps ! i)\<lparr>p_pid := pid, p_status := PROC_LOADING\<rparr>]) n'"
proof -
  let ?p = "(ps ! i)\<lparr>p_pid := pid, p_status := PROC_LOADING\<rparr>"
  have len: "length ps = 8" using wf by (simp add: procs_wf_def)
  have nth: "ps[i := ?p] ! j = (if j = i then ?p else ps ! j)" if "j < 8" for j
    using that len by (simp add: nth_list_update)
  have "0 \<le> p_pid q \<and> p_pid q \<le> int (unat n') \<and> length (saved_register q) = SAVED_REGISTER_NUM \<and>
      (p_pid q = 0 \<longrightarrow> p_status q = PROC_UNUSED)" if q: "q \<in> set (ps[i := ?p])" for q
  proof -
    from q obtain j where j: "j < 8" "q = ps[i := ?p] ! j" using len by (auto simp: in_set_conv_nth)
    show ?thesis using procs_wf_nth [OF wf j(1)] procs_wf_nth(4) [OF wf i] n unfolding j(2) nth [OF j(1)]
      by (auto simp: SAVED_REGISTER_NUM_def)
  qed
  moreover have "j = m" if "j < 8" "m < 8" "p_pid (ps[i := ?p] ! j) = p_pid (ps[i := ?p] ! m)" "p_pid (ps[i := ?p] ! j) \<noteq> 0" for j m
    using procs_wf_unique [OF wf that(1,2)] lt [OF that(1)] lt [OF that(2)] that(3,4)
    unfolding nth [OF that(1)] nth [OF that(2)] by (auto split: if_splits)
  ultimately show ?thesis unfolding procs_wf_def MAX_NPROCESS_8 using len n(2) by (metis length_list_update)
qed

text \<open>The process that proc_alloc makes of an unused entry.\<close>

definition new_proc :: "'d kernel \<Rightarrow> process \<Rightarrow> process" where
  "new_proc k p = p\<lparr>p_pid := int (unat (proc_nprocs k)) + 1, p_status := PROC_LOADING\<rparr>"

lemma alloc_sys_ok:
  assumes ok: "sys_ok k" "unat (proc_nprocs k) + 1 < 2 ^ 31"
    and Some: "find_proc (\<lambda>p. p_status p = PROC_UNUSED) 0 (proc_set k) = Some i"
    and k': "k' = k\<lparr>proc_nprocs := proc_nprocs k + 1, proc_set := (proc_set k)[i := new_proc k (proc_set k ! i)]\<rparr>"
  shows "proc_alloc k = Ret (int (unat (proc_nprocs k)) + 1, k')" "sys_ok k'" "i < 8"
    "p_status (proc_set k ! i) = PROC_UNUSED" "\<forall>j<i. p_status (proc_set k ! j) \<noteq> PROC_UNUSED"
    "\<And>j. j < 8 \<Longrightarrow> p_pid (proc_set k ! j) < int (unat (proc_nprocs k)) + 1"
    "unat (proc_nprocs k + 1) = unat (proc_nprocs k) + 1"
proof -
  note D = kernel_okD [OF trap_ok_kernel [OF ok(1)]]
  show i: "i < 8" "p_status (proc_set k ! i) = PROC_UNUSED" "\<forall>j<i. p_status (proc_set k ! j) \<noteq> PROC_UNUSED"
    using find_proc_Some [OF Some] D(3) by auto
  define n where "n = proc_nprocs k + 1"
  have un: "unat n = unat (proc_nprocs k) + 1" using ok(2) by (simp add: n_def unat_word_ariths)
  then show "unat (proc_nprocs k + 1) = unat (proc_nprocs k) + 1" by (simp add: n_def)
  have n31: "unat n < 2 ^ 31" using ok(2) un by simp
  have pid: "int (unat (proc_nprocs k)) + 1 = int (unat n)" by (simp add: un)
  have sn: "sint n = int (unat n)" by (rule sint_nonneg [OF n31])
  define p where "p = new_proc k (proc_set k ! i)"
  have s: "proc_set k' = (proc_set k)[i := p]" "proc_nprocs k' = n" "proc_curr_idx k' = proc_curr_idx k" "k_earth k' = k_earth k"
    by (simp_all add: k' n_def p_def)
  show lt: "p_pid (proc_set k ! j) < int (unat (proc_nprocs k)) + 1" if "j < 8" for j
    using procs_wf_nth(2) [OF D(1) that] by simp
  have ic: "i \<noteq> proc_curr_idx k" using D(4) i(2) by auto
  have nth: "proc_set k' ! j = (if j = i then p else proc_set k ! j)" if "j < 8" for j
    using that D(3) by (simp add: s nth_list_update)
  have st: "p_status p = PROC_LOADING" by (simp add: p_def new_proc_def)
  have wf: "procs_wf (proc_set k') n" unfolding s p_def new_proc_def
    by (rule alloc_procs_wf [OF D(1) i(1) un n31 pid lt])
  have run: "p_status (proc_set k' ! j) = PROC_RUNNING \<longleftrightarrow> j = proc_curr_idx k" if "j < 8" for j
    using D(9) [OF that] D(9) [OF i(1)] ic st unfolding nth [OF that] by simp
  have "kernel_wf k'" unfolding kernel_wf_def s(2,3) MAX_NPROCESS_8 using wf D(2) run by blast
  moreover have "curr_pid k' = curr_pid k" using nth [OF D(2)] ic by (simp add: s(3))
  ultimately have kok: "kernel_ok on_qemu qemu_store k'" using D(6-8) by (simp add: kernel_ok_def s(4))
  have arg: "\<exists>f. arg_frame (k_earth k) (p_pid (proc_set k' ! j)) f" if j: "j < 8" "live (proc_set k' ! j)" for j
  proof -
    have "j \<noteq> i" using j st by (auto simp: nth live_def)
    then show ?thesis using trap_ok_arg [OF ok(1) j(1)] j(2) unfolding nth [OF j(1)] by auto
  qed
  show "sys_ok k'" using ok(1) kok arg unfolding trap_ok_def s(4) by blast
  show "proc_alloc k = Ret (int (unat (proc_nprocs k)) + 1, k')"
    unfolding proc_alloc_def Some k' new_proc_def option.case Let_def n_def [symmetric] sn pid ..
qed

text \<open>
  C22: Allocating a process. proc_alloc stops when no entry is unused. Otherwise it returns a pid that
  no process has had, puts it into the first unused entry with status loading, changes no other
  entry, and keeps the invariant of the kernel, as long as the counter of processes is below its
  largest positive value.
\<close>

theorem proc_alloc_fresh:
  assumes "sys_ok k" "unat (proc_nprocs k) + 1 < 2 ^ 31"
  shows "(\<forall>p\<in>set (proc_set k). p_status p \<noteq> PROC_UNUSED) \<and>
      proc_alloc k = Fatal ''proc_alloc: reach the limit of processes'' \<or>
    owp (proc_alloc k) (\<lambda>(pid, k'). sys_ok k' \<and> (\<forall>p\<in>set (proc_set k). p_pid p < pid) \<and>
      (\<exists>i<MAX_NPROCESS. p_status (proc_set k ! i) = PROC_UNUSED \<and> (\<forall>j<i. p_status (proc_set k ! j) \<noteq> PROC_UNUSED) \<and>
         proc_set k' = (proc_set k)[i := (proc_set k ! i)\<lparr>p_pid := pid, p_status := PROC_LOADING\<rparr>]))"
proof (cases "find_proc (\<lambda>p. p_status p = PROC_UNUSED) 0 (proc_set k)")
  case None
  then have "\<forall>p\<in>set (proc_set k). p_status p \<noteq> PROC_UNUSED" by (simp add: find_proc_None)
  with None show ?thesis by (simp add: proc_alloc_def)
next
  case (Some i)
  note D = kernel_okD [OF trap_ok_kernel [OF assms(1)]]
  note a = alloc_sys_ok [OF assms Some refl]
  have "\<forall>p\<in>set (proc_set k). p_pid p < int (unat (proc_nprocs k)) + 1" using a(6) D(3) by (auto simp: in_set_conv_nth)
  with a(1-5) show ?thesis by (auto simp: new_proc_def)
qed

theorem proc_alloc_fresh_witness:
  "owp (proc_alloc (demo 5 False 0 0 PROC_RUNNABLE)) (\<lambda>(pid, k'). sys_ok k')"
proof -
  let ?k = "demo 5 False 0 0 PROC_RUNNABLE"
  have "\<not> (\<forall>p\<in>set (proc_set ?k). p_status p \<noteq> PROC_UNUSED)" by (simp add: demo_def)
  with proc_alloc_fresh [of ?k] demo_ok [of 5 PROC_RUNNABLE False 0 0]
  show ?thesis by (auto elim!: owp_mono)
qed

end
