(* ===== verification/Spawn_Correct.thy ===== *)
theory Spawn_Correct
  imports Sys_Proc Load_Correct Process_Properties
begin

text \<open>
  Spawning keeps the invariant of the kernel, and the start of the grass layer establishes it.
\<close>

section \<open>New frames in the table\<close>

text \<open>Pages that applications have do not overlap the frames or the memory of the kernel.\<close>

definition app_page_no :: "u32 \<Rightarrow> bool" where
  "app_page_no pg \<longleftrightarrow> pg \<in> {0x8005, 0x8006, 0x8007, 0x80000, 0x80001}"

lemma app_page_clear:
  assumes "app_page_no pg" "p \<noteq> ARTY"
  shows "page_clear (qemu_store \<union> kernel_area p) pg"
proof -
  have "unat pg \<in> unat ` {0x8005, 0x8006, 0x8007, 0x80000, 0x80001 :: u32}"
    using assms(1) unfolding app_page_no_def by (rule imageI)
  then have s: "unat pg \<in> {0x8005, 0x8006, 0x8007, 0x80000, 0x80001}" by simp
  have "{0x8005, 0x8006, 0x8007, 0x80000, 0x80001} \<subseteq> {..<2 ^ 20 :: nat}" by simp
  with s have n: "unat pg < 2 ^ 20" by blast
  have "x \<notin> qemu_store \<union> kernel_area p" if "in_page pg x" for x
  proof -
    define q r where "q = unat x div 4096" and "r = unat x mod 4096"
    have qr: "unat x = 4096 * q + r" "r < 4096" by (simp_all add: q_def r_def)
    have "q \<in> {0x8005, 0x8006, 0x8007, 0x80000, 0x80001}" using that s by (simp only: in_page_iff [OF n] q_def)
    moreover have "{0x8005, 0x8006, 0x8007, 0x80000, 0x80001} \<subseteq> {0x8005..0x80001 :: nat}" by simp
    ultimately have "0x8005 \<le> q" "q \<le> 0x80001" by (meson atLeastAtMost_iff subsetD)+
    then have x: "unat x < 0x80002000" "0x8005000 \<le> unat x" using qr by simp_all
    have a: "unat (MSIP p) = 0x2000004" "unat SAVED_REGISTER_ADDR = 0x80003F0C" "SAVED_REGISTER_SIZE = 116"
      using assms(2) by (simp_all add: layout_defs)
    have "\<not> in_region (MSIP p) 4 x" "\<not> in_region SAVED_REGISTER_ADDR SAVED_REGISTER_SIZE x"
      using x a by (simp_all add: in_region_nat)
    then show ?thesis using x by (simp add: in_qemu_store kernel_area_def)
  qed
  with n show ?thesis by (simp only: page_clear_def) blast
qed

lemma app_image_pages:
  assumes "app_image argc argv img L"
  shows "length L = 5" "\<And>i pg bs. (i, pg, bs) \<in> set L \<Longrightarrow> app_page_no pg" "distinct (map (\<lambda>(_, pg, _). pg) L)"
    "\<exists>i page. (i, 0x80000, page) \<in> set L \<and> args_page argc argv page"
    "\<And>j. j < 3 \<Longrightarrow> \<exists>i. (i, 0x8005 + of_nat j, img j) \<in> set L"
proof -
  obtain Lc i page j junk where L: "L = Lc @ [(i, 0x80000, page), (j, 0x80001, junk)]" and len: "length Lc = 3"
    and c: "pages_image 0x8005 img Lc" and p: "args_page argc argv page"
    using assms by (auto simp: app_image_def)
  obtain x y z where Lc: "Lc = [x, y, z]" using len by (auto simp: length_Suc_conv eval_nat_numeral)
  have s: "snd x = (0x8005, img 0)" "snd y = (0x8006, img 1)" "snd z = (0x8007, img 2)"
    using c [unfolded pages_image_def Lc, rule_format, of 0] c [unfolded pages_image_def Lc, rule_format, of 1]
      c [unfolded pages_image_def Lc, rule_format, of 2] by simp_all
  obtain x' y' z' where xyz: "x = (x', 0x8005, img 0)" "y = (y', 0x8006, img 1)" "z = (z', 0x8007, img 2)"
    using s by (metis prod.collapse)
  show "length L = 5" by (simp add: L len)
  show "app_page_no pg" if "(k, pg, bs) \<in> set L" for k pg bs
    using that by (auto simp: L Lc xyz app_page_no_def)
  show "distinct (map (\<lambda>(_, pg, _). pg) L)" by (simp add: L Lc xyz)
  show "\<exists>i page. (i, 0x80000, page) \<in> set L \<and> args_page argc argv page" using p by (auto simp: L)
  show "\<exists>i. (i, 0x8005 + of_nat k, img k) \<in> set L" if k: "k < 3" for k
  proof -
    consider "k = 0" | "k = 1" | "k = 2" using k by linarith
    then show ?thesis by cases (simp_all add: L Lc xyz)
  qed
qed

text \<open>What a list of new pages means for the address spaces.\<close>

lemma loaded_frames:
  assumes "loaded e0 pid L e"
  shows "used e0 i \<Longrightarrow> table e ! i = table e0 ! i" "used e0 i \<Longrightarrow> i \<notin> fst ` set L"
    "(i, pg, bs) \<in> set L \<Longrightarrow> used e i \<and> fm_pid (table e ! i) = pid \<and> fm_page_no (table e ! i) = pg \<and> qemu_frame e i = bs"
    "used e i \<Longrightarrow> used e0 i \<or> (\<exists>pg bs. (i, pg, bs) \<in> set L)"
proof -
  note l = assms [unfolded loaded_def]
  show new: "i \<notin> fst ` set L" if "used e0 i" for i using l that by fastforce
  show "table e ! i = table e0 ! i" if "used e0 i" for i
  proof -
    have "map_of L i = None" using new [OF that] by (simp add: map_of_eq_None_iff)
    then show ?thesis using l that by simp
  qed
  show "used e i \<and> fm_pid (table e ! i) = pid \<and> fm_page_no (table e ! i) = pg \<and> qemu_frame e i = bs"
    if "(i, pg, bs) \<in> set L" for i pg bs
  proof -
    have "map_of L i = Some (pg, bs)" using that l by (simp add: map_of_is_SomeI)
    then show ?thesis using l that by fastforce
  qed
  show "used e0 i \<or> (\<exists>pg bs. (i, pg, bs) \<in> set L)" if "used e i" for i
  proof (cases "map_of L i")
    case None
    then show ?thesis using l that by auto
  next
    case (Some x)
    then show ?thesis using map_of_SomeD [OF Some] by (cases x) auto
  qed
qed

lemma loaded_views:
  assumes l: "loaded e0 pid L e" and wf: "vm_wf S e0" "qemu_store \<subseteq> S" and i: "used e0 i"
  shows "page_view qemu_frame e i = page_view qemu_frame e0 i"
proof -
  note f = loaded_frames [OF l]
  have c: "curr_vm_pid e = curr_vm_pid e0" using l same_rest_sel(3) by (auto simp: loaded_def)
  have out: "mem e x = mem e0 x" if "\<forall>j\<in>fst ` set L. \<not> in_region (frame_addr j) 4096 x" for x
    using l that unfolding loaded_def by blast
  have b: "j < 256" if "j \<in> fst ` set L" for j using l that by (fastforce simp: loaded_def)
  have "qemu_frame e i = qemu_frame e0 i"
  proof -
    have "mem_read (mem e) (frame_addr i) 4096 = mem_read (mem e0) (frame_addr i) 4096"
      by (rule mem_read_cong) (use out f(2) [OF i] frames_disjoint i b in \<open>fastforce simp: disjoint_regions_def\<close>)+
    then show ?thesis by (simp add: qemu_frame_def layout_defs)
  qed
  moreover have "mem_read (mem e) (page_addr (fm_page_no (table e0 ! i))) 4096 = mem_read (mem e0) (page_addr (fm_page_no (table e0 ! i))) 4096"
  proof (rule page_read_cong)
    fix x assume "in_page (fm_page_no (table e0 ! i)) x"
    then have "x \<notin> qemu_store" using wf i by (auto simp: vm_wf_def page_clear_def)
    then have "\<forall>j\<in>fst ` set L. \<not> in_region (frame_addr j) 4096 x" using b frame_region by blast
    then show "mem e x = mem e0 x" by (rule out)
  qed
  ultimately show ?thesis using f(1) [OF i] c by (simp add: page_view_def)
qed

lemma loaded_vm_wf:
  assumes l: "loaded e0 pid L e" and wf: "vm_wf S e0" and new: "\<And>i. used e0 i \<Longrightarrow> fm_pid (table e0 ! i) \<noteq> pid"
    and pg: "\<And>i pg bs. (i, pg, bs) \<in> set L \<Longrightarrow> page_clear S pg" and d: "distinct (map (\<lambda>(_, pg, _). pg) L)"
  shows "vm_wf S e"
proof -
  note f = loaded_frames [OF l]
  have inj: "i = j" if "(i, pg, bs) \<in> set L" "(j, pg, bs') \<in> set L" for i j pg bs bs'
  proof -
    have "inj_on (\<lambda>(_, pg, _). pg) (set L)" using d by (simp add: distinct_map)
    from inj_onD [OF this _ that] show ?thesis by simp
  qed
  have "page_clear S (fm_page_no (table e ! i))" if u: "used e i" for i
  proof (cases "used e0 i")
    case True
    then show ?thesis using wf f(1) [OF True] by (simp add: vm_wf_def)
  next
    case False
    then obtain p bs where "(i, p, bs) \<in> set L" using f(4) [OF u] by blast
    then show ?thesis using pg f(3) by metis
  qed
  moreover have "i = j" if ij: "used e i" "used e j" "fm_pid (table e ! i) = fm_pid (table e ! j)"
    "fm_page_no (table e ! i) = fm_page_no (table e ! j)" for i j
  proof -
    consider "used e0 i" "used e0 j" | "used e0 i" "\<exists>pg bs. (j, pg, bs) \<in> set L" | "used e0 j" "\<exists>pg bs. (i, pg, bs) \<in> set L"
      | "\<exists>pg bs. (i, pg, bs) \<in> set L" "\<exists>pg bs. (j, pg, bs) \<in> set L"
      using f(4) [OF ij(1)] f(4) [OF ij(2)] by blast
    then show ?thesis
    proof cases
      case 1
      then show ?thesis using ij wf f(1) by (simp add: vm_wf_def)
    next
      case 2
      then show ?thesis using ij(3) f(1) [OF 2(1)] f(3) new [OF 2(1)] by metis
    next
      case 3
      then show ?thesis using ij(3) f(1) [OF 3(1)] f(3) new [OF 3(1)] by metis
    next
      case 4
      then show ?thesis using ij(4) f(3) inj by metis
    qed
  qed
  moreover have "length (table e) = 256" using l by (simp add: loaded_def)
  ultimately show ?thesis unfolding vm_wf_def by blast
qed

section \<open>Spawning\<close>

text \<open>Every frame belongs to a process that has been created.\<close>

definition frames_owned :: "'d kernel \<Rightarrow> bool" where
  "frames_owned k \<longleftrightarrow> (\<forall>i. used (k_earth k) i \<longrightarrow> fm_pid (table (k_earth k) ! i) \<le> int (unat (proc_nprocs k)))"

text \<open>
  From \<open>k\<close> to \<open>k'\<close> a process came into entry \<open>i\<close> of the process table, with the status \<open>st\<close> and the
  pages of an application; nothing else changed.
\<close>

definition spawned :: "'d kernel \<Rightarrow> nat \<Rightarrow> proc_status \<Rightarrow> nat \<Rightarrow> byte list \<Rightarrow> (nat \<Rightarrow> byte list) \<Rightarrow> 'd kernel \<Rightarrow> bool" where
  "spawned k i st argc argv img k' \<longleftrightarrow>
     proc_set k' = (proc_set k)[i := (new_proc k (proc_set k ! i))\<lparr>p_status := st\<rparr>] \<and>
     proc_curr_idx k' = proc_curr_idx k \<and> proc_nprocs k' = proc_nprocs k + 1 \<and>
     (\<forall>f. used (k_earth k) f \<longrightarrow> used (k_earth k') f \<and> table (k_earth k') ! f = table (k_earth k) ! f \<and> page_of k' f = page_of k f) \<and>
     (\<forall>f. used (k_earth k') f \<longrightarrow> used (k_earth k) f \<or> fm_pid (table (k_earth k') ! f) = int (unat (proc_nprocs k)) + 1) \<and>
     (\<forall>j<3. \<exists>f. used (k_earth k') f \<and> fm_pid (table (k_earth k') ! f) = int (unat (proc_nprocs k)) + 1 \<and>
        fm_page_no (table (k_earth k') ! f) = 0x8005 + of_nat j \<and> page_of k' f = img j) \<and>
     (\<exists>f. arg_frame (k_earth k') (int (unat (proc_nprocs k)) + 1) f \<and> args_page argc argv (page_of k' f))"

lemma loaded_new_view:
  assumes l: "loaded e0 pid L e" and c: "curr_vm_pid e0 \<noteq> pid" and m: "(i, pg, bs) \<in> set L"
  shows "page_view qemu_frame e i = bs"
proof -
  have "curr_vm_pid e = curr_vm_pid e0" using l same_rest_sel(3) by (auto simp: loaded_def)
  then show ?thesis using loaded_frames(3) [OF l m] c by (simp add: page_view_def)
qed

lemma loaded_spawned:
  assumes ok: "sys_ok k" and own: "frames_owned k" and n: "unat (proc_nprocs k) + 1 < 2 ^ 31"
    and l: "loaded (k_earth k) (int (unat (proc_nprocs k)) + 1) L e" and img: "app_image argc argv img L"
    and k': "proc_set k' = (proc_set k)[i := (new_proc k (proc_set k ! i))\<lparr>p_status := st\<rparr>]" "proc_curr_idx k' = proc_curr_idx k"
      "proc_nprocs k' = proc_nprocs k + 1" "k_earth k' = e"
  shows "spawned k i st argc argv img k'"
proof -
  let ?pid = "int (unat (proc_nprocs k)) + 1"
  note D = kernel_okD [OF trap_ok_kernel [OF ok]] and f = loaded_frames [OF l] and p = app_image_pages [OF img]
  have c: "curr_vm_pid (k_earth k) \<noteq> ?pid" using D(8) procs_wf_nth(2) [OF D(1,2)] by simp
  have view: "page_of k' j = page_of k j" if "used (k_earth k) j" for j
    unfolding k'(4) by (rule loaded_views [OF l D(7) _ that]) simp
  have old: "used e j \<and> table e ! j = table (k_earth k) ! j" if "used (k_earth k) j" for j
    using f(1) [OF that] that by simp
  have new: "used (k_earth k) j \<or> fm_pid (table e ! j) = ?pid" if "used e j" for j
    using f(4) [OF that] f(3) by blast
  have code: "\<exists>f. used e f \<and> fm_pid (table e ! f) = ?pid \<and> fm_page_no (table e ! f) = 0x8005 + of_nat j \<and> page_of k' f = img j"
    if j: "j < 3" for j
  proof -
    obtain x where x: "(x, 0x8005 + of_nat j, img j) \<in> set L" using p(5) [OF j] by blast
    show ?thesis using f(3) [OF x] loaded_new_view [OF l c x] unfolding k'(4) by blast
  qed
  obtain x page where x: "(x, 0x80000, page) \<in> set L" "args_page argc argv page" using p(4) by blast
  have arg: "arg_frame e ?pid x \<and> args_page argc argv (page_of k' x)"
    using f(3) [OF x(1)] loaded_new_view [OF l c x(1)] x(2) unfolding k'(4) arg_frame_def by simp
  show ?thesis unfolding spawned_def k' using view old new code arg unfolding k'(4) by blast
qed

lemma spawned_sys_ok:
  assumes ok: "sys_ok k" and own: "frames_owned k" and n: "unat (proc_nprocs k) + 1 < 2 ^ 31"
    and i: "i < 8" "p_status (proc_set k ! i) = PROC_UNUSED" and st: "st = PROC_LOADING \<or> st = PROC_READY"
    and l: "loaded (k_earth k) (int (unat (proc_nprocs k)) + 1) L e" and img: "app_image argc argv img L"
    and k': "proc_set k' = (proc_set k)[i := (new_proc k (proc_set k ! i))\<lparr>p_status := st\<rparr>]" "proc_curr_idx k' = proc_curr_idx k"
      "proc_nprocs k' = proc_nprocs k + 1" "k_earth k' = e"
  shows "sys_ok k'" "frames_owned k'"
proof -
  let ?pid = "int (unat (proc_nprocs k)) + 1"
  note D = kernel_okD [OF trap_ok_kernel [OF ok]] and f = loaded_frames [OF l] and p = app_image_pages [OF img]
  have un: "unat (proc_nprocs k + 1) = unat (proc_nprocs k) + 1" using n by (simp add: unat_word_ariths)
  have rest: "platform e = platform (k_earth k)" "curr_vm_pid e = curr_vm_pid (k_earth k)" using l same_rest_sel by (auto simp: loaded_def)
  have q: "on_qemu e" by (rule loaded_on_qemu [OF l])
  have plat: "platform (k_earth k) \<noteq> ARTY" using D(6) by (simp add: on_qemu_def)
  have fresh: "fm_pid (table (k_earth k) ! j) \<noteq> ?pid" if "used (k_earth k) j" for j
    using own that by (fastforce simp: frames_owned_def)
  let ?S = "qemu_store \<union> kernel_area (platform (k_earth k))"
  have wf: "vm_wf ?S e"
    by (rule loaded_vm_wf [OF l _ fresh])
      (use ok p(2,3) app_page_clear [OF _ plat] in \<open>auto simp: trap_ok_def\<close>)
  have wf': "vm_wf qemu_store e" using wf by (simp add: vm_wf_def page_clear_def)
  have lt: "p_pid (proc_set k ! j) < ?pid" if "j < 8" for j using procs_wf_nth(2) [OF D(1) that] by simp
  define ps where "ps = (proc_set k)[i := new_proc k (proc_set k ! i)]"
  have lps: "length ps = 8" using D(3) by (simp add: ps_def)
  have psi: "ps ! i = new_proc k (proc_set k ! i)" using i(1) D(3) by (simp add: ps_def)
  have wfp: "procs_wf ps (proc_nprocs k + 1)" unfolding ps_def new_proc_def
    by (rule alloc_procs_wf [OF D(1) i(1) un _ _ lt]) (use n un in simp_all)
  have ps': "proc_set k' = ps[i := (ps ! i)\<lparr>p_status := st\<rparr>]" using i(1) D(3) by (simp add: k'(1) ps_def)
  have wfk: "procs_wf (proc_set k') (proc_nprocs k')" unfolding k'(3)
  proof (rule procs_wfI [OF wfp])
    show "length (proc_set k') = 8" using lps ps' by simp
    fix j :: nat assume j: "j < 8"
    show "p_pid (proc_set k' ! j) = p_pid (ps ! j) \<and> length (saved_register (proc_set k' ! j)) = 29 \<and>
      (p_pid (ps ! j) = 0 \<longrightarrow> p_status (proc_set k' ! j) = PROC_UNUSED)"
    proof (cases "j = i")
      case True
      have "p_pid (ps ! i) = ?pid" "proc_set k' ! i = (ps ! i)\<lparr>p_status := st\<rparr>" using i(1) lps psi by (simp_all add: ps' new_proc_def)
      moreover have "0 < ?pid" by (metis add_nonneg_pos of_nat_0_le_iff zero_less_one)
      ultimately have "p_pid (ps ! i) \<noteq> 0" "proc_set k' ! i = (ps ! i)\<lparr>p_status := st\<rparr>" by linarith+
      then show ?thesis using procs_wf_nth(4) [OF wfp j] True by simp
    next
      case False
      then show ?thesis using procs_wf_nth [OF wfp j] by (simp add: ps')
    qed
  qed
  have ic: "i \<noteq> proc_curr_idx k" using D(4) i(2) by auto
  have nth: "proc_set k' ! j = (if j = i then (new_proc k (proc_set k ! i))\<lparr>p_status := st\<rparr> else proc_set k ! j)" if "j < 8" for j
    using that D(3) by (simp add: k'(1) nth_list_update)
  have run: "p_status (proc_set k' ! j) = PROC_RUNNING \<longleftrightarrow> j = proc_curr_idx k" if "j < 8" for j
    using D(9) [OF that] ic st unfolding nth [OF that] by auto
  have "kernel_wf k'" unfolding kernel_wf_def k'(2) MAX_NPROCESS_8 using wfk D(2) run by blast
  moreover have "curr_pid k' = curr_pid k" using nth [OF D(2)] ic by (simp add: k'(2))
  ultimately have kok: "kernel_ok on_qemu qemu_store k'" using D(8) q wf' rest(2) by (simp add: kernel_ok_def k'(4))
  have arg: "\<exists>x. arg_frame e (p_pid (proc_set k' ! j)) x" if j: "j < 8" "live (proc_set k' ! j)" for j
  proof (cases "j = i")
    case True
    obtain x page where x: "(x, 0x80000, page) \<in> set L" using p(4) by blast
    show ?thesis using f(3) [OF x] True unfolding nth [OF j(1)] arg_frame_def by (auto simp: new_proc_def)
  next
    case False
    then obtain x where "arg_frame (k_earth k) (p_pid (proc_set k ! j)) x"
      using trap_ok_arg [OF ok j(1)] j(2) unfolding nth [OF j(1)] by auto
    then show ?thesis using False f(1) [of x] unfolding nth [OF j(1)] arg_frame_def by auto
  qed
  show "sys_ok k'" unfolding trap_ok_def k'(4) rest(1) using kok wf arg ok by (auto simp: trap_ok_def)
  show "frames_owned k'"
    unfolding frames_owned_def k'(3,4) un
  proof (intro allI impI)
    fix j assume u: "used e j"
    show "fm_pid (table e ! j) \<le> int (unat (proc_nprocs k) + 1)"
    proof (cases "used (k_earth k) j")
      case True
      then show ?thesis using own f(1) [OF True] by (auto simp: frames_owned_def)
    next
      case False
      then obtain pg bs where "(j, pg, bs) \<in> set L" using f(4) [OF u] by blast
      then show ?thesis using f(3) by fastforce
    qed
  qed
qed

text \<open>
  The kernel can take another application: there is an unused entry and five unused frames, and the
  limit of page_table_map on pids is not reached.
\<close>

definition can_spawn :: "'d kernel \<Rightarrow> nat \<Rightarrow> bool" where
  "can_spawn k i \<longleftrightarrow> find_proc (\<lambda>p. p_status p = PROC_UNUSED) 0 (proc_set k) = Some i \<and>
     5 \<le> nfree (k_earth k) \<and> unat (proc_nprocs k) + 1 < 32"

lemma load_ready_ok:
  assumes ok: "sys_ok k" "frames_owned k" "can_spawn k i"
    and r: "reads_file srv J reader bf N" "J (k_earth k)" "app_executable bf ph" "args_valid argc argv" "length junk = 512"
      "0 < N" "unat (p_offset ph) + unat (p_filesz ph) \<le> 512 * N"
    and k1: "k1 = k\<lparr>proc_nprocs := proc_nprocs k + 1, proc_set := (proc_set k)[i := new_proc k (proc_set k ! i)]\<rparr>"
      "pid = int (unat (proc_nprocs k)) + 1"
  shows "owp (run srv (ibind (elf_load pid reader (int argc) argv junk) (\<lambda>_. set_ready pid)) (None, k1)) (\<lambda>(_, p, k').
    p = None \<and> sys_ok k' \<and> frames_owned k' \<and> J (k_earth k') \<and>
    spawned k i PROC_READY argc (args_given argc argv) (segment_page bf (p_offset ph div 512) (unat (p_filesz ph))) k')"
proof -
  note D = kernel_okD [OF trap_ok_kernel [OF ok(1)]]
  have u: "unat (proc_nprocs k) + 1 < 32" "5 \<le> nfree (k_earth k)"
    and fp: "find_proc (\<lambda>p. p_status p = PROC_UNUSED) 0 (proc_set k) = Some i" using ok(3) by (simp_all add: can_spawn_def)
  have n: "unat (proc_nprocs k) + 1 < 2 ^ 31" using u(1) by simp
  have "int (unat (proc_nprocs k) + 1) < int 32" using u(1) by (simp only: of_nat_less_iff)
  then have pid: "pid < 32" using k1(2) by simp
  note a = alloc_sys_ok [OF ok(1) n fp k1(1)]
  have e1: "k_earth k1 = k_earth k" by (simp add: k1)
  have "owp (run srv (elf_load pid reader (int argc) argv junk) (None, k1)) (\<lambda>(_, p', k'). p' = None \<and>
    (\<exists>L e'. k' = k1\<lparr>k_earth := e'\<rparr> \<and> loaded (k_earth k1) pid L e' \<and> J e' \<and>
      app_image argc (args_given argc argv) (segment_page bf (p_offset ph div 512) (unat (p_filesz ph))) L))"
    by (rule elf_load_ok [OF r(1,3) pid _ _ _ _ r(4,5,6,7)])
      (use D(6,7) r(2) u(2) in \<open>simp_all add: e1 vm_wf_def\<close>)
  then obtain L e' where L: "run srv (elf_load pid reader (int argc) argv junk) (None, k1) = Ret ((), (None, k1\<lparr>k_earth := e'\<rparr>))"
    "loaded (k_earth k) pid L e'" "J e'"
    "app_image argc (args_given argc argv) (segment_page bf (p_offset ph div 512) (unat (p_filesz ph))) L"
    by (auto simp: owp_iff e1)
  define k' where "k' = proc_set_ready pid (k1\<lparr>k_earth := e'\<rparr>)"
  have ps: "proc_set k1 = (proc_set k)[i := new_proc k (proc_set k ! i)]" by (simp add: k1)
  have psi: "proc_set k1 ! i = new_proc k (proc_set k ! i)" using a(3) D(3) by (simp add: ps)
  then have pp: "p_pid (proc_set k1 ! i) = pid" by (simp add: new_proc_def k1(2))
  have "procs_wf (proc_set k1) (proc_nprocs k1)" by (rule kernel_okD(1) [OF trap_ok_kernel [OF a(2)]])
  moreover have "0 < pid" unfolding k1(2) by (metis add_nonneg_pos of_nat_0_le_iff zero_less_one)
  ultimately have "set_status pid PROC_READY (proc_set k1) = (proc_set k1)[i := (proc_set k1 ! i)\<lparr>p_status := PROC_READY\<rparr>]"
    using set_status_unique [of "proc_set k1" "proc_nprocs k1" i PROC_READY] a(3) pp by simp
  then have s: "proc_set k' = (proc_set k)[i := (new_proc k (proc_set k ! i))\<lparr>p_status := PROC_READY\<rparr>]"
    "proc_curr_idx k' = proc_curr_idx k" "proc_nprocs k' = proc_nprocs k + 1" "k_earth k' = e'"
    unfolding psi unfolding ps by (simp_all add: k'_def proc_set_ready_def proc_set_status_def k1)
  have "run srv (ibind (elf_load pid reader (int argc) argv junk) (\<lambda>_. set_ready pid)) (None, k1) = Ret ((), (None, k'))"
    using L(1) by (simp add: run_ibind set_ready_def run_act k'_def)
  then show ?thesis
    using spawned_sys_ok [OF ok(1,2) n a(3,4) _ L(2) [unfolded k1(2)] L(4) s]
      loaded_spawned [OF ok(1,2) n L(2) [unfolded k1(2)] L(4) s] L(3) s(4) by simp
qed

text \<open>Spawning a system process from the disk.\<close>

lemma sys_spawn_run:
  assumes ok: "sys_ok k" "frames_owned k" "can_spawn k i"
    and r: "reads_file srv J (disk_reader base) bf N" "J (k_earth k)" "app_executable bf ph" "length (elf_buf l) = 512"
      "0 < N" "unat (p_offset ph) + unat (p_filesz ph) \<le> 512 * N"
  shows "owp (run srv (sys_spawn l base) (None, k)) (\<lambda>(_, p, k').
    p = None \<and> sys_ok k' \<and> frames_owned k' \<and> J (k_earth k') \<and>
    spawned k i PROC_READY 0 [] (segment_page bf (p_offset ph div 512) (unat (p_filesz ph))) k')"
proof -
  have n: "unat (proc_nprocs k) + 1 < 2 ^ 31" and fp: "find_proc (\<lambda>p. p_status p = PROC_UNUSED) 0 (proc_set k) = Some i"
    using ok(3) by (simp_all add: can_spawn_def)
  have v: "args_valid 0 None" by (simp add: args_valid_def)
  from load_ready_ok [OF ok r(1-3) v r(4-6) refl refl] alloc_sys_ok(1) [OF ok(1) n fp refl]
  show ?thesis by (simp add: sys_spawn_def run_ibind run_act args_given_def)
qed

end
