(* ===== verification/Dir_Correct.thy ===== *)
theory Dir_Correct
  imports Servers
begin

text \<open>
  The text format of directories and what dir_do_lookup finds in it.
\<close>

section \<open>Lookup as a search in a string\<close>

text \<open>
  The text after the first occurrence of a name that stands between two spaces or at the beginning,
  where \<open>prev\<close> says that a space or the beginning precedes.
\<close>

fun find_name :: "byte list \<Rightarrow> bool \<Rightarrow> byte list \<Rightarrow> byte list option" where
  "find_name name prev s =
     (if length s \<le> length name then None
      else if prev \<and> take (length name) s = name \<and> s ! length name = 32 then Some (drop (length name) s)
      else find_name name (hd s = 32) (tl s))"

declare find_name.simps [simp del]

lemma find_name_short: "length s \<le> length name \<Longrightarrow> find_name name prev s = None"
  by (simp add: find_name.simps)

lemma dir_scan_find:
  assumes n: "0 \<notin> set name" and t: "0 \<notin> set str" and buf: "buf = str @ 0 # rest"
    and b: "bound = length str - length name" and i: "i \<le> length str"
  shows "dir_scan (name @ 0 # junk) (length name) buf bound i =
    (case find_name name (i = 0 \<or> str ! (i - 1) = 32) (drop i str) of
       None \<Rightarrow> Ret (- 1) | Some r \<Rightarrow> atoi (r @ 0 # rest))"
  using i
proof (induction "length str - i" arbitrary: i)
  case 0
  then have "i = length str" by simp
  then have "\<not> i < bound" "length (drop i str) \<le> length name" using b by simp_all
  then show ?case by (subst dir_scan.simps) (simp add: find_name_short)
next
  case (Suc m)
  then have i: "i < length str" by simp
  show ?case
  proof (cases "i < bound")
    case False
    then have "length (drop i str) \<le> length name" using b by simp
    with False show ?thesis by (subst dir_scan.simps) (simp add: find_name_short)
  next
    case True
    then have long: "i + length name < length str" using b by simp
    have cmp: "strncmp_eq (name @ 0 # junk) (drop i buf) (length name) = Ret (take (length name) (drop i str) = name)"
      using strncmp_eq_prefix [OF n refl, of "drop i buf" "0 # junk"] long by (simp add: buf)
    have c: "at buf (i + length name) = Ret (drop i str ! length name)" using long by (simp add: buf nth_append add.commute)
    have "i - 1 < length str" using i by simp
    then have p: "at buf (i - 1) = Ret (str ! (i - 1))" by (simp add: buf nth_append)
    have d: "drop (i + length name) buf = drop (length name) (drop i str) @ 0 # rest"
      using long by (simp add: buf add.commute)
    have ht: "hd (drop i str) = str ! i" "tl (drop i str) = drop (Suc i) str"
      using i by (simp_all add: hd_drop_conv_nth drop_Suc tl_drop)
    have IH: "dir_scan (name @ 0 # junk) (length name) buf bound (Suc i) =
      (case find_name name (str ! i = 32) (drop (Suc i) str) of None \<Rightarrow> Ret (- 1) | Some r \<Rightarrow> atoi (r @ 0 # rest))"
      using Suc.hyps(1) [of "Suc i"] Suc.hyps(2) i by simp
    let ?p = "i = 0 \<or> str ! (i - 1) = 32"
    let ?hit = "?p \<and> take (length name) (drop i str) = name \<and> drop i str ! length name = 32"
    have "\<not> length buf < i" using i by (simp add: buf)
    then have D: "dir_scan (name @ 0 # junk) (length name) buf bound i =
        (if ?hit then atoi (drop (i + length name) buf) else dir_scan (name @ 0 # junk) (length name) buf bound (Suc i))"
      by (subst dir_scan.simps) (simp only: True cmp c p if_True if_False obind.simps, auto)
    have "\<not> length (drop i str) \<le> length name" using long by simp
    then have F: "find_name name ?p (drop i str) =
        (if ?hit then Some (drop (length name) (drop i str)) else find_name name (str ! i = 32) (drop (Suc i) str))"
      by (subst find_name.simps) (simp only: ht if_False)
    show ?thesis unfolding D F by (cases ?hit) (simp_all only: d IH if_True if_False option.case simp_thms)
  qed
qed

section \<open>Directories as text\<close>

text \<open>An entry: a name, spaces, the inode number in decimal, and a space.\<close>

type_synonym dir_entry = "byte list \<times> nat \<times> byte list"

definition entry_text :: "dir_entry \<Rightarrow> byte list" where
  "entry_text = (\<lambda>(name, pad, num). name @ replicate (Suc pad) 32 @ num @ [32])"

definition dir_text :: "dir_entry list \<Rightarrow> byte list" where
  "dir_text es = concat (map entry_text es)"

definition valid_name :: "byte list \<Rightarrow> bool" where
  "valid_name name \<longleftrightarrow> name \<noteq> [] \<and> (\<forall>c\<in>set name. c \<noteq> 0 \<and> c \<noteq> 32) \<and> (\<exists>c\<in>set name. \<not> is_digit c)"

definition valid_entry :: "dir_entry \<Rightarrow> bool" where
  "valid_entry = (\<lambda>(name, pad, num). valid_name name \<and> num \<noteq> [] \<and> (\<forall>c\<in>set num. is_digit c) \<and> digits_val num < 2 ^ 31)"

text \<open>What a lookup means: the inode number of the first entry with the name, or -1.\<close>

fun dir_find :: "dir_entry list \<Rightarrow> byte list \<Rightarrow> int" where
  "dir_find [] name = - 1"
| "dir_find ((n, _, num) # es) name = (if n = name then digits_val num else dir_find es name)"

lemma find_name_space:
  assumes "valid_name name"
  shows "find_name name prev (32 # s) = find_name name True s"
proof (cases "length (32 # s) \<le> length name")
  case True
  then show ?thesis by (simp add: find_name_short)
next
  case False
  have "take (length name) (32 # s) \<noteq> name" using assms by (cases name) (auto simp: valid_name_def)
  with False show ?thesis by (subst find_name.simps) simp
qed

lemma find_name_inside:
  assumes "valid_name name" "32 \<notin> set w"
  shows "find_name name False (w @ 32 # s) = find_name name True s"
  using assms(2)
proof (induction w)
  case Nil
  then show ?case using find_name_space [OF assms(1)] by simp
next
  case (Cons c w)
  show ?case
  proof (cases "length (c # w @ 32 # s) \<le> length name")
    case True
    then show ?thesis by (simp add: find_name_short)
  next
    case False
    then show ?thesis using Cons by (subst append_Cons, subst find_name.simps) simp
  qed
qed

lemma find_name_word:
  assumes name: "valid_name name" and w: "32 \<notin> set w" "w \<noteq> name"
  shows "find_name name True (w @ 32 # s) = find_name name True s"
proof (cases w)
  case Nil
  then show ?thesis using find_name_space [OF name] by simp
next
  case (Cons c w')
  have ne: "\<not> (take (length name) (w @ 32 # s) = name \<and> (w @ 32 # s) ! length name = 32)"
  proof
    assume h: "take (length name) (w @ 32 # s) = name \<and> (w @ 32 # s) ! length name = 32"
    have "length name \<le> length w"
    proof (rule ccontr)
      assume "\<not> length name \<le> length w"
      then have "(32::byte) \<in> set (take (length name) (w @ 32 # s))" by (simp add: take_Cons')
      with h name show False by (auto simp: valid_name_def)
    qed
    moreover have "\<not> length name < length w"
    proof
      assume "length name < length w"
      then have "w ! length name = 32" using h by (simp add: nth_append)
      with \<open>length name < length w\<close> w(1) show False by (metis nth_mem)
    qed
    ultimately have "length name = length w" by simp
    with h w(2) show False by simp
  qed
  show ?thesis
  proof (cases "length (w @ 32 # s) \<le> length name")
    case True
    then show ?thesis by (simp add: find_name_short)
  next
    case False
    then have "find_name name True (w @ 32 # s) = find_name name (hd (w @ 32 # s) = 32) (tl (w @ 32 # s))"
      using ne by (subst find_name.simps) (auto simp del: take_append)
    then show ?thesis using w(1) Cons find_name_inside [OF name, of w' s] by simp
  qed
qed

lemma find_name_hit:
  assumes "valid_name name"
  shows "find_name name True (name @ 32 # s) = Some (32 # s)"
  by (subst find_name.simps) simp

lemma find_name_spaces:
  assumes "valid_name name"
  shows "find_name name True (replicate n 32 @ s) = find_name name True s"
  by (induction n) (simp_all add: find_name_space [OF assms])

lemma digit_not_space: "is_digit c \<Longrightarrow> c \<noteq> 32 \<and> c \<noteq> 0 \<and> \<not> is_space c"
  by (auto simp: is_digit_def is_space_def word_le_nat_alt)

lemma find_name_dir:
  assumes name: "valid_name name" and es: "\<forall>e\<in>set es. valid_entry e"
  shows "find_name name True (dir_text es) = None \<and> dir_find es name = - 1 \<or>
    (\<exists>pad num s. find_name name True (dir_text es) = Some (replicate (Suc pad) 32 @ num @ 32 # s) \<and>
       num \<noteq> [] \<and> (\<forall>c\<in>set num. is_digit c) \<and> digits_val num < 2 ^ 31 \<and> dir_find es name = digits_val num)"
  using es
proof (induction es)
  case Nil
  show ?case using name by (simp add: dir_text_def find_name_short)
next
  case (Cons e es)
  obtain n pad num where e: "e = (n, pad, num)" by (cases e)
  have v: "valid_name n" "num \<noteq> []" "\<forall>c\<in>set num. is_digit c" "digits_val num < 2 ^ 31"
    using Cons.prems by (simp_all add: e valid_entry_def)
  have str: "dir_text (e # es) = n @ 32 # replicate pad 32 @ num @ 32 # dir_text es"
    by (simp add: dir_text_def entry_text_def e replicate_app_Cons_same)
  show ?case
  proof (cases "n = name")
    case True
    then have "find_name name True (dir_text (e # es)) = Some (replicate (Suc pad) 32 @ num @ 32 # dir_text es)"
      using find_name_hit [OF name] by (simp add: str)
    then show ?thesis using v True by (auto simp: e)
  next
    case False
    have "num \<noteq> name" using name v(3) by (auto simp: valid_name_def)
    moreover have "32 \<notin> set num" "32 \<notin> set n" using v(1,3) digit_not_space by (auto simp: valid_name_def)
    ultimately have "find_name name True (dir_text (e # es)) = find_name name True (dir_text es)"
      using find_name_word [OF name] find_name_spaces [OF name] False by (simp add: str)
    then show ?thesis using Cons False by (simp add: e)
  qed
qed

lemma digits_val_nonneg: "\<forall>c\<in>set ds. is_digit c \<Longrightarrow> 0 \<le> digits_val ds"
proof (induction ds rule: rev_induct)
  case (snoc d ds)
  have "48 \<le> unat d" using snoc.prems by (simp add: is_digit_def word_le_nat_alt)
  then have "int 48 \<le> int (unat d)" by (simp only: of_nat_le_iff)
  then have "0 \<le> digit_val d" by (simp add: digit_val_def)
  then show ?case using snoc by (simp add: digits_val_def)
qed (simp add: digits_val_def)

lemma atoi_number:
  assumes "num \<noteq> []" "\<forall>c\<in>set num. is_digit c" "digits_val num < 2 ^ 31"
  shows "atoi (replicate n 32 @ num @ 32 # s) = Ret (digits_val num)"
proof -
  obtain c cs where num: "num = c # cs" using assms(1) by (cases num) auto
  have c: "\<not> is_space c" "c \<noteq> chr (CHR ''-'')" "c \<noteq> chr (CHR ''+'')"
    using assms(2) digit_not_space by (auto simp: num is_digit_def word_le_nat_alt chr_def of_char_def)
  have sp: "is_space 32" "\<not> is_digit 32" by (simp_all add: is_space_def is_digit_def)
  have drop: "dropWhile is_space (replicate n 32 @ num @ 32 # s) = num @ 32 # s"
    using c(1) sp(1) by (induction n) (simp_all add: num)
  have "takeWhile is_digit (num @ 32 # s) = num" "dropWhile is_digit (num @ 32 # s) = 32 # s"
    using assms(2) sp(2) by (simp_all add: takeWhile_append2 dropWhile_append2)
  moreover have "0 \<le> digits_val num" by (rule digits_val_nonneg [OF assms(2)])
  moreover have "hd (num @ 32 # s) = c" "num @ 32 # s \<noteq> []" by (simp_all add: num)
  ultimately show ?thesis unfolding atoi_def drop Let_def using c assms(3) by simp
qed

lemma dir_text_no_null: "\<forall>e\<in>set es. valid_entry e \<Longrightarrow> 0 \<notin> set (dir_text es)"
  using digit_not_space by (fastforce simp: dir_text_def entry_text_def valid_entry_def valid_name_def)

lemma cstr_app: "0 \<notin> set s \<Longrightarrow> cstr (s @ 0 # r) = s"
  unfolding cstr_def by (induction s) auto

lemma dir_do_lookup_text:
  assumes name: "valid_name name" and es: "\<forall>e\<in>set es. valid_entry e"
    and len: "length name \<le> length (dir_text es)" "length (dir_text es) < 2 ^ 32"
  shows "dir_do_lookup (dir_text es @ 0 # rest) (name @ 0 # junk) = Ret (dir_find es name)"
proof -
  let ?t = "dir_text es"
  have z: "0 \<notin> set name" "0 \<notin> set ?t" using name dir_text_no_null [OF es] by (auto simp: valid_name_def)
  have "length name < 2 ^ 32" using len by simp
  then have b: "unat (of_nat (length ?t) - of_nat (length name) :: u32) = length ?t - length name"
    using len by (simp add: unat_sub word_le_nat_alt unat_of_nat take_bit_nat_eq_self)
  have "dir_do_lookup (?t @ 0 # rest) (name @ 0 # junk) =
      dir_scan (name @ 0 # junk) (length name) (?t @ 0 # rest) (length ?t - length name) 0"
    using z b by (simp add: dir_do_lookup_def strlen_def cstr_app)
  also have "\<dots> = (case find_name name True ?t of None \<Rightarrow> Ret (- 1) | Some r \<Rightarrow> atoi (r @ 0 # rest))"
    using dir_scan_find [OF z refl refl, of 0] by simp
  also have "\<dots> = Ret (dir_find es name)"
    using find_name_dir [OF name es]
    by (auto simp: atoi_number simp del: replicate.simps)
  finally show ?thesis .
qed

end
