(* ===== verification/Servers_Correct.thy ===== *)
theory Servers_Correct
  imports Dir_Correct
begin

text \<open>
  Clients and servers together: a lookup that a client sends to the directory server, which asks the
  file server for the block of the directory.
\<close>

section \<open>Messages\<close>

lemma length_requests [simp]:
  "length (file_request t i off blk) = 12 + length blk" "length (file_reply st blk) = 4 + length blk"
  "length (dir_request t i name) = 8 + length name" "length (dir_reply st i) = 8"
  by (simp_all add: file_request_def file_reply_def dir_request_def dir_reply_def)

lemma file_request_fields:
  "field32 (file_request t i off blk @ pad) 0 = t" "field32 (file_request t i off blk @ pad) 4 = i"
  "field32 (file_request t i off blk @ pad) 8 = off"
  using field32_at [of "[]" 0] field32_at [of "word_bytes t" 4] field32_at [of "word_bytes t @ word_bytes i" 8]
  by (simp_all add: file_request_def)

lemma file_reply_fields:
  "field32 (file_reply st blk @ pad) 0 = st" "length blk = 512 \<Longrightarrow> take 512 (drop 4 (file_reply st blk @ pad)) = blk"
  using field32_at [of "[]" 0] by (simp_all add: file_reply_def)

lemma dir_request_fields:
  "field32 (dir_request t i name @ pad) 0 = t" "field32 (dir_request t i name @ pad) 4 = i"
  "drop 8 (dir_request t i name @ pad) = name @ pad"
  using field32_at [of "[]" 0] field32_at [of "word_bytes t" 4] by (simp_all add: dir_request_def)

lemma dir_request_name [simp]: "drop 8 (dir_request t i name) = name"
  by (simp add: dir_request_def)

lemma dir_reply_fields:
  "field32 (dir_reply st i @ pad) 0 = st" "field32 (dir_reply st i @ pad) 4 = i"
  using field32_at [of "[]" 0] field32_at [of "word_bytes st" 4] by (simp_all add: dir_reply_def)

lemma sys_send_short: "length m \<le> 1024 \<Longrightarrow> sys_send p m = Send p m Done"
  by (simp add: sys_send_def SYSCALL_MSG_LEN_def)

lemma sys_recv_all: "sys_recv SYSCALL_MSG_LEN = Recv (\<lambda>(s, m). Done (s, take 1024 m))"
  by (simp add: sys_recv_def SYSCALL_MSG_LEN_def)

section \<open>One lookup\<close>

text \<open>A step by rendezvous in which the bytes after the message are zeros.\<close>

lemma rendezvous_zero:
  assumes "P p = Send q m k" "P q = Recv f" "p \<noteq> q" "length m \<le> 1024"
  shows "sys_step (P, s) (P(p := k 0, q := f (p, m @ replicate (1024 - length m) 0)), s)"
  by (rule rendezvous [OF assms(1-3)]) (use assms(4) in \<open>simp add: SYSCALL_MSG_LEN_def\<close>)

lemma steps_trans: "sys_step a b \<Longrightarrow> sys_steps b c \<Longrightarrow> sys_steps a c"
  by (rule converse_rtranclp_into_rtranclp)

text \<open>The file server answers one read request of process \<open>c\<close>.\<close>

lemma file_read_steps:
  assumes c: "P c = ibind (file_read junk ino off) K" "c \<noteq> GPID_FILE"
    and f: "P GPID_FILE = ibind (sys_file_round fs) F"
    and rd: "\<And>buf. length buf = 512 \<Longrightarrow>
      owp (st_read fs (of_int ino) off buf d) (\<lambda>(r', b, d'). r' = r \<and> b = blk \<and> Q d')" "length blk = 512"
    and j: "length junk = 512"
  shows "\<exists>d'. Q d' \<and> sys_steps (P, d) (P(c := K (if r = 0 then 0 else - 1, blk), GPID_FILE := F ()), d')"
proof -
  define m where "m = file_request FILE_READ (of_int ino) off junk @ replicate 500 0"
  have "length (take 512 (drop 4 m)) = 512" using j by (simp add: m_def)
  from rd(1) [OF this] obtain d' where
    d': "st_read fs (of_int ino) off (take 512 (drop 4 m)) d = Ret (r, blk, d')" "Q d'" by (auto simp: owp_iff)
  define st where "st = (if r = 0 then FILE_OK else FILE_ERROR)"
  let ?reply = "file_reply st blk"
  have st: "st = FILE_OK \<longleftrightarrow> r = 0" by (simp add: st_def FILE_OK_def FILE_ERROR_def)
  let ?wait = "Recv (\<lambda>(s, m). ibind (if s \<noteq> GPID_FILE then Stop ''file_read: an error occurred''
     else Done (if field32 (take 1024 m) 0 = FILE_OK then 0 else - 1, take BLOCK_SIZE (drop 4 (take 1024 m)))) K)"
  have lm: "length m = 1024" "take 1024 m = m" using j by (simp_all add: m_def)
  have fm: "field32 m 0 = FILE_READ" "field32 m 4 = of_int ino" "field32 m 8 = off"
    unfolding m_def by (rule file_request_fields)+
  have pc: "P c = Send GPID_FILE (file_request FILE_READ (of_int ino) off junk) (\<lambda>_. ?wait)"
    unfolding c(1) file_read_def using j
    by (simp add: sys_send_short sys_recv_all case_prod_beta fun_eq_iff)
  let ?srv = "\<lambda>(s, m). ibind (if field32 (take 1024 m) 0 = FILE_READ then
       ibind (act (\<lambda>d. obind (st_read fs (field32 (take 1024 m) 4) (field32 (take 1024 m) 8)
           (take BLOCK_SIZE (drop 4 (take 1024 m))) d) (\<lambda>(r, blk, d). Ret ((r, blk), d)))) (\<lambda>(r, blk).
       ibind (sys_send s (file_reply (if r = 0 then FILE_OK else FILE_ERROR) blk)) (\<lambda>_. Done ()))
     else Stop ''sys_file: request not implemented'') F"
  have pf: "P GPID_FILE = Recv ?srv"
    unfolding f sys_file_round_def by (simp add: sys_recv_all case_prod_beta fun_eq_iff)
  have s1: "sys_step (P, d) (P(c := ?wait, GPID_FILE := ?srv (c, m)), d)"
    using rendezvous_zero [OF pc pf c(2)] j by (simp add: m_def)
  obtain g where g: "?srv (c, m) = Act g" "g d = (Send c ?reply (\<lambda>_. F ()), d')"
    using rd(2) d'(1) j lm fm by (simp add: act_def sys_send_short st_def)
  have s2: "sys_step (P(c := ?wait, GPID_FILE := ?srv (c, m)), d)
      (P(c := ?wait, GPID_FILE := Send c ?reply (\<lambda>_. F ())), d')"
    using action [of "P(c := ?wait, GPID_FILE := ?srv (c, m))" GPID_FILE g d, OF _ g(2)] g(1) by simp
  let ?m' = "?reply @ replicate (1024 - length ?reply) 0"
  have lm': "take 1024 ?m' = ?m'" using rd(2) by simp
  have s3: "sys_step (P(c := ?wait, GPID_FILE := Send c ?reply (\<lambda>_. F ())), d')
      (P(c := K (if r = 0 then 0 else - 1, blk), GPID_FILE := F ()), d')"
    using rendezvous_zero [of "P(c := ?wait, GPID_FILE := Send c ?reply (\<lambda>_. F ()))" GPID_FILE c ?reply "\<lambda>_. F ()" _ d']
      c(2) rd(2) file_reply_fields [where blk = blk]
    by (simp add: lm' fun_upd_twist st)
  show ?thesis using steps_trans [OF s1 steps_trans [OF s2 steps_trans [OF s3]]] d'(2) by blast
qed

text \<open>
  A client looks up a name: the directory server reads the first block of the directory from the
  file server and answers with what dir_do_lookup finds in it.
\<close>

lemma strcpy_name:
  assumes "0 \<notin> set nm" "length nm < length junk"
  shows "strcpy junk (nm @ 0 # r) = Ret (nm @ 0 # drop (Suc (length nm)) junk)"
  using assms by (simp add: strcpy_def cstr_app splice_at_def)

lemma dir_lookup_steps:
  assumes c: "P c = ibind (dir_lookup jn ino (nm @ 0 # r)) K" "c \<noteq> GPID_FILE" "c \<noteq> GPID_DIR"
    and dir: "P GPID_DIR = ibind (sys_dir_round jb) D"
    and f: "P GPID_FILE = ibind (sys_file_round fs) F"
    and nm: "0 \<notin> set nm" "length nm < 32" "length jn = 32" "length jb = 512"
    and rd: "\<And>buf. length buf = 512 \<Longrightarrow> owp (st_read fs (of_int (sint (of_int ino :: u32))) 0 buf d)
      (\<lambda>(r, b, d'). r = st \<and> b = blk \<and> Q d')" "length blk = 512"
    and ok: "\<And>junk. dir_do_lookup blk (nm @ 0 # junk) = Ret v" "- (2 ^ 31) \<le> v" "v < 2 ^ 31"
  shows "\<exists>d'. Q d' \<and> sys_steps (P, d) (P(c := K v, GPID_DIR := D (), GPID_FILE := F ()), d')"
proof -
  let ?name = "nm @ 0 # drop (Suc (length nm)) jn"
  have ln: "length ?name = 32" using nm(2,3) by simp
  let ?req = "dir_request DIR_LOOKUP (of_int ino) ?name"
  define m where "m = ?req @ replicate 984 0"
  have lm: "take 1024 m = m" using ln by (simp add: m_def)
  have fm: "field32 m 0 = DIR_LOOKUP" "field32 m 4 = of_int ino" "drop 8 m = nm @ 0 # drop (Suc (length nm)) jn @ replicate 984 0"
    unfolding m_def by (simp_all add: dir_request_fields)
  define ans where "ans = (\<lambda>m. if field32 (take 1024 m) 0 = DIR_OK then sint (field32 (take 1024 m) 4) else - 1)"
  define wt where "wt = (\<lambda>(s, m). ibind (if s \<noteq> GPID_DIR then Stop ''dir_lookup: an error occurred'' else Done (ans m)) K)"
  have pc: "P c = Send GPID_DIR ?req (\<lambda>_. Recv wt)"
    unfolding c(1) dir_lookup_def strcpy_name [OF nm(1) nm(2) [folded nm(3)]] using ln
    by (simp add: sys_send_short sys_recv_all case_prod_unfold fun_eq_iff wt_def ans_def)
  define fin where "fin = (\<lambda>s m (xb :: int \<times> block). ibind (ibind (pure (dir_do_lookup (snd xb) (drop 8 (take 1024 m)))) (\<lambda>ino.
       ibind (sys_send s (dir_reply (if ino = - 1 then DIR_ERROR else DIR_OK) (of_int ino))) (\<lambda>_. Done ()))) D)"
  define srv where "srv = (\<lambda>(s, m). if field32 (take 1024 m) 0 = DIR_LOOKUP
     then ibind (file_read jb (sint (field32 (take 1024 m) 4)) 0) (fin s m)
     else Stop ''sys_dir: request not implemented'')"
  have pd: "P GPID_DIR = Recv srv"
    unfolding dir sys_dir_round_def
    by (simp add: sys_recv_all ibind_assoc case_prod_unfold fun_eq_iff if_distrib srv_def fin_def)
  have lr: "length ?req = 40" using ln by simp
  have m: "?req @ replicate (1024 - length ?req) 0 = m" unfolding m_def lr by simp
  have s1: "sys_step (P, d) (P(c := Recv wt, GPID_DIR := srv (c, m)), d)"
    using rendezvous_zero [OF pc pd c(3), unfolded m] lr by (simp del: length_requests)
  have srv: "srv (c, m) = ibind (file_read jb (sint (of_int ino :: u32)) 0) (fin c m)"
    using fm(1,2) lm by (simp add: srv_def)
  have ne: "GPID_DIR \<noteq> GPID_FILE" by (simp add: layout_defs)
  let ?P1 = "P(c := Recv wt, GPID_DIR := srv (c, m))"
  have "\<exists>d'. Q d' \<and> sys_steps (?P1, d) (?P1(GPID_DIR := fin c m (if st = 0 then 0 else - 1, blk), GPID_FILE := F ()), d')"
    by (rule file_read_steps [OF _ ne _ rd nm(4), where K = "fin c m"]) (use srv f c(2) ne in simp_all)
  then obtain d' where d': "Q d'"
    and s2: "sys_steps (?P1, d) (?P1(GPID_DIR := fin c m (if st = 0 then 0 else - 1, blk), GPID_FILE := F ()), d')" by blast
  let ?st = "if v = - 1 then DIR_ERROR else DIR_OK"
  let ?reply = "dir_reply ?st (of_int v)"
  have fin: "fin c m (x, blk) = Send c ?reply (\<lambda>_. D ())" for x
    using ok(1) lm fm(3) by (simp add: sys_send_short fin_def)
  let ?P2 = "P(c := Recv wt, GPID_DIR := Send c ?reply (\<lambda>_. D ()), GPID_FILE := F ())"
  have e2: "?P1(GPID_DIR := fin c m (if st = 0 then 0 else - 1, blk), GPID_FILE := F ()) = ?P2"
    by (simp add: fin fun_eq_iff)
  have v: "sint (of_int v :: u32) = v"
    using ok(2,3) by (simp add: sint_sbintrunc' signed_take_bit_int_eq_self_iff)
  have a: "wt (GPID_DIR, ?reply @ replicate 1016 0) = K v"
    using dir_reply_fields [of ?st "of_int v"] v by (auto simp: wt_def ans_def DIR_OK_def DIR_ERROR_def)
  have s3: "sys_step (?P2, d') (P(c := K v, GPID_DIR := D (), GPID_FILE := F ()), d')"
    using rendezvous_zero [of ?P2 GPID_DIR c ?reply "\<lambda>_. D ()" wt d'] c(2,3) ne a
    by (simp add: fun_upd_twist)
  have "sys_steps (?P2, d') (P(c := K v, GPID_DIR := D (), GPID_FILE := F ()), d')"
    by (rule steps_trans [OF s3]) simp
  from steps_trans [OF s1 rtranclp_trans [OF s2 [unfolded e2] this]] d' show ?thesis by blast
qed

end
