(* ===== verification/Server_Calls.thy ===== *)
theory Server_Calls
  imports Io_Run Servers_Correct
begin

text \<open>
  The calls of library/servers/servers.c from the side of a client: what dir_lookup and file_read return when the
  server answers.
\<close>

text \<open>The request that dir_lookup sends for a name.\<close>

definition lookup_request :: "byte list \<Rightarrow> int \<Rightarrow> byte list \<Rightarrow> byte list" where
  "lookup_request jn ino nm = dir_request DIR_LOOKUP (of_int ino) (nm @ 0 # drop (Suc (length nm)) jn)"

lemma dir_lookup_reply:
  assumes s: "srv GPID_DIR (lookup_request jn ino nm) s = Ret (Some (GPID_DIR, dir_reply (if v = - 1 then DIR_ERROR else DIR_OK) (of_int v) @ pad), s')"
    and nm: "0 \<notin> set nm" "length nm < 32" "length jn = 32" and v: "- 1 \<le> v" "v < 2 ^ 31"
  shows "run srv (dir_lookup jn ino (nm @ 0 # rest)) (None, s) = Ret (v, (None, s'))"
proof -
  let ?st = "if v = - 1 then DIR_ERROR else DIR_OK"
  have sv: "sint (of_int v :: u32) = v" using v by (simp add: sint_sbintrunc' signed_take_bit_int_eq_self_iff)
  have l: "length (lookup_request jn ino nm) \<le> 1024" using nm by (simp add: lookup_request_def)
  have c: "strcpy jn (nm @ 0 # rest) = Ret (nm @ 0 # drop (Suc (length nm)) jn)" using nm by (simp add: strcpy_name)
  show ?thesis
    unfolding dir_lookup_def sys_recv_all c
    using dir_reply_fields [of ?st "of_int v" "take 1016 pad"] sv
    by (simp add: run_ibind lookup_request_def [symmetric] sys_send_short [OF l] s DIR_OK_def DIR_ERROR_def split: if_splits)
qed

lemma file_read_reply:
  assumes s: "srv GPID_FILE (file_request FILE_READ (of_int ino) off jb) s = Ret (Some (GPID_FILE, file_reply FILE_OK blk @ pad), s')"
    and l: "length jb = 512" "length blk = 512" "length (file_reply FILE_OK blk @ pad) = 1024"
  shows "run srv (file_read jb ino off) (None, s) = Ret ((0, blk), (None, s'))"
proof -
  have t: "take 1024 (file_reply FILE_OK blk @ pad) = file_reply FILE_OK blk @ pad" using l(3) by simp
  show ?thesis
    using l file_reply_fields(1) [of FILE_OK blk pad] file_reply_fields(2) [OF l(2), of FILE_OK pad]
    unfolding file_read_def sys_recv_all by (simp add: run_ibind sys_send_short s t BLOCK_SIZE_def)
qed

end
