(* ===== verification/Sd_Correct.thy ===== *)
theory Sd_Correct
  imports Sd_Driver
begin

text \<open>
  The SD driver reads and writes the blocks of a card that follows the SPI protocol of SD cards, and
  with it the disk is a store of blocks.
\<close>

section \<open>Device code\<close>

lemma dret_app [simp]: "dret x c = Some (Ret (x, c))"
  by (simp add: dret_def)

section \<open>The protocol\<close>

text \<open>
  The controller exchanges a byte with the card: \<open>xf b c\<close> is the byte that comes back and the state
  after it.
\<close>

definition spi_xfer :: "'c spi \<Rightarrow> (byte \<Rightarrow> 'c \<Rightarrow> byte \<times> 'c) \<Rightarrow> bool" where
  "spi_xfer s xf \<longleftrightarrow> (\<forall>b c. send_data_byte s b c = Some (Ret (xf b c)))"

text \<open>The bytes that the card sends while the host sends 0xFF, and the state after the host sent bytes.\<close>

primrec receives :: "(byte \<Rightarrow> 'c \<Rightarrow> byte \<times> 'c) \<Rightarrow> 'c \<Rightarrow> byte list \<Rightarrow> 'c \<Rightarrow> bool" where
  "receives xf c [] c' = (c = c')"
| "receives xf c (b # bs) c' = (fst (xf 0xFF c) = b \<and> receives xf (snd (xf 0xFF c)) bs c')"

definition sends :: "(byte \<Rightarrow> 'c \<Rightarrow> byte \<times> 'c) \<Rightarrow> 'c \<Rightarrow> byte list \<Rightarrow> 'c" where
  "sends xf c bs = foldl (\<lambda>c b. snd (xf b c)) c bs"

lemma receives_append: "receives xf c (as @ bs) c' \<longleftrightarrow> (\<exists>c1. receives xf c as c1 \<and> receives xf c1 bs c')"
  by (induction as arbitrary: c) auto

text \<open>
  What the driver relies on: a card that is not in a transfer stops being busy; it answers a read
  command with status 0, a start token and the block, and a write command with status 0 and, after
  the data, with the acknowledgement that the block was accepted.
\<close>

definition sd_card :: "(byte \<Rightarrow> 'c \<Rightarrow> byte \<times> 'c) \<Rightarrow> ('c \<Rightarrow> bool) \<Rightarrow> ('c \<Rightarrow> bool) \<Rightarrow> ('c \<Rightarrow> u32 \<Rightarrow> byte list) \<Rightarrow>
    nat \<Rightarrow> sd_type \<Rightarrow> bool" where
  "sd_card xf idle ready content N type \<longleftrightarrow>
     (\<forall>c. idle c \<longrightarrow> (\<exists>bs c'. 0xFF \<notin> set bs \<and> receives xf c (bs @ [0xFF]) c' \<and> ready c' \<and> content c' = content c)) \<and>
     (\<forall>c a. ready c \<longrightarrow> unat a < N \<longrightarrow> length (content c a) = 512 \<and>
        (\<exists>n m x y c'. n < 8000 \<and>
          receives xf (sends xf c (cmd_arg 0x51 (sd_address type a)))
            (replicate n 0xFF @ 0 # replicate m 0xFF @ 0xFE # content c a @ [x, y]) c' \<and>
          idle c' \<and> content c' = content c)) \<and>
     (\<forall>c a blk. ready c \<longrightarrow> unat a < N \<longrightarrow> length blk = 512 \<longrightarrow>
        (\<exists>n m r c1 c'. n < 8000 \<and>
          receives xf (sends xf c (cmd_arg 0x58 (sd_address type a))) (replicate n 0xFF @ [0]) c1 \<and>
          receives xf (sends xf c1 (0xFE # blk @ [0xFF, 0xFF])) (replicate m 0xFF @ [r]) c' \<and>
          r \<noteq> 0xFF \<and> r AND 0x1F = 5 \<and> idle c' \<and> content c' = (content c)(a := blk)))"

section \<open>The driver\<close>

lemma unat_Suc_nz:
  assumes "(x :: u32) + 1 \<noteq> 0"
  shows "unat (x + 1) = Suc (unat x)"
proof -
  have "unat x + 1 \<noteq> 2 ^ 32"
  proof
    assume "unat x + 1 = 2 ^ 32"
    then have "unat (x + 1) = 0" by (simp add: unat_word_ariths)
    with assms show False by (simp add: unat_eq_0)
  qed
  then have "unat x + 1 < 2 ^ 32" using unat_u32_bound [of x] by simp
  then show ?thesis by (simp add: unat_word_ariths)
qed

lemma recv_xfer: "spi_xfer s xf \<Longrightarrow> recv_data_byte s c = Some (Ret (xf 0xFF c))"
  by (simp add: recv_data_byte_def spi_xfer_def)

lemma poll_receives:
  assumes "spi_xfer s xf" "receives xf c (bs @ [b]) c'" "\<forall>x\<in>set bs. \<not> P x" "P b"
  shows "poll (recv_data_byte s) P c = Some (Ret (b, c'))"
  using assms(2,3)
proof (induction bs arbitrary: c)
  case Nil
  then have "xf 0xFF c = (b, c')" by (auto intro: prod_eqI)
  then have "recv_data_byte s c = Some (Ret (b, c'))" using recv_xfer [OF assms(1), of c] by simp
  then show ?case using assms(4) by (subst poll.simps) simp
next
  case (Cons x bs)
  obtain c1 where c1: "xf 0xFF c = (x, c1)" "receives xf c1 (bs @ [b]) c'"
    using Cons.prems(1) by (cases "xf 0xFF c") auto
  have "poll (recv_data_byte s) P c1 = Some (Ret (b, c'))" using Cons.IH [OF c1(2)] Cons.prems(2) by simp
  moreover have "recv_data_byte s c = Some (Ret (x, c1))" using recv_xfer [OF assms(1), of c] c1(1) by simp
  ultimately show ?case using Cons.prems(2) by (subst poll.simps) simp
qed

lemma drepeat_receives:
  assumes "spi_xfer s xf" "receives xf c bs c'"
  shows "drepeat (length bs) (recv_data_byte s) c = Some (Ret (bs, c'))"
  using assms(2)
proof (induction bs arbitrary: c)
  case (Cons x bs)
  obtain c1 where c1: "xf 0xFF c = (x, c1)" "receives xf c1 bs c'"
    using Cons.prems(1) by (cases "xf 0xFF c") auto
  then show ?case using Cons.IH [OF c1(2)] by (simp add: dbind_def recv_xfer [OF assms(1)])
qed simp

lemma dmap_sends:
  assumes "spi_xfer s xf"
  shows "\<exists>rs. dmap (send_data_byte s) bs c = Some (Ret (rs, sends xf c bs))"
proof (induction bs arbitrary: c)
  case (Cons b bs)
  obtain r c1 where x: "xf b c = (r, c1)" by (cases "xf b c")
  obtain rs where rs: "dmap (send_data_byte s) bs c1 = Some (Ret (rs, sends xf c1 bs))" using Cons by blast
  have "send_data_byte s b c = Some (Ret (r, c1))" using assms x by (simp add: spi_xfer_def)
  then show ?case using rs x by (simp add: dbind_def sends_def)
qed (simp add: sends_def)

lemma cmd_reply_receives:
  assumes "spi_xfer s xf" "receives xf c (replicate n 0xFF @ [b]) c'" "b \<noteq> 0xFF" "n < k"
  shows "cmd_reply s k c = Some (Ret (b, c'))"
  using assms(2,4)
proof (induction n arbitrary: c k)
  case 0
  then have "xf 0xFF c = (b, c')" by (auto intro: prod_eqI)
  with 0 assms(3) show ?case by (cases k) (simp_all add: dbind_def recv_xfer [OF assms(1)])
next
  case (Suc n)
  obtain c1 where c1: "xf 0xFF c = (0xFF, c1)" "receives xf c1 (replicate n 0xFF @ [b]) c'"
    using Suc.prems(1) by (cases "xf 0xFF c") auto
  obtain k' where "k = Suc k'" "n < k'" using Suc.prems(2) by (cases k) auto
  then show ?case using Suc.IH [OF c1(2)] c1(1) by (simp add: dbind_def recv_xfer [OF assms(1)])
qed

lemma sd_exec_cmd_receives:
  assumes "spi_xfer s xf" "receives xf (sends xf c cmd) (replicate n 0xFF @ [b]) c'" "b \<noteq> 0xFF" "n < 8000"
  shows "sd_exec_cmd s cmd c = Some (Ret (b, c'))"
proof -
  obtain rs where "dmap (send_data_byte s) cmd c = Some (Ret (rs, sends xf c cmd))" using dmap_sends [OF assms(1)] by blast
  then show ?thesis unfolding sd_exec_cmd_def using cmd_reply_receives [OF assms] by (simp add: dbind_def)
qed

lemma wait_ready_ok:
  assumes "spi_xfer s xf" "sd_card xf idle ready content N type" "idle c"
  obtains b c' where "wait_ready s c = Some (Ret (b, c'))" "ready c'" "content c' = content c"
proof -
  from assms(2,3) obtain bs c' where c': "0xFF \<notin> set bs" "receives xf c (bs @ [0xFF]) c'" "ready c'" "content c' = content c"
    by (auto simp: sd_card_def)
  have "wait_ready s c = Some (Ret (0xFF, c'))"
    unfolding wait_ready_def by (rule poll_receives [OF assms(1) c'(2)]) (use c'(1) in auto)
  with that c'(3,4) show ?thesis by blast
qed

lemma single_read_ok:
  assumes x: "spi_xfer s xf" and card: "sd_card xf idle ready content N type" and c: "idle c" "unat a < N"
  shows "\<exists>c'. single_read s type a c = Some (Ret (content c a, c')) \<and> idle c' \<and> content c' = content c"
proof -
  obtain b0 c0 where c0: "wait_ready s c = Some (Ret (b0, c0))" "ready c0" "content c0 = content c"
    by (rule wait_ready_ok [OF x card c(1)])
  from card c0(2) c(2) obtain n m y z c' where r: "n < 8000" "length (content c0 a) = 512" "idle c'" "content c' = content c0"
    "receives xf (sends xf c0 (cmd_arg 0x51 (sd_address type a)))
       (replicate n 0xFF @ 0 # replicate m 0xFF @ 0xFE # content c0 a @ [y, z]) c'"
    unfolding sd_card_def by blast
  have "receives xf (sends xf c0 (cmd_arg 0x51 (sd_address type a)))
      ((replicate n 0xFF @ [0]) @ (replicate m 0xFF @ [0xFE]) @ content c0 a @ [y] @ [z]) c'" using r(5) by simp
  from iffD1 [OF receives_append, OF this] obtain c1 where
    c1: "receives xf (sends xf c0 (cmd_arg 0x51 (sd_address type a))) (replicate n 0xFF @ [0]) c1"
    "receives xf c1 ((replicate m 0xFF @ [0xFE]) @ content c0 a @ [y] @ [z]) c'" by blast
  from iffD1 [OF receives_append, OF c1(2)] obtain c2 where
    c2: "receives xf c1 (replicate m 0xFF @ [0xFE]) c2" "receives xf c2 (content c0 a @ [y] @ [z]) c'" by blast
  from iffD1 [OF receives_append, OF c2(2)] obtain c3 where
    c3: "receives xf c2 (content c0 a) c3" "receives xf c3 ([y] @ [z]) c'" by blast
  from iffD1 [OF receives_append, OF c3(2)] obtain c4 where c4: "receives xf c3 [y] c4" "receives xf c4 [z] c'" by blast
  from c1(1) have cmd: "sd_exec_cmd s (cmd_arg 0x51 (sd_address type a)) c0 = Some (Ret (0, c1))"
    using sd_exec_cmd_receives [OF x _ _ r(1)] by simp
  have p: "poll (recv_data_byte s) (\<lambda>b. b = 0xFE) c1 = Some (Ret (0xFE, c2))"
    by (rule poll_receives [OF x c2(1)]) auto
  have d: "drepeat BLOCK_SIZE (recv_data_byte s) c2 = Some (Ret (content c0 a, c3))"
    using drepeat_receives [OF x c3(1)] r(2) by simp
  have e: "recv_data_byte s c3 = Some (Ret (y, c4))" "recv_data_byte s c4 = Some (Ret (z, c'))"
    using c4 by (simp_all add: recv_xfer [OF x] prod_eq_iff)
  have "single_read s type a c = Some (Ret (content c0 a, c'))"
    unfolding single_read_def
    using c0(1) cmd p d e by (simp add: dbind_def)
  then show ?thesis using c0(3) r(3,4) by auto
qed

lemma single_write_ok:
  assumes x: "spi_xfer s xf" and card: "sd_card xf idle ready content N type" and c: "idle c" "unat a < N" "length blk = 512"
  shows "\<exists>c'. single_write s type a blk c = Some (Ret ((), c')) \<and> idle c' \<and> content c' = (content c)(a := blk)"
proof -
  obtain b0 c0 where c0: "wait_ready s c = Some (Ret (b0, c0))" "ready c0" "content c0 = content c"
    by (rule wait_ready_ok [OF x card c(1)])
  from card c0(2) c(2,3) obtain n m r c1 c' where w: "n < 8000"
    "receives xf (sends xf c0 (cmd_arg 0x58 (sd_address type a))) (replicate n 0xFF @ [0]) c1"
    "receives xf (sends xf c1 (0xFE # blk @ [0xFF, 0xFF])) (replicate m 0xFF @ [r]) c'"
    "r \<noteq> 0xFF" "r AND 0x1F = 5" "idle c'" "content c' = (content c0)(a := blk)"
    unfolding sd_card_def by blast
  have cmd: "sd_exec_cmd s (cmd_arg 0x58 (sd_address type a)) c0 = Some (Ret (0, c1))"
    using sd_exec_cmd_receives [OF x w(2) _ w(1)] by simp
  define c2 where "c2 = snd (xf 0xFE c1)"
  define c3 where "c3 = sends xf c2 blk"
  define c4 where "c4 = snd (xf 0xFF c3)"
  have s: "send_data_byte s 0xFE c1 = Some (Ret (fst (xf 0xFE c1), c2))"
    "send_data_byte s 0xFF c3 = Some (Ret (fst (xf 0xFF c3), c4))"
    "send_data_byte s 0xFF c4 = Some (Ret (fst (xf 0xFF c4), snd (xf 0xFF c4)))"
    using x by (simp_all add: spi_xfer_def c2_def c4_def)
  obtain rs where d: "dmap (send_data_byte s) (take BLOCK_SIZE blk) c2 = Some (Ret (rs, c3))"
    using dmap_sends [OF x, of blk c2] c(3) by (auto simp: c3_def)
  have "sends xf c1 (0xFE # blk @ [0xFF, 0xFF]) = snd (xf 0xFF c4)"
    by (simp add: sends_def c2_def c3_def c4_def)
  then have p: "poll (recv_data_byte s) (\<lambda>b. b \<noteq> 0xFF) (snd (xf 0xFF c4)) = Some (Ret (r, c'))"
    using poll_receives [OF x w(3)] w(4) by simp
  have "single_write s type a blk c = Some (Ret ((), c'))"
    unfolding single_write_def
    using c0(1) cmd s d p w(5) by (simp add: dbind_def case_prod_beta)
  then show ?thesis using c0(3) w(6,7) by auto
qed

lemma sdread_ok:
  assumes x: "spi_xfer s xf" and card: "sd_card xf idle ready content N type"
    and c: "idle c" "unat a + n \<le> N" "N \<le> 2 ^ 32"
  shows "\<exists>c'. sdread s type a n c = Some (Ret (concat (map (\<lambda>i. content c (a + of_nat i)) [0..<n]), c')) \<and>
    idle c' \<and> content c' = content c"
  using c(1,2)
proof (induction n arbitrary: a c)
  case (Suc n)
  obtain c1 where c1: "single_read s type a c = Some (Ret (content c a, c1))" "idle c1" "content c1 = content c"
    using single_read_ok [OF x card Suc.prems(1), of a] Suc.prems(2) by auto
  have "n = 0 \<or> unat (a + 1) + n \<le> N"
    using Suc.prems(2) c(3) by (auto simp: unat_word_ariths)
  then obtain c' where c': "sdread s type (a + 1) n c1 =
      Some (Ret (concat (map (\<lambda>i. content c1 (a + 1 + of_nat i)) [0..<n]), c'))" "idle c'" "content c' = content c1"
    using Suc.IH [OF c1(2)] c1(2) by (cases "n = 0") auto
  have e: "concat (map (\<lambda>i. content c (a + of_nat i)) [0..<Suc n]) =
      content c a @ concat (map (\<lambda>i. content c (a + 1 + of_nat i)) [0..<n])"
    by (simp add: upt_conv_Cons map_Suc_upt [symmetric] comp_def ac_simps del: upt_Suc)
  show ?case unfolding e sdread.simps
    using c1(1) c'(1) by (intro exI [of _ c']) (simp add: dbind_def c1(3) c'(2,3))
qed simp

lemma sdwrite_ok:
  assumes x: "spi_xfer s xf" and card: "sd_card xf idle ready content N type"
    and c: "idle c" "unat a + n \<le> N" "N \<le> 2 ^ 32" "length src = 512 * n"
  shows "\<exists>c'. sdwrite s type a n src c = Some (Ret ((), c')) \<and> idle c' \<and>
    content c' = (\<lambda>b. if unat (b - a) < n then take 512 (drop (512 * unat (b - a)) src) else content c b)"
  using c(1,2,4)
proof (induction n arbitrary: a c src)
  case (Suc n)
  have l: "length (take 512 src) = 512" using Suc.prems(3) by simp
  obtain c1 where c1: "single_write s type a (take 512 src) c = Some (Ret ((), c1))" "idle c1"
    "content c1 = (content c)(a := take 512 src)"
    using single_write_ok [OF x card Suc.prems(1) _ l, of a] Suc.prems(2) by auto
  have "n = 0 \<or> unat (a + 1) + n \<le> N"
    using Suc.prems(2) c(3) by (auto simp: unat_word_ariths)
  then obtain c' where c': "sdwrite s type (a + 1) n (drop 512 src) c1 = Some (Ret ((), c'))" "idle c'"
    "content c' = (\<lambda>b. if unat (b - (a + 1)) < n then take 512 (drop (512 * unat (b - (a + 1))) (drop 512 src)) else content c1 b)"
    using Suc.IH [OF c1(2), of "a + 1" "drop 512 src"] c1(2) Suc.prems(3) by (cases "n = 0") auto
  have n32: "n < 2 ^ 32" using Suc.prems(2) c(3) by simp
  have "content c' b = (if unat (b - a) < Suc n then take 512 (drop (512 * unat (b - a)) src) else content c b)" for b
  proof (cases "b = a")
    case True
    have "(- 1 :: u32) = 0xFFFFFFFF" by simp
    then have "unat (- 1 :: u32) = 0xFFFFFFFF" by (simp only: unat_numeral) simp
    then show ?thesis using True n32 by (simp add: c'(3) c1(3))
  next
    case False
    define x where "x = b - (a + 1)"
    have x: "b - a = x + 1" by (simp add: x_def)
    have "x + 1 \<noteq> 0" using False x by (metis eq_iff_diff_eq_0)
    then have "unat (b - a) = Suc (unat (b - (a + 1)))"
      unfolding x x_def [symmetric] by (rule unat_Suc_nz)
    then show ?thesis using False by (simp add: c'(3) c1(3) add.commute)
  qed
  then have e: "content c' = (\<lambda>b. if unat (b - a) < Suc n then take 512 (drop (512 * unat (b - a)) src) else content c b)"
    by blast
  show ?case unfolding sdwrite.simps
    using c1(1) c'(1) by (intro exI [of _ c']) (simp add: dbind_def c'(2) e)
qed simp

end
