(* ===== verification/Treedisk_Correct.thy ===== *)
theory Treedisk_Correct
  imports Treedisk
begin

text \<open>
  Correctness of the tree file system. The state of a disk is read through its contents, a
  function from block numbers to blocks; on it this theory defines the blocks and the data of
  a tree, the free list, and the well-formedness of a file system: every data block is either
  on the free list or in exactly one place of exactly one file. The file system refines a map
  from inode numbers to files.
\<close>

type_synonym contents = "block_no \<Rightarrow> block"

section \<open>Trees and the free list on the disk\<close>

definition ref_slots :: "nat set" where
  "ref_slots = {..<REFS_PER_BLOCK}"

lemma finite_ref_slots [simp]: "finite ref_slots"
  by (simp add: ref_slots_def)

lemma in_ref_slots [simp]: "i \<in> ref_slots \<longleftrightarrow> i < 128"
  by (simp add: ref_slots_def)

lemma in_sum_mset_iff: "finite I \<Longrightarrow> x \<in># (\<Sum>i\<in>I. f i) \<longleftrightarrow> (\<exists>i\<in>I. x \<in># f i)"
  by (induction I rule: finite_induct) auto

primrec tree_blocks :: "contents \<Rightarrow> nat \<Rightarrow> block_no \<Rightarrow> block_no multiset" where
  "tree_blocks c 0 b = (if b = 0 then {#} else {#b#})"
| "tree_blocks c (Suc n) b =
     (if b = 0 then {#} else add_mset b (\<Sum>i\<in>ref_slots. tree_blocks c n (get_ref (c b) i)))"

primrec tree_lookup :: "contents \<Rightarrow> nat \<Rightarrow> block_no \<Rightarrow> nat \<Rightarrow> block" where
  "tree_lookup c 0 b off = (if b = 0 then null_block else c b)"
| "tree_lookup c (Suc n) b off =
     (if b = 0 then null_block
      else tree_lookup c n (get_ref (c b) (off div 128 ^ n mod 128)) off)"

definition free_refs :: "block \<Rightarrow> block_no multiset" where
  "free_refs blk = mset (filter (\<lambda>r. r \<noteq> 0) (map (get_ref blk) [1..<128]))"

inductive free_chain :: "contents \<Rightarrow> block_no \<Rightarrow> block_no multiset \<Rightarrow> bool" for c where
  chain_end: "free_chain c 0 {#}"
| chain_block: "b \<noteq> 0 \<Longrightarrow> free_chain c (get_ref (c b) 0) F \<Longrightarrow>
     free_chain c b (add_mset b (free_refs (c b) + F))"

inductive_cases free_chain_0E: "free_chain c 0 F"
inductive_cases free_chain_blockE: "free_chain c b F"

lemma tree_blocks_0 [simp]: "tree_blocks c n 0 = {#}"
  by (cases n) auto

lemma tree_lookup_0 [simp]: "tree_lookup c n 0 off = null_block"
  by (cases n) auto

lemma zero_not_in_tree: "0 \<notin># tree_blocks c n b"
  by (induction n arbitrary: b) (auto simp: in_sum_mset_iff)

lemma tree_child_blocks:
  assumes "b \<noteq> 0" "i < 128"
  shows "tree_blocks c n (get_ref (c b) i) \<subseteq># tree_blocks c (Suc n) b"
proof -
  have "tree_blocks c n (get_ref (c b) i) \<subseteq># (\<Sum>i\<in>ref_slots. tree_blocks c n (get_ref (c b) i))"
    using assms(2) by (subst sum.remove [of _ i]) auto
  then show ?thesis using assms(1)
    by (simp add: subseteq_mset_def le_SucI)
qed

lemma tree_cong:
  assumes "\<And>x. x \<in># tree_blocks c n b \<Longrightarrow> c' x = c x"
  shows "tree_blocks c' n b = tree_blocks c n b"
    and "tree_lookup c' n b off = tree_lookup c n b off"
  using assms
proof (induction n arbitrary: b)
  case (Suc n)
  {
    case 1
    show ?case
    proof (cases "b = 0")
      case False
      with 1 have "c' b = c b" by simp
      moreover have "tree_blocks c' n (get_ref (c b) i) = tree_blocks c n (get_ref (c b) i)"
        if "i < 128" for i
        using 1 Suc.IH(1) mset_subset_eqD [OF tree_child_blocks [OF False that]] by blast
      ultimately show ?thesis using False by simp
    qed simp
  next
    case 2
    show ?case
    proof (cases "b = 0")
      case False
      with 2 have "c' b = c b" by simp
      moreover have "tree_lookup c' n (get_ref (c b) i) off = tree_lookup c n (get_ref (c b) i) off"
        if "i < 128" for i
        using 2 Suc.IH(2) mset_subset_eqD [OF tree_child_blocks [OF False that]] by blast
      ultimately show ?thesis using False by simp
    qed simp
  }
qed auto

lemma free_chain_cong:
  assumes "free_chain c b F" "\<And>x. x \<in># F \<Longrightarrow> c' x = c x"
  shows "free_chain c' b F"
  using assms
proof (induction rule: free_chain.induct)
  case chain_end
  show ?case by (rule free_chain.chain_end)
next
  case (chain_block b F)
  then have "c' b = c b" by simp
  moreover have "free_chain c' (get_ref (c b) 0) F" using chain_block by simp
  ultimately show ?case using chain_block.hyps free_chain.chain_block [of b c' F] by simp
qed

lemma zero_not_in_chain: "free_chain c b F \<Longrightarrow> 0 \<notin># F"
  by (induction rule: free_chain.induct) (auto simp: free_refs_def)

lemma free_chain_empty: "free_chain c b F \<Longrightarrow> F = {#} \<longleftrightarrow> b = 0"
  by (auto elim: free_chain.cases)

section \<open>Levels and indices\<close>

lemma ref_index_eq: "ref_index off n = unat off div 128 ^ n mod 128"
proof -
  have "(2::nat) ^ (n * 7) = 128 ^ n"
    by (simp add: power_mult mult.commute [of n])
  then show ?thesis by (simp add: ref_index_def unat_log_shift_r)
qed

lemma count_levels_spec:
  "m \<le> count_levels x m \<and> unat x < 128 ^ count_levels x m \<and>
   (\<forall>j. m \<le> j \<and> j < count_levels x m \<longrightarrow> 128 ^ j \<le> unat x)"
proof (induction x m rule: count_levels.induct)
  case (1 x m)
  have p: "(2::nat) ^ (m * 7) = 128 ^ m"
    by (simp add: power_mult mult.commute [of m])
  have z: "log_shift_r x (m * log_rpb) = 0 \<longleftrightarrow> unat x < 128 ^ m"
    using unat_log_shift_r [of x "m * log_rpb"] p
    by (simp add: unat_eq_zero [symmetric] div_eq_0_iff)
  show ?case
  proof (cases "unat x < 128 ^ m")
    case True
    with z show ?thesis by (subst (1 2 3) count_levels.simps) simp
  next
    case False
    with z have eq: "count_levels x m = count_levels x (m + 1)"
      by (subst count_levels.simps) simp
    show ?thesis
      using 1 z False unfolding eq by (auto simp: not_less le_eq_less_or_eq [of m])
  qed
qed

lemma count_levels_le5: "count_levels x 0 \<le> 5"
proof (rule ccontr)
  assume "\<not> ?thesis"
  then have "5 < count_levels x 0" by simp
  with count_levels_spec [of 0 x] have "128 ^ 5 \<le> unat x" by blast
  moreover have "unat x < 2 ^ 32" by (rule unat_u32_bound)
  ultimately show False by simp
qed

lemma count_levels_mono:
  assumes "unat x \<le> unat y"
  shows "count_levels x 0 \<le> count_levels y 0"
proof (rule ccontr)
  assume "\<not> ?thesis"
  then have "128 ^ count_levels y 0 \<le> unat x" using count_levels_spec [of 0 x] by auto
  moreover have "unat y < 128 ^ count_levels y 0" using count_levels_spec [of 0 y] by simp
  ultimately show False using assms by simp
qed

section \<open>Allocation\<close>

lemma scan_refs_le: "scan_refs blk n \<le> n"
  by (induction n) auto

lemma scan_refs_zero: "scan_refs blk n = 0 \<Longrightarrow> 0 < j \<Longrightarrow> j \<le> n \<Longrightarrow> get_ref blk j = 0"
  by (induction n) (auto simp: le_Suc_eq split: if_splits)

lemma scan_refs_nonzero: "scan_refs blk n = Suc i \<Longrightarrow> get_ref blk (Suc i) \<noteq> 0"
  by (induction n) (auto split: if_splits)

lemma free_refs_none: "scan_refs blk 127 = 0 \<Longrightarrow> free_refs blk = {#}"
  unfolding free_refs_def
  by (auto simp: filter_empty_conv intro!: scan_refs_zero [of blk 127])

lemma free_refs_take:
  assumes "length blk = 512" "0 < i" "i < 128" "get_ref blk i \<noteq> 0"
  shows "free_refs blk = add_mset (get_ref blk i) (free_refs (set_ref blk i 0))"
proof -
  have split: "[1..<128] = [1..<i] @ i # [Suc i..<128]"
    using assms upt_add_eq_append [of 1 i "128 - i"] upt_conv_Cons [of i 128] by simp
  have "map (get_ref (set_ref blk i 0)) [1..<i] = map (get_ref blk) [1..<i]"
    and "map (get_ref (set_ref blk i 0)) [Suc i..<128] = map (get_ref blk) [Suc i..<128]"
    using assms by (auto simp: get_ref_set_ref_other)
  note same = this
  show ?thesis
    using assms unfolding free_refs_def split
    by (simp only: map_append list.map filter_append filter.simps mset_append mset.simps same
        get_ref_set_ref_same) simp
qed

text \<open>The free list of the disk holds the blocks \<open>F\<close>, each of them once.\<close>

definition free_ok :: "nat \<Rightarrow> contents \<Rightarrow> block_no multiset \<Rightarrow> bool" where
  "free_ok N c F \<longleftrightarrow> free_chain c (free_list (c 0)) F \<and> (\<forall>x. count F x \<le> 1) \<and>
     (\<forall>x\<in>#F. unat x < N)"

lemma free_ok_count: "free_ok N c F \<Longrightarrow> b \<in># F \<Longrightarrow> b \<notin># F - {#b#}"
  by (auto simp: free_ok_def count_eq_zero_iff [symmetric] dest: spec [of _ b])

lemma free_ok_nonzero: "free_ok N c F \<Longrightarrow> b \<in># F \<Longrightarrow> b \<noteq> 0"
  using zero_not_in_chain by (auto simp: free_ok_def)

lemma free_ok_cong:
  assumes "free_ok N c F" "free_list (c' 0) = free_list (c 0)" "\<And>x. x \<in># F \<Longrightarrow> c' x = c x"
  shows "free_ok N c' F"
  using assms free_chain_cong [of c _ F c'] by (auto simp: free_ok_def)

locale treedisk_on = block_store bs bino content nblk inv
  for bs :: "'d inode_store" and bino :: u32 and content :: "'d \<Rightarrow> contents"
    and nblk :: nat and inv :: "'d \<Rightarrow> bool" +
  fixes ts :: "'d treedisk_state"
  assumes ts_below [simp]: "below ts = bs" "below_ino ts = bino"
begin

lemma len512 [simp]: "inv d \<Longrightarrow> unat x < nblk \<Longrightarrow> length (content d x) = 512"
  using content_length by simp

lemma alloc_rule:
  assumes d: "inv d" and s: "superblock s = content d 0"
    and F: "free_ok nblk (content d) F" "F \<noteq> {#}" and pos: "0 < nblk"
    and Q: "\<And>b S d'. inv d' \<Longrightarrow> b \<in># F \<Longrightarrow> S = content d' 0 \<Longrightarrow>
      free_ok nblk (content d') (F - {#b#}) \<Longrightarrow>
      n_inodeblocks S = n_inodeblocks (content d 0) \<Longrightarrow>
      (\<And>x. x \<noteq> 0 \<Longrightarrow> x \<notin># F - {#b#} \<Longrightarrow> content d' x = content d x) \<Longrightarrow>
      Q (b, s\<lparr>superblock := S\<rparr>, d')"
  shows "owp (treedisk_alloc_block ts s d) Q"
proof -
  let ?c = "content d" and ?S = "content d 0"
  let ?b = "free_list ?S"
  have chain: "free_chain ?c ?b F" using F by (simp add: free_ok_def)
  then have b0: "?b \<noteq> 0" using F(2) free_chain_empty by blast
  with chain obtain G where G: "F = add_mset ?b (free_refs (?c ?b) + G)"
    "free_chain ?c (get_ref (?c ?b) 0) G"
    by (auto elim: free_chain.cases)
  have bN: "unat ?b < nblk" using G(1) F(1) by (simp add: free_ok_def)
  have uniq: "count F x \<le> 1" for x using F(1) by (simp add: free_ok_def)
  have lens: "length ?S = 512" "length (?c ?b) = 512" using d pos bN by simp_all
  let ?i = "scan_refs (?c ?b) 127"
  show ?thesis
  proof (cases ?i)
    case 0
    let ?S' = "set_ref ?S (Suc 0) (get_ref (?c ?b) 0)"
    let ?c' = "?c(0 := ?S')"
    have FG: "F = add_mset ?b G" using G(1) free_refs_none [OF 0] by simp
    have "count G x \<le> 1" for x using uniq [of x] by (auto simp: FG split: if_splits)
    then have free': "free_ok nblk ?c' (F - {#?b#})"
      using F(1) zero_not_in_chain [OF G(2)]
      by (auto simp: free_ok_def FG ref_simps lens intro!: free_chain_cong [OF G(2)])
    show ?thesis
      unfolding treedisk_alloc_block_def
      using b0 0 s pos lens free' FG
      by (auto simp: Let_def ref_simps intro!: read_rule [OF d bN] write_rule Q)
  next
    case (Suc j)
    then have j: "0 < ?i" "?i < 128" "get_ref (?c ?b) ?i \<noteq> 0"
      using scan_refs_le [of "?c ?b" 127] scan_refs_nonzero [OF Suc] by simp_all
    let ?r = "get_ref (?c ?b) ?i" and ?B = "set_ref (?c ?b) ?i 0"
    let ?c' = "?c(?b := ?B)"
    have FG: "F = add_mset ?r (add_mset ?b (free_refs ?B + G))"
      using G(1) free_refs_take [OF lens(2) j] by simp
    have bG: "?b \<notin># G" and rb: "?r \<noteq> ?b"
      using uniq [of ?b] by (auto simp: FG count_eq_zero_iff [symmetric] split: if_splits)
    have "count (add_mset ?b (free_refs ?B + G)) x \<le> 1" for x
      using uniq [of x] by (auto simp: FG split: if_splits)
    moreover have "free_chain ?c' ?b (add_mset ?b (free_refs (?c' ?b) + G))"
      using b0 j bG lens by (intro free_chain.chain_block)
        (auto simp: ref_simps intro!: free_chain_cong [OF G(2)])
    ultimately have free': "free_ok nblk ?c' (F - {#?r#})"
      using F(1) b0 by (auto simp: free_ok_def FG)
    have s_eq: "s\<lparr>superblock := ?S\<rparr> = s" using s by (cases s) simp
    have rF: "?r \<in># F" and bF: "?b \<in># F - {#?r#}" by (simp_all add: FG)
    have Qs: "Q (?r, s, d')" if d': "inv d'" "content d' = ?c'" for d'
    proof -
      have "content d' x = ?c x" if "x \<notin># F - {#?r#}" for x
        using that bF d'(2) by auto
      then show ?thesis
        using Q [OF d'(1) rF, of ?S] free' b0 s_eq by (simp add: d'(2))
    qed
    show ?thesis
      unfolding treedisk_alloc_block_def
      using b0 j s lens bN
      by (auto simp: Let_def intro!: read_rule [OF d bN] write_rule Qs)
  qed
qed

end

section \<open>Walking down to the data block\<close>

lemma mod_128_power_Suc:
  "(a::nat) mod 128 ^ Suc m = b mod 128 ^ Suc m \<longleftrightarrow>
   a div 128 ^ m mod 128 = b div 128 ^ m mod 128 \<and> a mod 128 ^ m = b mod 128 ^ m"
proof -
  have split: "x mod 128 ^ Suc m = 128 ^ m * (x div 128 ^ m mod 128) + x mod 128 ^ m" for x :: nat
    using mod_mult2_eq [of x "128 ^ m" 128] by (simp add: mult.commute)
  have part: "(128 ^ m * q + r) div 128 ^ m = q" "(128 ^ m * q + r) mod 128 ^ m = r"
    if "r < 128 ^ m" for q r :: nat
    using that by simp_all
  have small: "x mod 128 ^ m < 128 ^ m" for x :: nat by simp
  show ?thesis
    unfolding split [of a] split [of b] using part [OF small] by metis
qed

lemma tree_node_blocks:
  assumes "b \<noteq> 0" "j < 128"
    and "\<And>i. i < 128 \<Longrightarrow> i \<noteq> j \<Longrightarrow> tree_blocks c m (get_ref (c b) i) = U i"
    and "tree_blocks c m (get_ref (c b) j) = U j + A"
  shows "tree_blocks c (Suc m) b = add_mset b (\<Sum>i\<in>ref_slots. U i) + A"
proof -
  have "(\<Sum>i\<in>ref_slots. tree_blocks c m (get_ref (c b) i))
      = (U j + A) + (\<Sum>i\<in>ref_slots - {j}. U i)"
    using assms by (subst sum.remove [of _ j]) (auto intro!: sum.cong)
  also have "\<dots> = (\<Sum>i\<in>ref_slots. U i) + A"
    using assms(2) by (subst (2) sum.remove [of _ j]) auto
  finally show ?thesis using assms(1) by simp
qed

text \<open>
  What the walk from field \<open>idx\<close> of block \<open>P\<close>, kept at \<open>poff\<close>, and the write of the data block
  leave behind: the blocks \<open>A\<close> moved from the free list into the tree, the data at \<open>off\<close> is
  \<open>blk\<close>, all other data is as before, and no other block has changed.
\<close>

definition walk_post ::
  "nat \<Rightarrow> contents \<Rightarrow> contents \<Rightarrow> nat \<Rightarrow> nat \<Rightarrow> block \<Rightarrow> block_no multiset \<Rightarrow> block_no \<Rightarrow>
   block \<Rightarrow> nat \<Rightarrow> bool" where
  "walk_post N c c' n off blk F poff P idx \<longleftrightarrow>
     (\<exists>A r. A \<subseteq># F \<and> size A \<le> Suc n \<and> free_ok N c' (F - A) \<and>
        n_inodeblocks (c' 0) = n_inodeblocks (c 0) \<and> r \<noteq> 0 \<and>
        (if get_ref P idx = 0 then c' poff = set_ref P idx r
         else r = get_ref P idx \<and> c' poff = c poff) \<and>
        tree_blocks c' n r = tree_blocks c n (get_ref P idx) + A \<and>
        (\<forall>off'. tree_lookup c' n r off' =
           (if off' mod 128 ^ n = off mod 128 ^ n then blk
            else tree_lookup c n (get_ref P idx) off')) \<and>
        (\<forall>x. x \<noteq> 0 \<and> x \<noteq> poff \<and> x \<notin># F \<and> x \<notin># tree_blocks c n (get_ref P idx)
           \<longrightarrow> c' x = c x))"

text \<open>The walk goes through a block \<open>b\<close> that the tree already has.\<close>

lemma walk_through_block:
  assumes post: "walk_post N c c' m off blk F b (c b) j"
    and j: "j = off div 128 ^ m mod 128" and b: "b = get_ref P idx" "b \<noteq> 0"
    and len: "length (c b) = 512"
    and T: "\<And>x. x \<in># tree_blocks c (Suc m) b \<Longrightarrow> x \<noteq> poff \<and> x \<notin># F"
      "\<And>x. count (tree_blocks c (Suc m) b) x \<le> 1"
    and poff: "poff \<noteq> 0" "poff \<notin># F"
  shows "walk_post N c c' (Suc m) off blk F poff P idx"
proof -
  define U where "U i = tree_blocks c m (get_ref (c b) i)" for i
  obtain A r where A: "A \<subseteq># F" "size A \<le> Suc m" "free_ok N c' (F - A)"
      "n_inodeblocks (c' 0) = n_inodeblocks (c 0)" "r \<noteq> 0"
    and r: "if get_ref (c b) j = 0 then c' b = set_ref (c b) j r
            else r = get_ref (c b) j \<and> c' b = c b"
    and blocks: "tree_blocks c' m r = U j + A"
    and look: "\<And>off'. tree_lookup c' m r off' =
       (if off' mod 128 ^ m = off mod 128 ^ m then blk
        else tree_lookup c m (get_ref (c b) j) off')"
    and frame: "\<And>x. x \<noteq> 0 \<Longrightarrow> x \<noteq> b \<Longrightarrow> x \<notin># F \<Longrightarrow> x \<notin># U j \<Longrightarrow> c' x = c x"
    using post by (auto simp: walk_post_def U_def)
  have j128: "j < 128" by (simp add: j)
  have refs: "get_ref (c' b) i = (if i = j then r else get_ref (c b) i)" if "i < 128" for i
    using r that j128 len by (auto simp: ref_simps split: if_splits)
  have TU: "tree_blocks c (Suc m) b = add_mset b (\<Sum>i\<in>ref_slots. U i)"
    using b by (simp add: U_def)
  have sub: "add_mset b (U i + (if k = i then {#} else U k)) \<subseteq># tree_blocks c (Suc m) b"
    if "i < 128" "k < 128" for i k
    using that by (subst TU, subst sum.remove [of _ i], auto, subst sum.remove [of _ k], auto)
  have disj: "x \<noteq> b \<and> x \<notin># U k" if h: "i < 128" "k < 128" "x \<in># U i" "k \<noteq> i" for i k x
  proof -
    have "count (add_mset b (U i + U k)) x \<le> 1"
      using order_trans [OF mset_subset_eq_count [OF sub [OF h(1,2)], of x] T(2)] h(4) by simp
    moreover obtain q where "count (U i) x = Suc q"
      using h(3) by (metis count_eq_zero_iff not0_implies_Suc)
    ultimately show ?thesis by (auto simp: count_eq_zero_iff [symmetric] split: if_splits)
  qed
  have other: "c' x = c x" if "i < 128" "i \<noteq> j" "x \<in># U i" for i x
  proof (rule frame)
    show "x \<noteq> 0" using that zero_not_in_tree by (auto simp: U_def)
    show "x \<noteq> b" "x \<notin># U j" using disj [OF that(1) j128 that(3)] that(2) by auto
    show "x \<notin># F" using T(1) mset_subset_eqD [OF sub [OF that(1,1)]] that by auto
  qed
  have "tree_blocks c' (Suc m) b = add_mset b (\<Sum>i\<in>ref_slots. U i) + A"
  proof (rule tree_node_blocks [OF b(2) j128])
    show "tree_blocks c' m (get_ref (c' b) i) = U i" if "i < 128" "i \<noteq> j" for i
      using tree_cong(1) [of c m "get_ref (c b) i" c'] other [OF that] refs that
      by (simp add: U_def)
    show "tree_blocks c' m (get_ref (c' b) j) = U j + A" using refs j128 blocks by simp
  qed
  moreover have "tree_lookup c' (Suc m) b off' =
       (if off' mod 128 ^ Suc m = off mod 128 ^ Suc m then blk
        else tree_lookup c (Suc m) b off')" for off'
  proof (cases "off' div 128 ^ m mod 128 = j")
    case True
    then show ?thesis using b(2) refs j128 look j by (simp add: mod_128_power_Suc del: power_Suc)
  next
    case False
    let ?i = "off' div 128 ^ m mod 128"
    have "tree_lookup c' m (get_ref (c b) ?i) off' = tree_lookup c m (get_ref (c b) ?i) off'"
      by (rule tree_cong(2)) (use other [of ?i] False in \<open>auto simp: U_def\<close>)
    then show ?thesis using b(2) refs False j by (simp add: mod_128_power_Suc del: power_Suc)
  qed
  moreover have "c' x = c x" if "x \<noteq> 0" "x \<notin># F" "x \<notin># tree_blocks c (Suc m) b" for x
    using frame that mset_subset_eqD [OF sub [OF j128 j128]] by auto
  moreover from this have "c' poff = c poff" using poff T(1) by blast
  ultimately show ?thesis
    unfolding walk_post_def using A b TU by (intro exI [of _ A] exI [of _ b]) auto
qed

text \<open>The walk goes through a block \<open>b\<close> just allocated, whose image in memory is all zeros.\<close>

lemma walk_new_block:
  assumes post: "walk_post N c1 c' m off blk (F - {#b#}) b null_block j"
    and j: "j = off div 128 ^ m mod 128" and b: "get_ref P idx = 0" "b \<noteq> 0" "b \<in># F"
    and c1: "c1 poff = set_ref P idx b" "n_inodeblocks (c1 0) = n_inodeblocks (c 0)"
      "\<And>x. x \<noteq> 0 \<Longrightarrow> x \<noteq> poff \<Longrightarrow> x \<notin># F - {#b#} \<Longrightarrow> c1 x = c x"
    and poff: "poff \<noteq> 0" "poff \<notin># F"
  shows "walk_post N c c' (Suc m) off blk F poff P idx"
proof -
  have j128: "j < 128" by (simp add: j)
  have null: "get_ref null_block j = 0" using j128 by (simp add: ref_simps)
  obtain A r where A: "A \<subseteq># F - {#b#}" "size A \<le> Suc m" "free_ok N c' (F - {#b#} - A)"
      "n_inodeblocks (c' 0) = n_inodeblocks (c1 0)" "r \<noteq> 0"
    and r: "c' b = set_ref null_block j r"
    and blocks: "tree_blocks c' m r = A"
    and look: "\<And>off'. tree_lookup c' m r off' =
       (if off' mod 128 ^ m = off mod 128 ^ m then blk else null_block)"
    and frame: "\<And>x. x \<noteq> 0 \<Longrightarrow> x \<noteq> b \<Longrightarrow> x \<notin># F - {#b#} \<Longrightarrow> c' x = c1 x"
    using post null by (auto simp: walk_post_def)
  have refs: "get_ref (c' b) i = (if i = j then r else 0)" if "i < 128" for i
    using r that j128 by (auto simp: ref_simps)
  have "tree_blocks c' (Suc m) b = add_mset b (\<Sum>i\<in>ref_slots. {#}) + A"
    by (rule tree_node_blocks [OF b(2) j128]) (use refs j128 blocks in auto)
  then have "tree_blocks c' (Suc m) b = add_mset b A" by simp
  moreover have "tree_lookup c' (Suc m) b off' =
       (if off' mod 128 ^ Suc m = off mod 128 ^ Suc m then blk else null_block)" for off'
    using b(2) refs look j by (auto simp: mod_128_power_Suc simp del: power_Suc)
  moreover have "add_mset b A \<subseteq># F" using A(1) b(3) by (simp add: insert_subset_eq_iff)
  moreover have "c' poff = set_ref P idx b"
    using frame [of poff] poff b(3) c1(1) by (auto dest: in_diffD)
  moreover have "c' x = c x" if "x \<noteq> 0" "x \<noteq> poff" "x \<notin># F" for x
    using frame [of x] c1(3) [of x] that b(3) by (auto dest: in_diffD)
  ultimately show ?thesis
    unfolding walk_post_def using A b c1(2)
    by (intro exI [of _ "add_mset b A"] exI [of _ b]) auto
qed

text \<open>The walk ends at a data block that the tree has, or at a new one.\<close>

lemma walk_leaf_old:
  assumes "get_ref P idx = b" "b \<noteq> 0" "b \<noteq> poff" "b \<notin># F" "free_ok N c F"
  shows "walk_post N c (c(b := blk)) 0 off blk F poff P idx"
proof -
  have "free_ok N (c(b := blk)) F" using assms by (auto intro: free_ok_cong)
  then show ?thesis using assms by (auto simp: walk_post_def intro!: exI [of _ "{#}"] exI [of _ b])
qed

lemma walk_leaf_new:
  assumes "get_ref P idx = 0" "b \<in># F" "b \<noteq> 0" "free_ok N c F" "free_ok N c1 (F - {#b#})"
    and "n_inodeblocks (c1 0) = n_inodeblocks (c 0)"
    and "\<And>x. x \<noteq> 0 \<Longrightarrow> x \<notin># F - {#b#} \<Longrightarrow> c1 x = c x" "poff \<noteq> 0" "poff \<notin># F"
  shows "walk_post N c (c1(poff := set_ref P idx b, b := blk)) 0 off blk F poff P idx"
proof -
  have "b \<notin># F - {#b#}" "poff \<notin># F - {#b#}" "poff \<noteq> b"
    using assms by (auto dest: free_ok_count in_diffD)
  then have "free_ok N (c1(poff := set_ref P idx b, b := blk)) (F - {#b#})"
    using assms by (auto intro: free_ok_cong)
  then show ?thesis
    using assms \<open>poff \<noteq> b\<close>
    by (auto simp: walk_post_def intro!: exI [of _ "{#b#}"] exI [of _ b] dest: in_diffD)
qed

context treedisk_on
begin

lemma alloc_write_rule:
  assumes d: "inv d" "superblock s = content d 0" and F: "free_ok nblk (content d) F" "F \<noteq> {#}"
    and poff: "unat poff < nblk" "poff \<noteq> 0" "poff \<notin># F" and P: "\<And>b. length (P b) = 512"
    and Q: "\<And>b s' d' c1. inv d' \<Longrightarrow> b \<in># F \<Longrightarrow> b \<noteq> 0 \<Longrightarrow> b \<noteq> poff \<Longrightarrow> unat b < nblk \<Longrightarrow>
      superblock s' = c1 0 \<Longrightarrow> s' = s\<lparr>superblock := c1 0\<rparr> \<Longrightarrow> content d' = c1(poff := P b) \<Longrightarrow>
      free_ok nblk c1 (F - {#b#}) \<Longrightarrow> free_ok nblk (content d') (F - {#b#}) \<Longrightarrow>
      b \<notin># F - {#b#} \<Longrightarrow> poff \<notin># F - {#b#} \<Longrightarrow>
      n_inodeblocks (c1 0) = n_inodeblocks (content d 0) \<Longrightarrow>
      (\<And>x. x \<noteq> 0 \<Longrightarrow> x \<notin># F - {#b#} \<Longrightarrow> c1 x = content d x) \<Longrightarrow> Q b s' d'"
  shows "owp (treedisk_alloc_block ts s d)
     (\<lambda>(b, s', d'). owp (st_write bs bino poff (P b) d') (\<lambda>(r, d'). 0 \<le> r \<and> Q b s' d'))"
proof (rule alloc_rule [OF d F])
  show "0 < nblk" using poff(1) by simp
next
  fix b S d1
  assume a: "inv d1" "b \<in># F" "S = content d1 0" "free_ok nblk (content d1) (F - {#b#})"
    "n_inodeblocks S = n_inodeblocks (content d 0)"
    "\<And>x. x \<noteq> 0 \<Longrightarrow> x \<notin># F - {#b#} \<Longrightarrow> content d1 x = content d x"
  have b: "b \<noteq> 0" "b \<noteq> poff" "b \<notin># F - {#b#}" "poff \<notin># F - {#b#}" "unat b < nblk"
    using a(2) F(1) poff(3) free_ok_nonzero free_ok_count
    by (auto simp: free_ok_def dest: in_diffD)
  have free': "free_ok nblk ((content d1)(poff := P b)) (F - {#b#})"
    by (rule free_ok_cong [OF a(4)]) (use b poff(2) in auto)
  have "owp (st_write bs bino poff (P b) d1) (\<lambda>(r, d'). 0 \<le> r \<and> Q b (s\<lparr>superblock := S\<rparr>) d')"
  proof (rule write_rule [OF a(1) poff(1) P])
    fix d' assume d': "inv d'" "content d' = (content d1)(poff := P b)"
    have "Q b (s\<lparr>superblock := S\<rparr>) d'"
      by (rule Q [of d' b _ "content d1"]) (use a b d' free' in auto)
    then show "case (0 :: int, d') of (r, d') \<Rightarrow> 0 \<le> r \<and> Q b (s\<lparr>superblock := S\<rparr>) d'" by simp
  qed
  then show "case (b, s\<lparr>superblock := S\<rparr>, d1) of (b, s', d') \<Rightarrow>
      owp (st_write bs bino poff (P b) d') (\<lambda>(r, d'). 0 \<le> r \<and> Q b s' d')" by simp
qed

lemma write_walk_ok:
  assumes "inv d" "superblock s = content d 0" "free_ok nblk (content d) F" "n < size F"
    and "length P = 512" "idx < 128" "unat poff < nblk" "poff \<noteq> 0" "poff \<notin># F"
    and "\<And>x. x \<in># tree_blocks (content d) n (get_ref P idx) \<Longrightarrow>
           unat x < nblk \<and> x \<noteq> poff \<and> x \<notin># F"
    and "\<And>x. count (tree_blocks (content d) n (get_ref P idx)) x \<le> 1"
    and "length blk = 512"
  shows "owp (write_walk ts off n s poff P idx d)
     (\<lambda>(b, s', d'). owp (st_write bs bino b blk d')
       (\<lambda>(r, d''). r = 0 \<and> inv d'' \<and>
          walk_post nblk (content d) (content d'') n (unat off) blk F poff P idx))"
  using assms
proof (induction n arbitrary: d s F P idx poff)
  case 0
  let ?b = "get_ref P idx"
  show ?case
  proof (cases "?b = 0")
    case True
    have "owp (treedisk_alloc_block ts s d)
       (\<lambda>(b, s', d'). owp (st_write bs bino poff (set_ref P idx b) d')
         (\<lambda>(r, d'). 0 \<le> r \<and> owp (st_write bs bino b blk d')
           (\<lambda>(r, d''). r = 0 \<and> inv d'' \<and>
             walk_post nblk (content d) (content d'') 0 (unat off) blk F poff P idx)))"
    proof (rule alloc_write_rule [OF "0.prems"(1-3) _ "0.prems"(7-9)], goal_cases)
      case (3 b s' d' c1)
      then show ?case
        using True "0.prems"(3,8,9,12)
        by (auto intro!: write_rule walk_leaf_new)
    qed (use "0.prems"(4,5) in auto)
    then show ?thesis
      by (subst write_walk.simps) (auto simp: True Let_def split: prod.splits elim!: owp_mono)
  next
    case False
    then show ?thesis
      using "0.prems" by (subst write_walk.simps) (auto intro!: write_rule walk_leaf_old)
  qed
next
  case (Suc n)
  let ?b = "get_ref P idx" and ?j = "ref_index off n"
  show ?case
  proof (cases "?b = 0")
    case True
    have "owp (treedisk_alloc_block ts s d)
       (\<lambda>(b, s', d'). owp (st_write bs bino poff (set_ref P idx b) d')
         (\<lambda>(r, d'). 0 \<le> r \<and> owp (write_walk ts off n s' b null_block ?j d')
           (\<lambda>(b, s', d'). owp (st_write bs bino b blk d')
           (\<lambda>(r, d''). r = 0 \<and> inv d'' \<and>
             walk_post nblk (content d) (content d'') (Suc n) (unat off) blk F poff P idx))))"
    proof (rule alloc_write_rule [OF Suc.prems(1-3) _ Suc.prems(7-9)], goal_cases)
      case (3 b s' d' c1)
      have j: "?j < 128" "get_ref null_block ?j = 0" by (simp_all add: ref_index_eq ref_simps)
      have IH: "owp (write_walk ts off n s' b null_block ?j d')
        (\<lambda>(b2, s2, d2). owp (st_write bs bino b2 blk d2)
          (\<lambda>(r, d''). r = 0 \<and> inv d'' \<and>
            walk_post nblk (content d') (content d'') n (unat off) blk (F - {#b#}) b null_block ?j))"
      proof (rule Suc.IH)
        show "free_ok nblk (content d') (F - {#b#})" by (rule 3(10))
      qed (use 3 j Suc.prems(4,8,12) in \<open>auto simp: size_Diff_singleton\<close>)
      have step: "walk_post nblk (content d) c'' (Suc n) (unat off) blk F poff P idx"
        if "walk_post nblk (content d') c'' n (unat off) blk (F - {#b#}) b null_block ?j" for c''
        by (rule walk_new_block [OF that ref_index_eq True]) (use 3 Suc.prems(8,9) in auto)
      show ?case
        by (rule owp_mono [OF IH]) (auto intro: step elim!: owp_mono)
    qed (use Suc.prems(4,5) in auto)
    then show ?thesis
      by (subst write_walk.simps) (auto simp: True Let_def split: prod.splits elim!: owp_mono)
  next
    case False
    have b: "unat ?b < nblk" "?b \<noteq> poff" "?b \<notin># F" using Suc.prems(10) [of ?b] False by auto
    have child: "tree_blocks (content d) n (get_ref (content d ?b) ?j)
        \<subseteq># tree_blocks (content d) (Suc n) ?b"
      by (rule tree_child_blocks [OF False]) (simp add: ref_index_eq)
    have not_child: "?b \<notin># tree_blocks (content d) n (get_ref (content d ?b) ?j)"
      using Suc.prems(11) [of ?b] False
      by (auto simp: count_eq_zero_iff in_sum_mset_iff ref_index_eq)
    have IH: "owp (write_walk ts off n s ?b (content d ?b) ?j d')
        (\<lambda>(b2, s2, d2). owp (st_write bs bino b2 blk d2)
          (\<lambda>(r, d''). r = 0 \<and> inv d'' \<and>
            walk_post nblk (content d') (content d'') n (unat off) blk F ?b (content d ?b) ?j))"
      if "inv d'" "content d' = content d" for d'
    proof (rule Suc.IH)
      show "count (tree_blocks (content d') n (get_ref (content d ?b) ?j)) x \<le> 1" for x
        using order_trans [OF mset_subset_eq_count [OF child] Suc.prems(11)] that by simp
    qed (use that b False not_child Suc.prems mset_subset_eqD [OF child] in
        \<open>auto simp: ref_index_eq\<close>)
    have step: "walk_post nblk (content d) c'' (Suc n) (unat off) blk F poff P idx"
      if "walk_post nblk (content d) c'' n (unat off) blk F ?b (content d ?b) ?j" for c''
      by (rule walk_through_block [OF that ref_index_eq refl False])
         (use b Suc.prems in auto)
    show ?thesis
      apply (subst write_walk.simps)
      apply (simp add: Let_def False)
      apply (rule read_rule [OF Suc.prems(1) b(1)])
      apply simp
      apply (rule owp_mono [OF IH])
      apply (auto intro: step elim!: owp_mono)
      done
  qed
qed

end
section \<open>Growing a tree\<close>

lemma grow_node:
  assumes c1: "c1 b = set_ref null_block 0 root" and b: "b \<noteq> 0"
    and T: "\<And>x. x \<in># tree_blocks c n root \<Longrightarrow> c1 x = c x"
  shows "tree_blocks c1 (Suc n) b = add_mset b (tree_blocks c n root)"
    and "off < 128 ^ Suc n \<Longrightarrow> tree_lookup c1 (Suc n) b off =
           (if off < 128 ^ n then tree_lookup c n root off else null_block)"
proof -
  have refs: "get_ref (c1 b) i = (if i = 0 then root else 0)" if "i < 128" for i
    using that by (auto simp: c1 ref_simps)
  have "tree_blocks c1 (Suc n) b = add_mset b (\<Sum>i\<in>ref_slots. {#}) + tree_blocks c n root"
    by (rule tree_node_blocks [of _ 0]) (use b refs tree_cong(1) [of c n root c1] T in auto)
  then show "tree_blocks c1 (Suc n) b = add_mset b (tree_blocks c n root)" by simp
  assume "off < 128 ^ Suc n"
  then have "off div 128 ^ n < 128" by (simp add: less_mult_imp_div_less mult.commute)
  moreover have "off div 128 ^ n = 0 \<longleftrightarrow> off < 128 ^ n" by (simp add: div_eq_0_iff)
  ultimately show "tree_lookup c1 (Suc n) b off =
      (if off < 128 ^ n then tree_lookup c n root off else null_block)"
    using b refs tree_cong(2) [of c n root c1] T by (auto simp: div_eq_0_iff)
qed

text \<open>Adding \<open>k\<close> levels above the root in memory moves \<open>k\<close> blocks into the tree and keeps its data.\<close>

definition grow_post ::
  "nat \<Rightarrow> contents \<Rightarrow> contents \<Rightarrow> treedisk_snapshot \<Rightarrow> treedisk_snapshot \<Rightarrow> nat \<Rightarrow> nat \<Rightarrow>
   block_no multiset \<Rightarrow> bool" where
  "grow_post N c c' s s' n k F \<longleftrightarrow>
     superblock s' = c' 0 \<and> length (inodeblock s') = 512 \<and>
     inode s' = inode s \<and> inode_blockno s' = inode_blockno s \<and>
     (\<forall>j<128. j \<noteq> 2 * inode s \<longrightarrow> get_ref (inodeblock s') j = get_ref (inodeblock s) j) \<and>
     (\<exists>A. A \<subseteq># F \<and> size A = k \<and> free_ok N c' (F - A) \<and>
        n_inodeblocks (c' 0) = n_inodeblocks (c 0) \<and>
        tree_blocks c' (n + k) (inode_root s') = tree_blocks c n (inode_root s) + A \<and>
        (\<forall>off<128 ^ (n + k). tree_lookup c' (n + k) (inode_root s') off =
          (if off < 128 ^ n then tree_lookup c n (inode_root s) off else null_block)) \<and>
        (\<forall>x. x \<noteq> 0 \<and> x \<notin># F \<longrightarrow> c' x = c x))"

lemma grow_post_Suc:
  assumes post: "grow_post N c2 c' s1 s' (Suc n) k (F - {#b#})"
    and s1: "s1 = set_inode_root (s\<lparr>superblock := S\<rparr>) b" "length (inodeblock s) = 512" "inode s < 64"
    and b: "b \<in># F" "b \<noteq> 0" and c2: "c2 b = set_ref null_block 0 (inode_root s)"
      "\<And>x. x \<noteq> 0 \<Longrightarrow> x \<notin># F \<Longrightarrow> c2 x = c x"
      "n_inodeblocks (c2 0) = n_inodeblocks (c 0)"
    and T: "\<And>x. x \<in># tree_blocks c n (inode_root s) \<Longrightarrow> x \<notin># F"
  shows "grow_post N c c' s s' n (Suc k) F"
proof -
  have root: "inode_root s1 = b"
    using s1 by (simp add: set_inode_root_def inode_root_def ref_simps)
  have T': "c2 x = c x" if "x \<in># tree_blocks c n (inode_root s)" for x
    using that T c2(2) zero_not_in_tree by metis
  obtain A where A: "A \<subseteq># F - {#b#}" "size A = k" "free_ok N c' (F - {#b#} - A)"
      "n_inodeblocks (c' 0) = n_inodeblocks (c2 0)"
    and blocks: "tree_blocks c' (Suc n + k) (inode_root s') = tree_blocks c2 (Suc n) b + A"
    and look: "\<And>off. off < 128 ^ (Suc n + k) \<Longrightarrow>
       tree_lookup c' (Suc n + k) (inode_root s') off =
          (if off < 128 ^ Suc n then tree_lookup c2 (Suc n) b off else null_block)"
    and frame: "\<And>x. x \<noteq> 0 \<Longrightarrow> x \<notin># F - {#b#} \<Longrightarrow> c' x = c2 x"
    using post unfolding grow_post_def root by blast
  have "add_mset b A \<subseteq># F" using A(1) b(1) by (simp add: insert_subset_eq_iff)
  moreover have "tree_lookup c' (n + Suc k) (inode_root s') off =
      (if off < 128 ^ n then tree_lookup c n (inode_root s) off else null_block)"
    if "off < 128 ^ (n + Suc k)" for off
  proof (cases "off < 128 ^ Suc n")
    case True
    then show ?thesis
      using look [of off] that grow_node(2) [of c2 b _ c n, OF c2(1) b(2) T'] by simp
  next
    case False
    moreover have "(128::nat) ^ n \<le> 128 ^ Suc n" by simp
    ultimately show ?thesis using look [of off] that by simp
  qed
  moreover have "tree_blocks c' (n + Suc k) (inode_root s')
      = tree_blocks c n (inode_root s) + add_mset b A"
    using blocks grow_node(1) [of c2 b _ c n, OF c2(1) b(2) T'] by simp
  moreover have "c' x = c x" if "x \<noteq> 0" "x \<notin># F" for x
    using frame [of x] c2(2) [of x] that by (auto dest: in_diffD)
  ultimately show ?thesis
    using post A s1 c2(3) unfolding grow_post_def
    by (auto simp: set_inode_root_def ref_simps intro!: exI [of _ "add_mset b A"])
qed

context treedisk_on
begin

lemma grow_ok:
  assumes "inv d" "superblock s = content d 0" "free_ok nblk (content d) F" "k \<le> size F"
    and "length (inodeblock s) = 512" "inode s < 64" "0 < nblk"
    and "\<And>x. x \<in># tree_blocks (content d) n (inode_root s) \<Longrightarrow> x \<notin># F"
  shows "owp (grow_levels ts k s d)
     (\<lambda>(s', d'). inv d' \<and> grow_post nblk (content d) (content d') s s' n k F)"
  using assms
proof (induction k arbitrary: n s d F)
  case 0
  then show ?case by (auto simp: grow_post_def intro!: exI [of _ "{#}"])
next
  case (Suc k)
  let ?tib = "set_ref null_block 0 (inode_root s)"
  let ?Q = "\<lambda>(s', d'). inv d' \<and> grow_post nblk (content d) (content d') s s' n (Suc k) F"
  have ne: "F \<noteq> {#}" using Suc.prems(4) by auto
  have "owp (treedisk_alloc_block ts s d) (\<lambda>(b, s1, d1).
      owp (st_write bs bino b (set_ref null_block 0 (inode_root s1)) d1)
      (\<lambda>(r, d2). 0 \<le> r \<and> owp (grow_levels ts k (set_inode_root s1 b) d2) ?Q))"
  proof (rule alloc_rule [OF Suc.prems(1-3) ne Suc.prems(7)])
    fix b S d1
    let ?s1 = "set_inode_root (s\<lparr>superblock := S\<rparr>) b"
    assume a: "inv d1" "b \<in># F" "S = content d1 0" "free_ok nblk (content d1) (F - {#b#})"
      "n_inodeblocks S = n_inodeblocks (content d 0)"
      "\<And>x. x \<noteq> 0 \<Longrightarrow> x \<notin># F - {#b#} \<Longrightarrow> content d1 x = content d x"
    have b: "b \<noteq> 0" "b \<notin># F - {#b#}" "unat b < nblk"
      using a(2) Suc.prems(3) free_ok_nonzero free_ok_count by (auto simp: free_ok_def)
    have "owp (st_write bs bino b ?tib d1)
        (\<lambda>(r, d2). 0 \<le> r \<and> owp (grow_levels ts k ?s1 d2) ?Q)"
    proof (rule write_rule [OF a(1) b(3)])
      fix d2 assume d2: "inv d2" "content d2 = (content d1)(b := ?tib)"
      have c2: "content d2 b = ?tib" "n_inodeblocks (content d2 0) = n_inodeblocks (content d 0)"
          "content d2 0 = S"
        using d2(2) b a(3,5) by auto
      have frame: "content d2 x = content d x" if "x \<noteq> 0" "x \<notin># F" for x
        using that d2(2) a(2) a(6) [of x] by (auto dest: in_diffD)
      have root: "inode_root ?s1 = b"
        using Suc.prems(5,6) by (simp add: set_inode_root_def inode_root_def ref_simps)
      have T: "content d2 x = content d x" if "x \<in># tree_blocks (content d) n (inode_root s)" for x
        using that Suc.prems(8) frame zero_not_in_tree by metis
      have free2: "free_ok nblk (content d2) (F - {#b#})"
        by (rule free_ok_cong [OF a(4)]) (use d2(2) b in auto)
      have node: "tree_blocks (content d2) (Suc n) b
          = add_mset b (tree_blocks (content d) n (inode_root s))"
        using c2(1) b(1) T by (rule grow_node(1))
      have notF: "x \<notin># F - {#b#}"
        if "x \<in># tree_blocks (content d2) (Suc n) (inode_root ?s1)" for x
        using that b(2) Suc.prems(8) by (auto simp: root node simp del: tree_blocks.simps dest: in_diffD)
      have "owp (grow_levels ts k ?s1 d2) (\<lambda>(s', d'). inv d' \<and>
          grow_post nblk (content d2) (content d') ?s1 s' (Suc n) k (F - {#b#}))"
        by (rule Suc.IH [OF d2(1) _ free2 _ _ _ _ notF])
           (use c2(3) Suc.prems a(2) in \<open>auto simp: set_inode_root_def size_Diff_singleton\<close>)
      then have "owp (grow_levels ts k ?s1 d2) ?Q"
        by (rule owp_mono)
           (auto intro!: grow_post_Suc [OF _ refl Suc.prems(5,6) a(2) b(1) c2(1) frame c2(2)]
              dest: Suc.prems(8))
      then show "case (0 :: int, d2) of (r, d2) \<Rightarrow> 0 \<le> r \<and> owp (grow_levels ts k ?s1 d2) ?Q"
        by simp
    qed simp
    then show "case (b, s\<lparr>superblock := S\<rparr>, d1) of (b, s1, d1) \<Rightarrow>
        owp (st_write bs bino b (set_ref null_block 0 (inode_root s1)) d1)
          (\<lambda>(r, d2). 0 \<le> r \<and> owp (grow_levels ts k (set_inode_root s1 b) d2) ?Q)"
      by (simp add: inode_root_def)
  qed
  then show ?case
    by (auto simp: Let_def split: prod.splits elim!: owp_mono)
qed

end

end
