(* ===== verification/Treedisk_Files.thy ===== *)
theory Treedisk_Files
  imports Treedisk_Correct
begin

text \<open>
  The file system as a whole: well-formed disks, the files they hold, and the methods of
  treedisk as reads and writes of those files.
\<close>

section \<open>Files on a well-formed disk\<close>

record vfile =
  fsize :: nat
  fdata :: "nat \<Rightarrow> block"

text \<open>The specification of the two operations on a file; a block never written reads as nulls.\<close>

definition vfile_write :: "vfile \<Rightarrow> nat \<Rightarrow> block \<Rightarrow> vfile" where
  "vfile_write f off blk =
     \<lparr>fsize = max (fsize f) (Suc off), fdata = (fdata f)(off := blk)\<rparr>"

definition vfile_read :: "vfile \<Rightarrow> nat \<Rightarrow> block option" where
  "vfile_read f off = (if off < fsize f then Some (fdata f off) else None)"

definition inode_blk :: "nat \<Rightarrow> block_no" where
  "inode_blk ino = of_nat (Suc (ino div 64))"

definition file_root :: "contents \<Rightarrow> nat \<Rightarrow> block_no" where
  "file_root c ino = get_ref (c (inode_blk ino)) (2 * (ino mod 64))"

definition file_size :: "contents \<Rightarrow> nat \<Rightarrow> block_no" where
  "file_size c ino = get_ref (c (inode_blk ino)) (2 * (ino mod 64) + 1)"

definition file_tree :: "contents \<Rightarrow> nat \<Rightarrow> block_no multiset" where
  "file_tree c ino = tree_blocks c (file_levels (file_size c ino)) (file_root c ino)"

definition fs_file :: "contents \<Rightarrow> nat \<Rightarrow> vfile" where
  "fs_file c ino =
     (let n = file_levels (file_size c ino) in
      \<lparr>fsize = unat (file_size c ino),
       fdata = (\<lambda>off. if off < 128 ^ n then tree_lookup c n (file_root c ino) off else null_block)\<rparr>)"

definition fs_inodes :: "contents \<Rightarrow> nat" where
  "fs_inodes c = 64 * unat (n_inodeblocks (c 0))"

definition data_blocks :: "nat \<Rightarrow> contents \<Rightarrow> block_no set" where
  "data_blocks N c = {b. unat (n_inodeblocks (c 0)) < unat b \<and> unat b < N}"

text \<open>
  Each data block is exactly once on the free list \<open>F\<close> or in a file, and a file holds nothing
  beyond its size.
\<close>

definition fs_wf :: "nat \<Rightarrow> contents \<Rightarrow> block_no multiset \<Rightarrow> bool" where
  "fs_wf N c F \<longleftrightarrow>
     unat (n_inodeblocks (c 0)) < N \<and> fs_inodes c < 2 ^ 32 \<and> free_ok N c F \<and>
     F + (\<Sum>ino<fs_inodes c. file_tree c ino) = mset_set (data_blocks N c) \<and>
     (\<forall>ino<fs_inodes c. \<forall>off\<ge>fsize (fs_file c ino). fdata (fs_file c ino) off = null_block)"

lemma finite_data_blocks [simp]: "finite (data_blocks N c)"
  by (rule finite_subset [of _ UNIV]) auto

lemma unat_inode_blk: "ino < 2 ^ 32 \<Longrightarrow> unat (inode_blk ino) = Suc (ino div 64)"
  by (simp add: inode_blk_def unat_of_nat take_bit_nat_eq_self del: of_nat_Suc)

lemma inode_blk_bounds:
  assumes "fs_wf N c F" "ino < fs_inodes c"
  shows "unat (inode_blk ino) \<le> unat (n_inodeblocks (c 0))" "unat (inode_blk ino) < N"
    "inode_blk ino \<noteq> 0"
proof -
  have "ino < 2 ^ 32" using assms by (simp add: fs_wf_def)
  then have u: "unat (inode_blk ino) = Suc (ino div 64)" by (rule unat_inode_blk)
  show "unat (inode_blk ino) \<le> unat (n_inodeblocks (c 0))"
    using assms(2) u by (simp add: fs_inodes_def)
  then show "unat (inode_blk ino) < N" using assms(1) by (simp add: fs_wf_def)
  show "inode_blk ino \<noteq> 0" using u by auto
qed

lemma fs_wf_counts:
  assumes "fs_wf N c F" "ino < fs_inodes c"
  shows "count F x + count (file_tree c ino) x +
     (\<Sum>k\<in>{..<fs_inodes c} - {ino}. count (file_tree c k) x) \<le> 1"
    and "x \<in># F + file_tree c ino \<Longrightarrow> x \<in> data_blocks N c"
proof -
  have eq: "F + (file_tree c ino + (\<Sum>k\<in>{..<fs_inodes c} - {ino}. file_tree c k))
      = mset_set (data_blocks N c)"
    using assms by (subst sum.remove [symmetric]) (auto simp: fs_wf_def)
  from arg_cong [OF eq, of "\<lambda>m. count m x"]
  show "count F x + count (file_tree c ino) x +
     (\<Sum>k\<in>{..<fs_inodes c} - {ino}. count (file_tree c k) x) \<le> 1"
    by (simp add: count_mset_set' count_sum split: if_splits)
  from arg_cong [OF eq, of "\<lambda>m. x \<in># m"]
  show "x \<in># F + file_tree c ino \<Longrightarrow> x \<in> data_blocks N c" by auto
qed

lemma fs_wf_tree:
  assumes wf: "fs_wf N c F" and ino: "ino < fs_inodes c"
  shows "count (file_tree c ino) x \<le> 1"
    and "x \<in># file_tree c ino \<Longrightarrow> x \<notin># F"
    and "x \<in># file_tree c ino \<Longrightarrow> k < fs_inodes c \<Longrightarrow> k \<noteq> ino \<Longrightarrow> x \<notin># file_tree c k"
    and "x \<in># file_tree c ino \<Longrightarrow> unat x < N"
    and "x \<in># file_tree c ino \<Longrightarrow> k < fs_inodes c \<Longrightarrow> x \<noteq> inode_blk k"
    and "x \<in># F \<Longrightarrow> k < fs_inodes c \<Longrightarrow> x \<noteq> inode_blk k"
    and "x \<in># F \<Longrightarrow> unat x < N"
proof -
  note cnt = fs_wf_counts(1) [OF wf ino, of x] and mem = fs_wf_counts(2) [OF wf ino, of x]
  show "count (file_tree c ino) x \<le> 1" using cnt by simp
  show "unat x < N" if "x \<in># F" using mem that by (simp add: data_blocks_def)
  show "x \<noteq> inode_blk k" if "x \<in># F" "k < fs_inodes c"
    using mem that inode_blk_bounds(1) [OF wf that(2)] by (auto simp: data_blocks_def)
  assume x: "x \<in># file_tree c ino"
  then obtain q where q: "count (file_tree c ino) x = Suc q"
    by (metis count_eq_zero_iff not0_implies_Suc)
  show "x \<notin># F" using cnt q by (auto simp: count_eq_zero_iff [symmetric])
  show "unat x < N" using mem x by (simp add: data_blocks_def)
  show "x \<noteq> inode_blk k" if "k < fs_inodes c"
    using mem x inode_blk_bounds(1) [OF wf that] by (auto simp: data_blocks_def)
  show "x \<notin># file_tree c k" if "k < fs_inodes c" "k \<noteq> ino"
  proof -
    have "count (file_tree c k) x \<le> (\<Sum>k\<in>{..<fs_inodes c} - {ino}. count (file_tree c k) x)"
      using that by (intro member_le_sum) auto
    then show ?thesis using cnt q by (auto simp: count_eq_zero_iff [symmetric])
  qed
qed

text \<open>A change of one file that takes the blocks \<open>A\<close> from the free list.\<close>

lemma fs_wf_change:
  assumes wf: "fs_wf N c (F' + A)" and ino: "ino < fs_inodes c"
    and sb: "n_inodeblocks (c' 0) = n_inodeblocks (c 0)" and free: "free_ok N c' F'"
    and same: "\<And>k. k < fs_inodes c \<Longrightarrow> k \<noteq> ino \<Longrightarrow>
      file_root c' k = file_root c k \<and> file_size c' k = file_size c k"
    and frame: "\<And>k x. k < fs_inodes c \<Longrightarrow> k \<noteq> ino \<Longrightarrow> x \<in># file_tree c k \<Longrightarrow> c' x = c x"
    and tree: "file_tree c' ino = file_tree c ino + A"
    and null: "\<And>off. fsize (fs_file c' ino) \<le> off \<Longrightarrow> fdata (fs_file c' ino) off = null_block"
  shows "fs_wf N c' F'"
    and "k < fs_inodes c \<Longrightarrow> k \<noteq> ino \<Longrightarrow> fs_file c' k = fs_file c k"
    and "fs_inodes c' = fs_inodes c"
proof -
  show inodes: "fs_inodes c' = fs_inodes c" by (simp add: fs_inodes_def sb)
  have trees: "file_tree c' k = file_tree c k" if "k < fs_inodes c" "k \<noteq> ino" for k
    using same [OF that] tree_cong(1) [of c _ _ c'] frame [OF that] by (simp add: file_tree_def)
  show other: "fs_file c' k = fs_file c k" if "k < fs_inodes c" "k \<noteq> ino" for k
    using same [OF that] frame [OF that]
    by (auto simp: fs_file_def file_tree_def Let_def fun_eq_iff intro!: tree_cong(2))
  have "(\<Sum>k<fs_inodes c. file_tree c' k) = (\<Sum>k<fs_inodes c. file_tree c k) + A"
    using ino trees tree
    by (subst (1 2) sum.remove [of _ ino]) (auto intro!: sum.cong)
  then show "fs_wf N c' F'"
    using wf free other null ino unfolding fs_wf_def inodes data_blocks_def sb
    by (auto simp: ac_simps) (metis le_eq_less_or_eq)
qed

section \<open>Overwriting and extending a file\<close>

lemma file_levels_0 [simp]: "file_levels 0 = 0"
  by (simp add: file_levels_def)

lemma unat_minus_1: "(x :: u32) \<noteq> 0 \<Longrightarrow> unat (x - 1) = unat x - 1"
  by (simp add: unat_minus_one)

lemma file_levels_bound:
  assumes "off < unat sz"
  shows "off < 128 ^ file_levels sz"
proof -
  have "sz > 0" using assms by (simp add: word_less_nat_alt)
  then have "unat sz - 1 < 128 ^ file_levels sz"
    using count_levels_spec [of 0 "sz - 1"] by (simp add: file_levels_def unat_minus_1)
  with assms show ?thesis by simp
qed

lemma file_levels_plus1: "off + 1 \<noteq> 0 \<Longrightarrow> file_levels (off + 1) = count_levels off 0"
  by (simp add: file_levels_def word_neq_0_conv [symmetric])

lemma file_levels_le:
  assumes "unat sz \<le> unat off"
  shows "file_levels sz \<le> count_levels off 0"
proof (cases "sz = 0")
  case False
  then have "unat (sz - 1) \<le> unat off" using assms by (simp add: unat_minus_1)
  then show ?thesis using False count_levels_mono by (auto simp: file_levels_def word_neq_0_conv)
qed simp

lemma inode_blk_eq:
  assumes "fs_wf N c F" "k < fs_inodes c" "ino < fs_inodes c" "inode_blk k = inode_blk ino" "k \<noteq> ino"
  shows "k mod 64 \<noteq> ino mod 64"
proof -
  have "k < 2 ^ 32" "ino < 2 ^ 32" using assms by (auto simp: fs_wf_def)
  then have "k div 64 = ino div 64" using assms(4) unat_inode_blk by (metis nat.inject)
  then show ?thesis using assms(5) by (metis div_mult_mod_eq)
qed

text \<open>
  The fields of the other inodes, when the inode's own block keeps all but the fields of the
  inode and the other inode blocks are unchanged.
\<close>

lemma other_inodes:
  assumes wf: "fs_wf N c F" and ino: "ino < fs_inodes c"
    and ib: "\<And>j. j < 128 \<Longrightarrow> j \<noteq> 2 * (ino mod 64) \<Longrightarrow> j \<noteq> 2 * (ino mod 64) + 1 \<Longrightarrow>
      get_ref (c' (inode_blk ino)) j = get_ref (c (inode_blk ino)) j"
    and frame: "\<And>x. x \<noteq> 0 \<Longrightarrow> x \<noteq> inode_blk ino \<Longrightarrow> x \<notin># F \<Longrightarrow> x \<notin># file_tree c ino \<Longrightarrow> c' x = c x"
    and k: "k < fs_inodes c" "k \<noteq> ino"
  shows "file_root c' k = file_root c k \<and> file_size c' k = file_size c k"
    and "x \<in># file_tree c k \<Longrightarrow> c' x = c x"
proof -
  show "file_root c' k = file_root c k \<and> file_size c' k = file_size c k"
  proof (cases "inode_blk k = inode_blk ino")
    case True
    then have "k mod 64 \<noteq> ino mod 64" using inode_blk_eq wf ino k by blast
    moreover have "2 * (k mod 64) + 1 < 128" using mod_less_divisor [of 64 k] by linarith
    ultimately show ?thesis using ib True by (auto simp: file_root_def file_size_def) 
  next
    case False
    have "c' (inode_blk k) = c (inode_blk k)"
      using frame False inode_blk_bounds(3) [OF wf k(1)] fs_wf_tree [OF wf ino] k(1) by metis
    then show ?thesis by (simp add: file_root_def file_size_def)
  qed
  show "c' x = c x" if x: "x \<in># file_tree c k"
  proof (rule frame)
    show "x \<noteq> 0" using x zero_not_in_tree by (auto simp: file_tree_def)
    show "x \<noteq> inode_blk ino" "x \<notin># F" using fs_wf_tree [OF wf k(1)] x ino by blast+
    show "x \<notin># file_tree c ino" using fs_wf_tree(3) [OF wf k(1) x ino] k(2) by simp
  qed
qed

text \<open>A walk to a block below the size overwrites that block of the file.\<close>

lemma fs_wf_walk:
  assumes wf: "fs_wf N c F" and ino: "ino < fs_inodes c"
    and off: "off < unat (file_size c ino)" and L: "L = file_levels (file_size c ino)"
    and len: "length (c (inode_blk ino)) = 512"
    and post: "walk_post N c c' L off blk F (inode_blk ino) (c (inode_blk ino)) (2 * (ino mod 64))"
  shows "\<exists>F'. F' \<subseteq># F \<and> size F \<le> size F' + Suc L \<and> fs_wf N c' F' \<and>
     fs_inodes c' = fs_inodes c \<and>
     (\<forall>k<fs_inodes c. fs_file c' k =
        (if k = ino then vfile_write (fs_file c ino) off blk else fs_file c k))"
proof -
  let ?ib = "inode_blk ino" and ?i = "2 * (ino mod 64)"
  have i128: "?i < 128" "?i + 1 < 128" using mod_less_divisor [of 64 ino] by linarith+
  obtain A r where A: "A \<subseteq># F" "size A \<le> Suc L" "free_ok N c' (F - A)"
      "n_inodeblocks (c' 0) = n_inodeblocks (c 0)"
    and r: "if file_root c ino = 0 then c' ?ib = set_ref (c ?ib) ?i r
            else r = file_root c ino \<and> c' ?ib = c ?ib"
    and blocks: "tree_blocks c' L r = file_tree c ino + A"
    and look: "\<And>off'. tree_lookup c' L r off' =
       (if off' mod 128 ^ L = off mod 128 ^ L then blk
        else tree_lookup c L (file_root c ino) off')"
    and frame: "\<And>x. x \<noteq> 0 \<Longrightarrow> x \<noteq> ?ib \<Longrightarrow> x \<notin># F \<Longrightarrow> x \<notin># file_tree c ino \<Longrightarrow> c' x = c x"
    using post unfolding walk_post_def file_root_def [symmetric] file_tree_def [folded L]
    by (auto simp: L file_tree_def)
  have fields: "get_ref (c' ?ib) j = (if j = ?i then r else get_ref (c ?ib) j)" if "j < 128" for j
    using r that i128 len by (auto simp: ref_simps file_root_def split: if_splits)
  have root: "file_root c' ino = r" and sz: "file_size c' ino = file_size c ino"
    using fields i128 by (simp_all add: file_root_def file_size_def)
  have bound: "off < 128 ^ L" unfolding L by (rule file_levels_bound [OF off])
  have new: "fs_file c' ino = vfile_write (fs_file c ino) off blk"
    using off bound look
    by (auto simp: fs_file_def vfile_write_def Let_def root sz L [symmetric] fun_eq_iff)
  have wf': "fs_wf N c ((F - A) + A)" using wf A(1) by simp
  have same: "file_root c' k = file_root c k \<and> file_size c' k = file_size c k"
    if "k < fs_inodes c" "k \<noteq> ino" for k
    by (rule other_inodes(1) [OF wf ino]) (use fields frame that in auto)
  have keep: "c' x = c x" if "k < fs_inodes c" "k \<noteq> ino" "x \<in># file_tree c k" for k x
    by (rule other_inodes(2) [OF wf ino _ _ that(1,2)]) (use fields frame that in auto)
  have tree: "file_tree c' ino = file_tree c ino + A"
    using blocks by (simp add: file_tree_def [of c'] root sz L)
  have null: "fdata (fs_file c' ino) o' = null_block" if "fsize (fs_file c' ino) \<le> o'" for o'
    using that wf ino off unfolding new by (auto simp: vfile_write_def fs_wf_def fs_file_def Let_def)
  note ch = fs_wf_change [OF wf' ino A(4) A(3) same keep tree null]
  have "size F \<le> size (F - A) + Suc L" using A(1,2) size_Diff_submset by force
  then show ?thesis
    using ch new by (intro exI [of _ "F - A"]) auto
qed

text \<open>
  Growing the tree of a file and writing back its inode with the new size extends the file with
  null blocks.
\<close>

lemma fs_wf_grow:
  assumes wf: "fs_wf N c F" and ino: "ino < fs_inodes c"
    and off: "unat (file_size c ino) \<le> unat off" "off + 1 \<noteq> 0"
    and len: "length (c (inode_blk ino)) = 512"
    and s: "inodeblock s = set_ref (c (inode_blk ino)) (2 * (ino mod 64) + 1) (off + 1)"
      "inode s = ino mod 64"
    and L: "L = file_levels (file_size c ino)"
    and post: "grow_post N c c2 s s2 L (count_levels off 0 - L) F"
    and c3: "c3 = c2(inode_blk ino := inodeblock s2)"
  shows "\<exists>F'. F' \<subseteq># F \<and> size F = size F' + (count_levels off 0 - L) \<and> fs_wf N c3 F' \<and>
     fs_inodes c3 = fs_inodes c \<and> file_size c3 ino = off + 1 \<and>
     (\<forall>k<fs_inodes c. fs_file c3 k =
        (if k = ino then (fs_file c ino)\<lparr>fsize := Suc (unat off)\<rparr> else fs_file c k))"
proof -
  let ?ib = "inode_blk ino" and ?i = "2 * (ino mod 64)" and ?La = "count_levels off 0"
  have i128: "?i < 128" "?i + 1 < 128" using mod_less_divisor [of 64 ino] by linarith+
  have root: "inode_root s = file_root c ino"
    using s len i128 by (simp add: inode_root_def file_root_def ref_simps)
  have LLa: "L + (?La - L) = ?La" using file_levels_le [OF off(1)] L by simp
  obtain A where A: "A \<subseteq># F" "size A = ?La - L" "free_ok N c2 (F - A)"
      "n_inodeblocks (c2 0) = n_inodeblocks (c 0)"
    and blocks: "tree_blocks c2 ?La (inode_root s2) = file_tree c ino + A"
    and look: "\<And>o'. o' < 128 ^ ?La \<Longrightarrow> tree_lookup c2 ?La (inode_root s2) o' =
        (if o' < 128 ^ L then tree_lookup c L (file_root c ino) o' else null_block)"
    and frame2: "\<And>x. x \<noteq> 0 \<Longrightarrow> x \<notin># F \<Longrightarrow> c2 x = c x"
    using post unfolding grow_post_def LLa root by (auto simp: file_tree_def L)
  have s2: "inode s2 = ino mod 64" "\<And>j. j < 128 \<Longrightarrow> j \<noteq> ?i \<Longrightarrow>
      get_ref (inodeblock s2) j = get_ref (inodeblock s) j"
    using post s by (auto simp: grow_post_def)
  have ib: "?ib \<noteq> 0" "?ib \<notin># F" "?ib \<notin># file_tree c ino"
    using inode_blk_bounds(3) [OF wf ino] fs_wf_tree [OF wf ino] ino by blast+
  have frame: "c3 x = c x" if "x \<noteq> 0" "x \<noteq> ?ib" "x \<notin># F" "x \<notin># file_tree c ino" for x
    using that frame2 c3 by simp
  have f: "file_root c3 ino = inode_root s2" "file_size c3 ino = off + 1"
    using s2 s i128 len by (simp_all add: c3 file_root_def file_size_def inode_root_def ref_simps)
  have notin: "?ib \<notin># tree_blocks c2 ?La (inode_root s2)"
    using ib A(1) unfolding blocks by (auto dest: mset_subset_eqD)
  then have up: "c3 x = c2 x" if "x \<in># tree_blocks c2 ?La (inode_root s2)" for x
    using that c3 by auto
  have La: "file_levels (off + 1) = ?La" by (rule file_levels_plus1 [OF off(2)])
  have usz: "unat (off + 1) = Suc (unat off)" using off(2) by (metis Suc_eq_plus1 unatSuc add.commute)
  have tree: "file_tree c3 ino = file_tree c ino + A"
    unfolding file_tree_def [of c3] f La blocks [symmetric] using up by (rule tree_cong(1))
  have data: "tree_lookup c3 ?La (inode_root s2) o' = tree_lookup c2 ?La (inode_root s2) o'" for o'
    using up by (rule tree_cong(2))
  have mono: "o' < 128 ^ ?La" if "o' < 128 ^ L" for o' :: nat
    by (rule less_le_trans [OF that]) (rule power_increasing, use LLa in linarith, simp)
  have new: "fs_file c3 ino = (fs_file c ino)\<lparr>fsize := Suc (unat off)\<rparr>"
    using look mono
    by (auto simp: fs_file_def Let_def f La data usz L [symmetric] fun_eq_iff)
  have free: "free_ok N c3 (F - A)"
    by (rule free_ok_cong [OF A(3)]) (use ib c3 in \<open>auto dest: in_diffD\<close>)
  have wf': "fs_wf N c ((F - A) + A)" using wf A(1) by simp
  have sb: "n_inodeblocks (c3 0) = n_inodeblocks (c 0)" using A(4) ib(1) c3 by simp
  have fields: "get_ref (c3 ?ib) j = get_ref (c ?ib) j" if "j < 128" "j \<noteq> ?i" "j \<noteq> ?i + 1" for j
    using that s2 s len i128 by (simp add: c3 ref_simps)
  have same: "file_root c3 k = file_root c k \<and> file_size c3 k = file_size c k"
    if "k < fs_inodes c" "k \<noteq> ino" for k
    by (rule other_inodes(1) [OF wf ino]) (use fields frame that in auto)
  have keep: "c3 x = c x" if "k < fs_inodes c" "k \<noteq> ino" "x \<in># file_tree c k" for k x
    by (rule other_inodes(2) [OF wf ino _ _ that(1,2)]) (use fields frame that in auto)
  have null: "fdata (fs_file c3 ino) o' = null_block" if "fsize (fs_file c3 ino) \<le> o'" for o'
    using that wf ino off unfolding new by (auto simp: fs_wf_def fs_file_def Let_def)
  note ch = fs_wf_change [OF wf' ino sb free same keep tree null]
  have "size F = size (F - A) + (?La - L)"
    using A(1,2) by (metis size_union subset_mset.diff_add)
  then show ?thesis
    using ch new f by (intro exI [of _ "F - A"]) auto
qed

text \<open>
  What a write leaves behind: one file changed as specified, the disk well-formed, and at most
  \<open>n\<close> blocks taken from the free list.
\<close>

definition write_post ::
  "nat \<Rightarrow> contents \<Rightarrow> contents \<Rightarrow> block_no multiset \<Rightarrow> nat \<Rightarrow> nat \<Rightarrow> block \<Rightarrow> nat \<Rightarrow> bool" where
  "write_post N c c' F ino off blk n \<longleftrightarrow>
     (\<exists>F'. F' \<subseteq># F \<and> size F \<le> size F' + n \<and> fs_wf N c' F' \<and>
        fs_inodes c' = fs_inodes c \<and>
        (\<forall>k<fs_inodes c. fs_file c' k =
           (if k = ino then vfile_write (fs_file c ino) off blk else fs_file c k)))"

lemma write_post_extend:
  assumes "write_post N c3 c' F1 ino off blk n" "F1 \<subseteq># F" "size F = size F1 + g"
    and "fs_inodes c3 = fs_inodes c" "ino < fs_inodes c" "fsize (fs_file c ino) \<le> off"
    and "\<forall>k<fs_inodes c. fs_file c3 k =
        (if k = ino then (fs_file c ino)\<lparr>fsize := Suc off\<rparr> else fs_file c k)"
  shows "write_post N c c' F ino off blk (g + n)"
proof -
  obtain F' where F': "F' \<subseteq># F1" "size F1 \<le> size F' + n" "fs_wf N c' F'"
      "fs_inodes c' = fs_inodes c3"
    and files: "\<And>k. k < fs_inodes c3 \<Longrightarrow> fs_file c' k =
       (if k = ino then vfile_write (fs_file c3 ino) off blk else fs_file c3 k)"
    using assms(1) by (auto simp: write_post_def)
  have "vfile_write ((fs_file c ino)\<lparr>fsize := Suc off\<rparr>) off blk = vfile_write (fs_file c ino) off blk"
    using assms(6) by (simp add: vfile_write_def)
  moreover have "F' \<subseteq># F" using F'(1) assms(2) by (rule subset_mset.order_trans)
  ultimately show ?thesis
    unfolding write_post_def using F' files assms(3-7) by (intro exI [of _ F']) auto
qed

section \<open>The methods of the file system\<close>

context treedisk_on
begin

lemma inode_blk_word: "1 + ino div of_nat INODES_PER_BLOCK = inode_blk (unat ino)"
proof -
  have "unat (ino div of_nat INODES_PER_BLOCK) = unat ino div 64" by (simp add: unat_div)
  then have "ino div of_nat INODES_PER_BLOCK = of_nat (unat ino div 64)"
    by (metis of_nat_unat ucast_id)
  then show ?thesis by (simp add: inode_blk_def)
qed

lemma snapshot_rule:
  assumes d: "inv d" and wf: "fs_wf nblk (content d) F"
    and Some: "\<And>d'. unat ino < fs_inodes (content d) \<Longrightarrow> inv d' \<Longrightarrow> content d' = content d \<Longrightarrow>
      Q (Some \<lparr>superblock = content d 0, inodeblock = content d (inode_blk (unat ino)),
               inode_blockno = inode_blk (unat ino), inode = unat ino mod 64\<rparr>, d')"
    and None: "\<And>d'. fs_inodes (content d) \<le> unat ino \<Longrightarrow> inv d' \<Longrightarrow> content d' = content d \<Longrightarrow>
      Q (None, d')"
  shows "owp (treedisk_get_snapshot ts ino d) Q"
proof -
  have pos: "unat (0 :: u32) < nblk" using wf by (simp add: fs_wf_def)
  have "unat (n_inodeblocks (content d 0) * of_nat INODES_PER_BLOCK) = fs_inodes (content d)"
    using wf by (simp add: fs_wf_def fs_inodes_def unat_word_ariths mult.commute)
  then have cmp: "n_inodeblocks (content d 0) * of_nat INODES_PER_BLOCK \<le> ino
      \<longleftrightarrow> fs_inodes (content d) \<le> unat ino"
    by (simp only: word_le_nat_alt)
  have md: "unat (ino mod of_nat INODES_PER_BLOCK) = unat ino mod 64" by (simp add: unat_mod)
  show ?thesis
    unfolding treedisk_get_snapshot_def owp_obind ts_below inode_blk_word
  proof (rule read_rule [OF d pos], goal_cases)
    case (1 d1)
    show ?case
    proof (cases "fs_inodes (content d) \<le> unat ino")
      case True
      then show ?thesis using 1 None cmp by simp
    next
      case False
      then have ib: "unat (inode_blk (unat ino)) < nblk"
        using inode_blk_bounds(2) [OF wf] by simp
      have "owp (st_read bs bino (inode_blk (unat ino)) (stack_junk ts) d1) (\<lambda>(r, ib, d).
          \<not> r < 0 \<and> Q (Some \<lparr>superblock = content d1 0, inodeblock = ib,
             inode_blockno = inode_blk (unat ino), inode = unat ino mod 64\<rparr>, d))"
        by (rule read_rule [OF 1(1) ib]) (use 1 Some False in auto)
      then show ?thesis
        using False 1 cmp md by (auto simp: Let_def elim!: owp_mono)
    qed
  qed
qed

lemma read_walk_ok:
  assumes "inv d" "\<And>x. x \<in># tree_blocks (content d) n b \<Longrightarrow> unat x < nblk"
  shows "owp (read_walk ts off n b buf d) (\<lambda>(r, blk, d').
     r = 0 \<and> blk = tree_lookup (content d) n b (unat off) \<and> inv d' \<and> content d' = content d)"
  using assms
proof (induction n arbitrary: b buf d)
  case 0
  then show ?case
    by (subst read_walk.simps) (auto intro!: read_rule)
next
  case (Suc n)
  show ?case
  proof (cases "b = 0")
    case True
    then show ?thesis using Suc.prems by (subst read_walk.simps) simp
  next
    case False
    let ?j = "ref_index off n"
    have bN: "unat b < nblk" using Suc.prems(2) False by simp
    have child: "tree_blocks (content d) n (get_ref (content d b) ?j)
        \<subseteq># tree_blocks (content d) (Suc n) b"
      by (rule tree_child_blocks [OF False]) (simp add: ref_index_eq)
    have IH: "owp (read_walk ts off n (get_ref (content d b) ?j) (content d b) d1)
        (\<lambda>(r, blk, d'). r = 0 \<and> blk = tree_lookup (content d) n (get_ref (content d b) ?j) (unat off)
           \<and> inv d' \<and> content d' = content d)" if "inv d1" "content d1 = content d" for d1
      using Suc.IH [of d1 "get_ref (content d b) ?j" "content d b"] that
        Suc.prems(2) mset_subset_eqD [OF child] by simp
    show ?thesis
      apply (subst read_walk.simps)
      apply (simp add: False)
      apply (rule read_rule [OF Suc.prems(1) bN])
      apply simp
      apply (rule owp_mono [OF IH])
      apply (auto simp: ref_index_eq)
      done
  qed
qed

text \<open>Reading a block: the data of the file below its size, an error otherwise.\<close>

lemma treedisk_read_ok:
  assumes "inv d" and wf: "fs_wf nblk (content d) F"
  shows "owp (treedisk_read ts ino off buf d) (\<lambda>(r, blk, d'). inv d' \<and> content d' = content d \<and>
     (if unat ino < fs_inodes (content d) \<and> unat off < fsize (fs_file (content d) (unat ino))
      then r = 0 \<and> blk = fdata (fs_file (content d) (unat ino)) (unat off)
      else r = - 1 \<and> blk = buf))"
  unfolding treedisk_read_def owp_obind
proof (rule snapshot_rule [OF assms], goal_cases)
  case (1 d1)
  let ?c = "content d" and ?i = "unat ino"
  let ?L = "file_levels (file_size ?c ?i)"
  have rt: "get_ref (?c (inode_blk ?i)) (2 * (?i mod 64)) = file_root ?c ?i"
    and sz: "get_ref (?c (inode_blk ?i)) (Suc (2 * (?i mod 64))) = file_size ?c ?i"
    by (simp_all add: file_root_def file_size_def)
  have "owp (read_walk ts off ?L (file_root ?c ?i) buf d1) (\<lambda>(r, blk, d').
     r = 0 \<and> blk = tree_lookup ?c ?L (file_root ?c ?i) (unat off) \<and> inv d' \<and> content d' = ?c)"
    using read_walk_ok [of d1 ?L "file_root ?c ?i" off buf] fs_wf_tree(4) [OF wf 1(1)] 1
    by (simp add: file_tree_def)
  then show ?case
    using 1 file_levels_bound [of "unat off" "file_size ?c ?i"]
    by (auto simp: inode_nblocks_def inode_root_def rt sz fs_file_def Let_def word_le_nat_alt
        elim!: owp_mono)
qed simp

lemma overwrite_ok:
  assumes d: "inv d" "superblock s = content d 0" and wf: "fs_wf nblk (content d) F"
    and ino: "ino < fs_inodes (content d)" and off: "unat off < unat (file_size (content d) ino)"
    and L: "L = file_levels (file_size (content d) ino)" "L < size F" and blk: "length blk = 512"
  shows "owp (write_walk ts off L s (inode_blk ino) (content d (inode_blk ino)) (2 * (ino mod 64)) d)
     (\<lambda>(b, s', d'). owp (st_write bs bino b blk d') (\<lambda>(r, d''). r = 0 \<and> inv d'' \<and>
       write_post nblk (content d) (content d'') F ino (unat off) blk (Suc L)))"
proof -
  let ?ib = "inode_blk ino" and ?i = "2 * (ino mod 64)"
  note ib = inode_blk_bounds [OF wf ino]
  have i128: "?i < 128" using mod_less_divisor [of 64 ino] by linarith
  have T: "tree_blocks (content d) L (get_ref (content d ?ib) ?i) = file_tree (content d) ino"
    by (simp add: file_tree_def file_root_def L)
  have len: "length (content d ?ib) = 512" using d(1) ib(2) by simp
  have free: "free_ok nblk (content d) F" using wf by (simp add: fs_wf_def)
  have ibF: "?ib \<notin># F" using fs_wf_tree(6) [OF wf ino _ ino] by blast
  have "owp (write_walk ts off L s ?ib (content d ?ib) ?i d)
     (\<lambda>(b, s', d'). owp (st_write bs bino b blk d') (\<lambda>(r, d''). r = 0 \<and> inv d'' \<and>
          walk_post nblk (content d) (content d'') L (unat off) blk F ?ib (content d ?ib) ?i))"
    by (rule write_walk_ok [OF d free L(2) len i128 ib(2,3) ibF])
       (use fs_wf_tree [OF wf ino] ino blk T in auto)
  then show ?thesis
    by (auto elim!: owp_mono simp: write_post_def dest!: fs_wf_walk [OF wf ino off L(1) len])
qed

end

definition write_cost :: "contents \<Rightarrow> nat \<Rightarrow> block_no \<Rightarrow> nat" where
  "write_cost c ino off =
     (let n = file_levels (file_size c ino);
          n' = (if off < file_size c ino then n else count_levels off 0)
      in (n' - n) + Suc n')"

lemma write_cost_le: "write_cost c ino off \<le> 11"
proof -
  have "file_levels (file_size c ino) \<le> 5" by (simp add: file_levels_def count_levels_le5)
  moreover have "count_levels off 0 \<le> 5" by (rule count_levels_le5)
  ultimately show ?thesis unfolding write_cost_def Let_def by (cases "off < file_size c ino") simp_all
qed

context treedisk_on
begin

text \<open>
  Writing a block updates one file as specified, keeps the disk well-formed and takes at most
  \<open>write_cost\<close> blocks from the free list.
\<close>

lemma treedisk_write_ok:
  assumes d: "inv d" and wf: "fs_wf nblk (content d) F"
    and ino: "unat ino < fs_inodes (content d)" and blk: "length blk = 512"
    and off: "off + 1 \<noteq> 0" and cost: "write_cost (content d) (unat ino) off \<le> size F"
  shows "owp (treedisk_write ts ino off blk d) (\<lambda>(r, d'). r = 0 \<and> inv d' \<and>
     write_post nblk (content d) (content d') F (unat ino) (unat off) blk
       (write_cost (content d) (unat ino) off))"
proof -
  let ?c = "content d" and ?i = "unat ino"
  let ?ib = "inode_blk ?i" and ?L = "file_levels (file_size ?c ?i)" and ?La = "count_levels off 0"
  let ?P = "\<lambda>n d'. inv d' \<and> write_post nblk ?c (content d') F ?i (unat off) blk n"
  note ib = inode_blk_bounds [OF wf ino]
  have len: "length (?c ?ib) = 512" using d ib(2) by simp
  have i128: "2 * (?i mod 64) < 128" "Suc (2 * (?i mod 64)) < 128"
    using mod_less_divisor [of 64 ?i] by linarith+
  have rt: "get_ref (?c ?ib) (2 * (?i mod 64)) = file_root ?c ?i"
    and sz: "get_ref (?c ?ib) (Suc (2 * (?i mod 64))) = file_size ?c ?i"
    by (simp_all add: file_root_def file_size_def)
  show ?thesis
    unfolding treedisk_write_def owp_obind
  proof (rule snapshot_rule [OF d wf], goal_cases)
    case (1 d1)
    let ?s = "\<lparr>superblock = ?c 0, inodeblock = ?c ?ib, inode_blockno = ?ib, inode = ?i mod 64\<rparr>"
    show ?case
    proof (cases "off < file_size ?c ?i")
      case True
      have "owp (write_walk ts off ?L ?s ?ib (?c ?ib) (2 * (?i mod 64)) d1)
        (\<lambda>(b, s', d'). owp (st_write bs bino b blk d') (\<lambda>(r, d''). r = 0 \<and> ?P (Suc ?L) d''))"
        using overwrite_ok [of d1 ?s F ?i off ?L blk] 1 wf ino True cost blk
        by (simp add: write_cost_def word_less_nat_alt)
      moreover have "\<not> file_size ?c ?i \<le> off" using True by simp
      ultimately show ?thesis
        using True
        by (auto simp: Let_def inode_nblocks_def sz write_cost_def elim!: owp_mono)
    next
      case False
      then have ge: "unat (file_size ?c ?i) \<le> unat off" by (simp add: word_less_nat_alt)
      have LLa: "?L \<le> ?La" by (rule file_levels_le [OF ge])
      let ?s1 = "set_inode_nblocks ?s (off + 1)"
      have s1: "superblock ?s1 = content d1 0" "inode ?s1 = ?i mod 64" "inode_blockno ?s1 = ?ib"
          "inodeblock ?s1 = set_ref (?c ?ib) (2 * (?i mod 64) + 1) (off + 1)"
          "length (inodeblock ?s1) = 512" "inode_nblocks ?s1 = off + 1"
          "inode_root ?s1 = file_root ?c ?i"
        using 1 len i128 rt
        by (simp_all add: set_inode_nblocks_def inode_nblocks_def inode_root_def ref_simps)
      define cst where "cst = ?La - ?L + Suc ?La"
      have "?La - ?L + Suc ?La \<le> size F" using cost False by (simp add: write_cost_def Let_def)
      then have cost': "?La - ?L \<le> size F" by linarith
      have "owp (grow_levels ts (?La - ?L) ?s1 d1) (\<lambda>(s2, d2). inv d2 \<and>
          grow_post nblk ?c (content d2) ?s1 s2 ?L (?La - ?L) F)"
        using grow_ok [of d1 ?s1 F "?La - ?L" ?L] 1 wf s1 cost' ib fs_wf_tree(2) [OF wf ino]
        by (simp add: fs_wf_def file_tree_def)
      moreover have "owp (st_write bs bino (inode_blockno s2) (inodeblock s2) d2) (\<lambda>(r, d3).
          0 \<le> r \<and> owp (write_walk ts off ?La s2 (inode_blockno s2) (inodeblock s2) (2 * inode s2) d3)
            (\<lambda>(b, s, d). owp (st_write bs bino b blk d)
              (\<lambda>(r, d). r = 0 \<and> ?P cst d)))"
        if g: "inv d2" "grow_post nblk ?c (content d2) ?s1 s2 ?L (?La - ?L) F" for s2 d2
      proof -
        have s2: "inode_blockno s2 = ?ib" "inode s2 = ?i mod 64" "superblock s2 = content d2 0"
            "length (inodeblock s2) = 512"
          using g(2) s1 by (auto simp: grow_post_def)
        show ?thesis
        proof (rule write_rule [OF g(1)], goal_cases)
          case (3 d3)
          obtain F1 where F1: "F1 \<subseteq># F" "size F = size F1 + (?La - ?L)"
              "fs_wf nblk (content d3) F1" "fs_inodes (content d3) = fs_inodes ?c"
              "file_size (content d3) ?i = off + 1"
              "\<forall>k<fs_inodes ?c. fs_file (content d3) k =
                (if k = ?i then (fs_file ?c ?i)\<lparr>fsize := Suc (unat off)\<rparr> else fs_file ?c k)"
            using fs_wf_grow [OF wf ino ge off len s1(4,2) refl g(2) 3(2) [unfolded s2(1)]] by blast
          have o1: "unat off < unat (off + 1)" using off by (metis lessI unatSuc add.commute)
          have "owp (write_walk ts off ?La s2 ?ib (content d3 ?ib) (2 * (?i mod 64)) d3)
            (\<lambda>(b, s', d'). owp (st_write bs bino b blk d') (\<lambda>(r, d''). r = 0 \<and> inv d'' \<and>
              write_post nblk (content d3) (content d'') F1 ?i (unat off) blk (Suc ?La)))"
            by (rule overwrite_ok [OF 3(1) _ F1(3)])
               (use s2 3 ib F1 ino o1 file_levels_plus1 [OF off] cost False blk
                in \<open>auto simp: write_cost_def Let_def\<close>)
          moreover have "write_post nblk ?c c' F ?i (unat off) blk cst"
            if "write_post nblk (content d3) c' F1 ?i (unat off) blk (Suc ?La)" for c'
            unfolding cst_def by (rule write_post_extend [OF that F1(1,2,4) ino _ F1(6)])
              (use ge in \<open>simp add: fs_file_def Let_def\<close>)
          ultimately show ?case
            using 3(2) s2 by (auto elim!: owp_mono)
        qed (use s2 ib in auto)
      qed
      ultimately have "owp (grow_levels ts (?La - ?L) ?s1 d1) (\<lambda>(s2, d2).
          owp (st_write bs bino (inode_blockno s2) (inodeblock s2) d2) (\<lambda>(r, d3).
          0 \<le> r \<and> owp (write_walk ts off ?La s2 (inode_blockno s2) (inodeblock s2) (2 * inode s2) d3)
            (\<lambda>(b, s, d). owp (st_write bs bino b blk d)
              (\<lambda>(r, d). r = 0 \<and> ?P cst d))))"
        by (auto elim!: owp_mono)
      moreover have "file_size ?c ?i \<le> off" using False by simp
      moreover have "(if ?L < ?La then ?La - ?L else 0) = ?La - ?L"
          "(if ?L < ?La then ?La else ?L) = ?La"
        using LLa by auto
      ultimately show ?thesis
        using False off s1
        by (auto simp: Let_def inode_nblocks_def sz write_cost_def cst_def elim!: owp_mono)
    qed
  qed (use ino in simp)
qed

end

section \<open>Sequences of operations\<close>

text \<open>The disk holds the files \<open>fs\<close>, and the blocks of \<open>F\<close> are free.\<close>

definition holds_files :: "nat \<Rightarrow> contents \<Rightarrow> (nat \<Rightarrow> vfile) \<Rightarrow> block_no multiset \<Rightarrow> bool" where
  "holds_files N c fs F \<longleftrightarrow> fs_wf N c F \<and> (\<forall>ino<fs_inodes c. fs_file c ino = fs ino)"

context treedisk_on
begin

lemma write_files_rule:
  assumes "inv d" "holds_files nblk (content d) fs F" "unat ino < fs_inodes (content d)"
    and "length blk = 512" "off + 1 \<noteq> 0" "11 \<le> size F"
    and Q: "\<And>d' F'. inv d' \<Longrightarrow> fs_inodes (content d') = fs_inodes (content d) \<Longrightarrow>
      size F \<le> size F' + 11 \<Longrightarrow>
      holds_files nblk (content d') (fs(unat ino := vfile_write (fs (unat ino)) (unat off) blk)) F' \<Longrightarrow>
      Q (0, d')"
  shows "owp (treedisk_write ts ino off blk d) Q"
proof -
  have wf: "fs_wf nblk (content d) F" using assms(2) by (simp add: holds_files_def)
  let ?n = "write_cost (content d) (unat ino) off"
  have n: "?n \<le> 11" by (rule write_cost_le)
  then have "?n \<le> size F" using assms(6) by simp
  note ok = treedisk_write_ok [OF assms(1) wf assms(3-5) this]
  show ?thesis
  proof (rule owp_mono [OF ok], clarify)
    fix d' assume d': "inv d'"
      "write_post nblk (content d) (content d') F (unat ino) (unat off) blk ?n"
    then obtain F' where F': "size F \<le> size F' + ?n" "fs_wf nblk (content d') F'"
      "fs_inodes (content d') = fs_inodes (content d)"
      "\<forall>k<fs_inodes (content d). fs_file (content d') k =
         (if k = unat ino then vfile_write (fs_file (content d) (unat ino)) (unat off) blk
          else fs_file (content d) k)"
      by (auto simp: write_post_def)
    have "holds_files nblk (content d') (fs(unat ino := vfile_write (fs (unat ino)) (unat off) blk)) F'"
      using F' assms(2,3) by (auto simp: holds_files_def)
    moreover have "size F \<le> size F' + 11" using F'(1) n by linarith
    ultimately show "Q (0, d')" using Q [OF d'(1) F'(3)] by blast
  qed
qed

text \<open>The methods report a bad inode number, and a write fails when no block is left.\<close>

lemma bad_inode:
  assumes "inv d" "fs_wf nblk (content d) F" "fs_inodes (content d) \<le> unat ino"
  shows "owp (treedisk_getsize ts ino d) (\<lambda>(r, d'). r = - 1 \<and> inv d' \<and> content d' = content d)"
    and "owp (treedisk_write ts ino off blk d) (\<lambda>(r, d'). r = - 1 \<and> inv d' \<and> content d' = content d)"
  unfolding treedisk_getsize_def treedisk_write_def owp_obind
  using assms(3) by (auto intro!: snapshot_rule [OF assms(1,2)])

lemma getsize_ok:
  assumes "inv d" "fs_wf nblk (content d) F" "unat ino < fs_inodes (content d)"
  shows "owp (treedisk_getsize ts ino d) (\<lambda>(r, d'). r = sint (file_size (content d) (unat ino)) \<and>
    inv d' \<and> content d' = content d)"
  unfolding treedisk_getsize_def owp_obind
  using assms(3)
  by (auto intro!: snapshot_rule [OF assms(1,2)] simp: inode_nblocks_def file_size_def)

lemma alloc_full:
  assumes "free_list (superblock s) = 0"
  shows "treedisk_alloc_block ts s d = Fatal ''treedisk_alloc_block: inode store is full''"
  using assms by (simp add: treedisk_alloc_block_def)

lemma write_full:
  assumes d: "inv d" and wf: "fs_wf nblk (content d) {#}" and ino: "unat ino < fs_inodes (content d)"
    and f: "file_root (content d) (unat ino) = 0" "file_size (content d) (unat ino) \<le> off"
  shows "treedisk_write ts ino off blk d = Fatal ''treedisk_alloc_block: inode store is full''"
proof -
  have "free_chain (content d) (free_list (content d 0)) {#}" using wf by (simp add: fs_wf_def free_ok_def)
  then have fl: "free_list (content d 0) = 0" using free_chain_empty by blast
  have ib: "unat (inode_blk (unat ino)) < nblk" using inode_blk_bounds(2) [OF wf ino] .
  have len: "length (content d (inode_blk (unat ino))) = 512" using d ib by simp
  have i128: "2 * (unat ino mod 64) + 1 < 128" by linarith
  show ?thesis unfolding treedisk_write_def
  proof (rule obind_Fatal_rule, rule snapshot_rule [OF d wf], goal_cases)
    case (1 d1)
    define s where "s = \<lparr>superblock = content d 0, inodeblock = content d (inode_blk (unat ino)),
        inode_blockno = inode_blk (unat ino), inode = unat ino mod 64\<rparr>"
    define s' where "s' = set_inode_nblocks s (off + 1)"
    have n: "inode_nblocks s = file_size (content d) (unat ino)"
      by (simp add: inode_nblocks_def file_size_def s_def)
    have s': "superblock s' = content d 0" "inode_blockno s' = inode_blk (unat ino)" "inode s' = unat ino mod 64"
      "length (inodeblock s') = 512" "get_ref (inodeblock s') (2 * inode s') = 0"
      using len i128 f(1) by (simp_all add: s'_def s_def set_inode_nblocks_def ref_simps file_root_def)
    have full: "treedisk_alloc_block ts s' d' = Fatal ''treedisk_alloc_block: inode store is full''" for d'
      by (rule alloc_full) (simp add: s'(1) fl)
    have walk: "write_walk ts off m s' p (inodeblock s') (2 * inode s') d' =
        Fatal ''treedisk_alloc_block: inode store is full''" for m p d'
      using s'(5) full by (subst write_walk.simps) simp
    have wr: "owp (st_write bs bino (inode_blockno s') (inodeblock s') d1) (\<lambda>(r, d'). \<not> r < 0)"
      by (rule write_rule) (use 1 ib s' in auto)
    have grow: "grow_levels ts (Suc m) s' d' = Fatal ''treedisk_alloc_block: inode store is full''" for m d'
      using full by simp
    let ?n = "file_levels (inode_nblocks s)" and ?m = "count_levels off 0"
    show ?case
    proof (cases "inode_nblocks s' \<noteq> 0 \<and> ?n < ?m")
      case True
      then obtain k where "?m - ?n = Suc k" by (metis Suc_diff_Suc)
      with True f(2) n grow show ?thesis
        by (simp add: Let_def s_def [symmetric] s'_def [symmetric])
    next
      case False
      have "obind (st_write bs bino (inode_blockno s') (inodeblock s') d1) g =
          Fatal ''treedisk_alloc_block: inode store is full''"
        if "\<And>r d'. \<not> r < 0 \<Longrightarrow> g (r, d') = Fatal ''treedisk_alloc_block: inode store is full''"
        for g :: "int \<times> 'd \<Rightarrow> (int \<times> 'd) outcome"
        by (rule obind_Fatal_rule, rule owp_mono [OF wr]) (use that in auto)
      with False f(2) n walk show ?thesis
        by (auto simp: Let_def s_def [symmetric] s'_def [symmetric])
    qed
  qed (use ino in simp_all)
qed

end

end
