(* ===== verification/Treedisk_Create.thy ===== *)
theory Treedisk_Create
  imports Treedisk_Files
begin

text \<open>
  Creating a file system: setup_freelist puts every data block on the free list, and
  treedisk_create leaves a well-formed disk on which every file is empty.
\<close>

section \<open>One block of the free list\<close>

lemma fill_refs_spec:
  assumes "fill_refs i nf nb data = (i', nf', data')" "length data = 512" "i \<le> 128"
    and "unat nf \<le> unat nb"
  shows "length data' = 512 \<and> i \<le> i' \<and> i' \<le> 128 \<and> unat nf' = unat nf + (i' - i) \<and>
     unat nf' \<le> unat nb \<and> (i' < 128 \<longrightarrow> nf' = nb) \<and>
     (\<forall>j<128. get_ref data' j =
        (if i \<le> j \<and> j < i' then nf + of_nat (j - i) else get_ref data j))"
  using assms
proof (induction i nf nb data rule: fill_refs.induct)
  case (1 i nf nb data)
  show ?case
  proof (cases "i < REFS_PER_BLOCK \<and> nf < nb")
    case True
    then have u: "unat (nf + 1) = unat nf + 1" "unat nf < unat nb"
      by (auto simp: unat_plus1_less word_less_nat_alt)
    from True have "fill_refs i nf nb data = fill_refs (i + 1) (nf + 1) nb (set_ref data i nf)"
      by (subst fill_refs.simps) simp
    with "1.prems"(1) have
      eq: "fill_refs (i + 1) (nf + 1) nb (set_ref data i nf) = (i', nf', data')" by simp
    have IH: "length data' = 512 \<and> i + 1 \<le> i' \<and> i' \<le> 128 \<and> unat nf' = unat (nf + 1) + (i' - (i + 1)) \<and>
       unat nf' \<le> unat nb \<and> (i' < 128 \<longrightarrow> nf' = nb) \<and>
       (\<forall>j<128. get_ref data' j =
          (if i + 1 \<le> j \<and> j < i' then nf + 1 + of_nat (j - (i + 1)) else get_ref (set_ref data i nf) j))"
      by (rule "1.IH" [OF True eq]) (use "1.prems" u True in simp_all)
    have "get_ref data' j = (if i \<le> j \<and> j < i' then nf + of_nat (j - i) else get_ref data j)"
      if "j < 128" for j
    proof -
      have step: "get_ref data' j = (if i + 1 \<le> j \<and> j < i' then nf + 1 + of_nat (j - (i + 1))
          else get_ref (set_ref data i nf) j)" and "i < i'" "i < 128"
        using IH that True by simp_all
      consider "j < i" | "j = i" | "i + 1 \<le> j" by linarith
      then show ?thesis
      proof cases
        case 3
        then have "of_nat (j - i) = (1 :: u32) + of_nat (j - (i + 1))"
          by (metis Suc_diff_Suc Suc_eq_plus1 less_eq_Suc_le of_nat_Suc)
        with 3 step that \<open>i < 128\<close> "1.prems"(2) show ?thesis by (simp add: ref_simps add.assoc)
      qed (use step that \<open>i < i'\<close> \<open>i < 128\<close> "1.prems"(2) in \<open>simp_all add: ref_simps\<close>)
    qed
    moreover have "unat nf' = unat nf + (i' - i)" "i \<le> i'" using IH u(1) by linarith+
    ultimately show ?thesis using IH by blast
  next
    case False
    then have "fill_refs i nf nb data = (i, nf, data)" by (subst fill_refs.simps) auto
    with "1.prems"(1) have [simp]: "i' = i" "nf' = nf" "data' = data" by simp_all
    have "nf = nb" if "i < 128"
      using False that "1.prems"(4) by (simp add: word_less_nat_alt word_unat_eq_iff)
    with "1.prems"(2-4) show ?thesis by auto
  qed
qed

lemma zero_refs_spec:
  assumes "length data = 512" "i \<le> 128"
  shows "length (zero_refs i data) = 512 \<and>
     (\<forall>j<128. get_ref (zero_refs i data) j = (if i \<le> j then 0 else get_ref data j))"
  using assms
proof (induction i data rule: zero_refs.induct)
  case (1 i data)
  show ?case
  proof (cases "i < REFS_PER_BLOCK")
    case True
    have eq: "zero_refs i data = zero_refs (i + 1) (set_ref data i 0)"
      using True by (subst zero_refs.simps) simp
    have IH: "length (zero_refs i data) = 512 \<and> (\<forall>j<128. get_ref (zero_refs i data) j =
        (if i + 1 \<le> j then 0 else get_ref (set_ref data i 0) j))"
      unfolding eq using "1.IH" [OF True] "1.prems" True by simp
    have "get_ref (zero_refs i data) j = (if i \<le> j then 0 else get_ref data j)" if "j < 128" for j
      using IH that "1.prems" True by (cases "j = i") (auto simp: ref_simps)
    with IH show ?thesis by auto
  next
    case False
    then have "zero_refs i data = data" by (subst zero_refs.simps) simp
    with False "1.prems" show ?thesis by simp
  qed
qed

lemma free_refs_range:
  fixes nf :: u32
  assumes refs: "\<And>j. 0 < j \<Longrightarrow> j < 128 \<Longrightarrow> get_ref blk j = (if j < i then nf + of_nat (j - 1) else 0)"
    and i: "0 < i" "i \<le> 128" and nf: "0 < unat nf" "unat nf + (i - 1) < 2 ^ 32"
  shows "free_refs blk = mset_set {b. unat nf \<le> unat b \<and> unat b < unat nf + (i - 1)}"
proof -
  define g where "g j = nf + of_nat (j - 1)" for j
  have u: "unat (g j) = unat nf + (j - 1)" if "j < i" for j
  proof -
    have "unat nf + (j - 1) < 2 ^ 32" using that nf(2) by linarith
    then show ?thesis by (simp add: g_def unat_word_ariths unat_of_nat take_bit_nat_eq_self)
  qed
  have inj: "inj_on g {1..<i}"
  proof (rule inj_onI)
    fix x y assume xy: "x \<in> {1..<i}" "y \<in> {1..<i}" "g x = g y"
    then have "unat nf + (x - 1) = unat nf + (y - 1)" using u [of x] u [of y] by simp
    moreover have "1 \<le> x" "1 \<le> y" using xy by simp_all
    ultimately show "x = y" by linarith
  qed
  have img: "g ` {1..<i} = {b. unat nf \<le> unat b \<and> unat b < unat nf + (i - 1)}"
  proof (intro equalityI subsetI)
    fix b :: block_no assume b: "b \<in> {b. unat nf \<le> unat b \<and> unat b < unat nf + (i - 1)}"
    let ?j = "unat b - unat nf + 1"
    have j: "?j \<in> {1..<i}" using b by auto
    then have "unat (g ?j) = unat b" using u [of ?j] b by auto
    then have "b = g ?j" by (simp add: word_unat_eq_iff)
    with j show "b \<in> g ` {1..<i}" by blast
  qed (use u in auto)
  have split: "[1..<128] = [1..<i] @ [i..<128]"
    using i upt_add_eq_append [of 1 i "128 - i"] by (metis One_nat_def Suc_leI le_add_diff_inverse)
  have fst: "map (get_ref blk) [1..<i] = map g [1..<i]" using refs i by (auto simp: g_def)
  have "g j \<noteq> 0" if "j \<in> {1..<i}" for j using u [of j] that nf(1) by auto
  then have keep: "filter (\<lambda>r. r \<noteq> 0) (map g [1..<i]) = map g [1..<i]"
    by (auto simp: filter_id_conv)
  have "filter (\<lambda>r. r \<noteq> 0) (map (get_ref blk) [i..<128]) = []"
    using refs i by (auto simp: filter_empty_conv)
  then have "free_refs blk = mset (map g [1..<i])"
    unfolding free_refs_def split map_append filter_append fst keep by (simp only: append_Nil2)
  also have "\<dots> = mset_set (g ` {1..<i})"
    using image_mset_mset_set [OF inj] by simp
  finally show ?thesis using img by simp
qed

definition block_range :: "nat \<Rightarrow> nat \<Rightarrow> block_no set" where
  "block_range m n = {b. m \<le> unat b \<and> unat b < n}"

lemma block_range_same [simp]: "block_range n n = {}"
  by (auto simp: block_range_def)

lemma mset_block_range:
  assumes "unat nf < m" "m \<le> n" "m = Suc (unat nf) + k"
  shows "mset_set (block_range (unat nf) n) =
    add_mset nf (mset_set (block_range (Suc (unat nf)) m) + mset_set (block_range m n))"
proof -
  have fin: "finite (block_range k l)" for k l by (rule finite_subset [of _ UNIV]) auto
  have "block_range (unat nf) n =
      insert nf (block_range (Suc (unat nf)) m \<union> block_range m n)"
    using assms by (auto simp: block_range_def word_unat_eq_iff)
  moreover have "nf \<notin> block_range (Suc (unat nf)) m \<union> block_range m n"
    using assms by (auto simp: block_range_def)
  moreover have "block_range (Suc (unat nf)) m \<inter> block_range m n = {}"
    by (auto simp: block_range_def)
  ultimately show ?thesis by (simp add: mset_set_Union fin)
qed

text \<open>What one iteration of setup_freelist writes.\<close>

lemma freelist_block_spec:
  assumes fill: "fill_refs 1 (nf + 1) nb (set_ref data 0 fb) = (i, nf', data')"
    and "length data = 512" "nf < nb"
  shows "length (zero_refs i data') = 512" "get_ref (zero_refs i data') 0 = fb"
    "free_refs (zero_refs i data') = mset_set (block_range (Suc (unat nf)) (unat nf'))"
    "unat nf < unat nf'" "unat nf' \<le> unat nb"
proof -
  have u: "unat (nf + 1) = Suc (unat nf)" "unat nf < unat nb"
    using assms(3) by (auto simp: unat_plus1_less word_less_nat_alt)
  have f: "length data' = 512 \<and> 1 \<le> i \<and> i \<le> 128 \<and> unat nf' = unat (nf + 1) + (i - 1) \<and>
     unat nf' \<le> unat nb \<and> (i < 128 \<longrightarrow> nf' = nb) \<and>
     (\<forall>j<128. get_ref data' j =
        (if 1 \<le> j \<and> j < i then nf + 1 + of_nat (j - 1) else get_ref (set_ref data 0 fb) j))"
    by (rule fill_refs_spec [OF fill]) (use assms(2) u in simp_all)
  have z: "length (zero_refs i data') = 512 \<and>
     (\<forall>j<128. get_ref (zero_refs i data') j = (if i \<le> j then 0 else get_ref data' j))"
    by (rule zero_refs_spec) (use f in simp_all)
  show "length (zero_refs i data') = 512" using z by simp
  show "get_ref (zero_refs i data') 0 = fb" using z f assms(2) by (simp add: ref_simps)
  show "unat nf < unat nf'" "unat nf' \<le> unat nb" using f u by auto
  have refs: "get_ref (zero_refs i data') j = (if j < i then nf + 1 + of_nat (j - 1) else 0)"
    if "0 < j" "j < 128" for j
  proof -
    have "get_ref (zero_refs i data') j = (if i \<le> j then 0 else get_ref data' j)"
      using z that(2) by simp
    moreover have "get_ref data' j =
        (if 1 \<le> j \<and> j < i then nf + 1 + of_nat (j - 1) else get_ref (set_ref data 0 fb) j)"
      using f that(2) by blast
    ultimately show ?thesis using that(1) by simp
  qed
  have bound: "unat (nf + 1) + (i - 1) < 2 ^ 32" using f unat_u32_bound [of nf'] by metis
  have "free_refs (zero_refs i data') =
      mset_set {b. unat (nf + 1) \<le> unat b \<and> unat b < unat (nf + 1) + (i - 1)}"
    by (rule free_refs_range [OF refs]) (use f u bound in simp_all)
  then show "free_refs (zero_refs i data') = mset_set (block_range (Suc (unat nf)) (unat nf'))"
    using f u unfolding block_range_def by metis
qed

section \<open>The free list of a new disk\<close>

context block_store
begin

lemma setup_freelist_ok:
  assumes "inv d" "unat nb = nblk" "unat nf \<le> unat nb" "0 < unat nf" "length data = 512"
    and "free_chain (content d) fb F" "\<forall>x\<in>#F. unat x < unat nf"
  shows "owp (setup_freelist bs bino fb nf nb data d) (\<lambda>(fl, d'). inv d' \<and>
     free_chain (content d') fl (F + mset_set (block_range (unat nf) (unat nb))) \<and>
     (\<forall>x. unat x < unat nf \<longrightarrow> content d' x = content d x))"
  using assms
proof (induction "unat nb - unat nf" arbitrary: fb nf data d F rule: less_induct)
  case less
  show ?case
  proof (cases "nf < nb")
    case False
    then have "unat nf = unat nb" using less.prems(3) by (simp add: word_less_nat_alt)
    with False less.prems show ?thesis
      by (subst setup_freelist.simps) simp
  next
    case True
    obtain i nf' data' where fill: "fill_refs 1 (nf + 1) nb (set_ref data 0 fb) = (i, nf', data')"
      by (metis prod_cases3)
    note blk = freelist_block_spec [OF fill less.prems(5) True]
    let ?blk = "zero_refs i data'"
    let ?F = "add_mset nf (mset_set (block_range (Suc (unat nf)) (unat nf')) + F)"
    have F': "\<forall>x\<in>#?F. unat x < unat nf'"
      using less.prems(7) blk(4) by (auto simp: block_range_def)
    have sum: "F + mset_set (block_range (unat nf) (unat nb)) =
        ?F + mset_set (block_range (unat nf') (unat nb))"
      using mset_block_range [of nf "unat nf'" "unat nb" "unat nf' - Suc (unat nf)"] blk(4,5) by simp
    have chain: "free_chain ((content d)(nf := ?blk)) nf ?F"
    proof -
      have "free_chain ((content d)(nf := ?blk)) fb F"
        by (rule free_chain_cong [OF less.prems(6)]) (use less.prems(7) in auto)
      then have "free_chain ((content d)(nf := ?blk)) nf
          (add_mset nf (free_refs (((content d)(nf := ?blk)) nf) + F))"
        by (intro chain_block) (use less.prems(4) blk(2) in auto)
      then show ?thesis using blk(3) by simp
    qed
    have rest: "owp (setup_freelist bs bino nf nf' nb ?blk d1) (\<lambda>(fl, d'). inv d' \<and>
       free_chain (content d') fl (F + mset_set (block_range (unat nf) (unat nb))) \<and>
       (\<forall>x. unat x < unat nf \<longrightarrow> content d' x = content d x))"
      if "inv d1" "content d1 = (content d)(nf := ?blk)" for d1
    proof (rule owp_mono [OF less.hyps])
      show "free_chain (content d1) nf ?F" using chain that(2) by simp
    qed (use less.prems(2,4) blk F' that sum in \<open>auto simp: ac_simps\<close>)
    have eq: "setup_freelist bs bino fb nf nb data d =
        obind (st_write bs bino nf ?blk d) (\<lambda>(r, d).
          if r < 0 then Fatal ''treedisk_setup_freelist''
          else setup_freelist bs bino nf nf' nb ?blk d)"
      using True fill by (subst setup_freelist.simps) (simp add: Let_def)
    have "unat nf < nblk" using True less.prems(2) by (simp add: word_less_nat_alt)
    then show ?thesis unfolding eq owp_obind
      by (intro write_rule less.prems(1) blk(1)) (simp_all add: rest)
  qed
qed

lemma clear_inodeblocks_ok:
  assumes "inv d" "unat i + k \<le> nblk"
  shows "owp (clear_inodeblocks bs bino k i d) (\<lambda>(r, d'). r = 0 \<and> inv d' \<and>
    content d' = (\<lambda>x. if unat i \<le> unat x \<and> unat x < unat i + k then null_block else content d x))"
  using assms
proof (induction k arbitrary: i d)
  case 0
  then show ?case by (auto simp: fun_eq_iff)
next
  case (Suc k)
  have u: "unat (i + 1) = Suc (unat i)"
    using Suc.prems(2) nblk_bound by (simp add: unat_word_ariths)
  have rest: "owp (clear_inodeblocks bs bino k (i + 1) d') (\<lambda>(r, d''). r = 0 \<and> inv d'' \<and>
      content d'' = (\<lambda>x. if unat i \<le> unat x \<and> unat x < unat i + Suc k then null_block else content d x))"
    if "inv d'" "content d' = (content d)(i := null_block)" for d'
    by (rule owp_mono [OF Suc.IH]) (use that u Suc.prems(2) in \<open>auto simp: fun_eq_iff word_unat_eq_iff\<close>)
  show ?case
    unfolding clear_inodeblocks.simps owp_obind
    by (rule write_rule) (use Suc.prems rest in auto)
qed

end

section \<open>The new file system\<close>

definition empty_file :: vfile where
  "empty_file = \<lparr>fsize = 0, fdata = (\<lambda>_. null_block)\<rparr>"

text \<open>Every data block is free and every file is empty.\<close>

definition new_fs :: "nat \<Rightarrow> nat \<Rightarrow> contents \<Rightarrow> bool" where
  "new_fs N nib c \<longleftrightarrow> fs_wf N c (mset_set (data_blocks N c)) \<and> fs_inodes c = 64 * nib \<and>
     (\<forall>ino<fs_inodes c. fs_file c ino = empty_file)"

lemma new_fsI:
  assumes c0: "c 0 = set_ref (set_ref null_block 0 nib) (Suc 0) fl"
    and cleared: "\<And>x. 1 \<le> unat x \<Longrightarrow> unat x \<le> unat nib \<Longrightarrow> c x = null_block"
    and chain: "free_chain c fl (mset_set (block_range (Suc (unat nib)) N))"
    and "unat nib < N" "64 * unat nib < 2 ^ 32"
  shows "new_fs N (unat nib) c"
proof -
  have nib: "n_inodeblocks (c 0) = nib" "free_list (c 0) = fl" using c0 by (simp_all add: ref_simps)
  have data: "data_blocks N c = block_range (Suc (unat nib)) N"
    by (auto simp: data_blocks_def block_range_def nib(1))
  have inodes: "fs_inodes c = 64 * unat nib" using nib(1) by (simp add: fs_inodes_def)
  have zero: "file_root c ino = 0" "file_size c ino = 0" if "ino < fs_inodes c" for ino
  proof -
    have "unat (inode_blk ino) = Suc (ino div 64)" using unat_inode_blk that inodes assms(5) by simp
    then have "c (inode_blk ino) = null_block"
      using cleared [of "inode_blk ino"] that inodes by (simp add: less_mult_imp_div_less mult.commute)
    moreover have "2 * (ino mod 64) + 1 < 128" by linarith
    ultimately show "file_root c ino = 0" "file_size c ino = 0"
      by (simp_all add: file_root_def file_size_def ref_simps)
  qed
  then have files: "fs_file c ino = empty_file" "file_tree c ino = {#}" if "ino < fs_inodes c" for ino
    using that by (simp_all add: fs_file_def file_tree_def empty_file_def Let_def fun_eq_iff)
  have fin: "finite (block_range k l)" for k l by (rule finite_subset [of _ UNIV]) auto
  have "free_ok N c (mset_set (block_range (Suc (unat nib)) N))"
    using chain nib(2) by (auto simp: free_ok_def count_mset_set' fin) (simp add: block_range_def)
  moreover have "(\<Sum>ino<fs_inodes c. file_tree c ino) = {#}" using files(2) by simp
  ultimately have "fs_wf N c (mset_set (data_blocks N c))"
    using assms(4,5) inodes nib(1) files(1) data by (simp add: fs_wf_def empty_file_def)
  then show ?thesis using inodes files(1) by (simp add: new_fs_def)
qed

definition create_inodeblocks :: "u32 \<Rightarrow> nat" where
  "create_inodeblocks nino = (unat nino + 63) div 64"

context block_store
begin

lemma create_blocks_word:
  assumes "unat nino + 63 < 2 ^ 32"
  shows "unat ((nino + of_nat INODES_PER_BLOCK - 1) div of_nat INODES_PER_BLOCK) = create_inodeblocks nino"
proof -
  have "nino + of_nat INODES_PER_BLOCK - 1 = 63 + nino" by simp
  moreover have "unat (63 + nino) = unat nino + 63" using assms by (simp add: unat_word_ariths)
  ultimately show ?thesis by (simp add: create_inodeblocks_def unat_div)
qed

lemma treedisk_create_ok:
  assumes d: "inv d" "n_inodeblocks (content d 0) = 0" and "length junk = 512"
    and nino: "unat nino + 63 < 2 ^ 32" and fits: "create_inodeblocks nino + 2 \<le> nblk"
  shows "owp (treedisk_create bs bino nino junk d)
    (\<lambda>(r, d'). r = 0 \<and> inv d' \<and> new_fs nblk (create_inodeblocks nino) (content d'))"
proof -
  define nib where "nib = (nino + of_nat INODES_PER_BLOCK - 1) div of_nat INODES_PER_BLOCK"
  have unib: "unat nib = create_inodeblocks nino" using create_blocks_word [OF nino] by (simp add: nib_def)
  have "unat (of_int (int nblk) :: u32) = nblk"
    using nblk_bound by (simp add: unat_of_nat take_bit_nat_eq_self)
  then obtain nb :: u32 where nb: "unat nb = nblk" "of_int (int nblk) = nb" by blast
  from nb(2) have nbw: "of_nat nblk = nb" by simp
  have u: "unat (nib + 1) = Suc (unat nib)" "unat (nib + 2) = unat nib + 2"
    using fits nblk_bound by (simp_all add: unat_word_ariths unib)
  have guard: "\<not> nb < nib + 2" using fits nb(1) u(2) unib by (simp add: word_less_nat_alt)
  have small: "64 * unat nib < 2 ^ 32" using nino by (simp add: unib create_inodeblocks_def)
  have clear: "owp (clear_inodeblocks bs bino (unat nib) 1 d3)
      (\<lambda>(r, d'). r = 0 \<and> inv d' \<and> new_fs nblk (unat nib) (content d'))"
    if d2: "free_chain (content d2) fl (mset_set (block_range (unat (nib + 1)) nblk))"
      and d3: "inv d3" "content d3 = (content d2)(0 := set_ref (set_ref null_block 0 nib) (Suc 0) fl)"
    for d2 d3 fl
  proof (rule owp_mono [OF clear_inodeblocks_ok [OF d3(1)]])
    show "unat (1 :: u32) + unat nib \<le> nblk" using fits unib by simp
    fix rd assume post: "case rd of (r, d') \<Rightarrow> r = 0 \<and> inv d' \<and> content d' = (\<lambda>x.
        if unat (1 :: u32) \<le> unat x \<and> unat x < unat (1 :: u32) + unat nib then null_block else content d3 x)"
    obtain r d4 where rd: "rd = (r, d4)" by fastforce
    have c4: "content d4 x = (if 1 \<le> unat x \<and> unat x \<le> unat nib then null_block
        else if x = 0 then set_ref (set_ref null_block 0 nib) (Suc 0) fl else content d2 x)" for x
      using post d3(2) by (auto simp: rd)
    have chain: "free_chain (content d4) fl (mset_set (block_range (Suc (unat nib)) nblk))"
    proof (rule free_chain_cong)
      show "free_chain (content d2) fl (mset_set (block_range (Suc (unat nib)) nblk))"
        using d2 u(1) by simp
      show "content d4 x = content d2 x" if "x \<in># mset_set (block_range (Suc (unat nib)) nblk)" for x
      proof -
        have "Suc (unat nib) \<le> unat x"
          using that by (cases "finite (block_range (Suc (unat nib)) nblk)") (auto simp: block_range_def)
        then show ?thesis using c4 [of x] by auto
      qed
    qed
    have "new_fs nblk (unat nib) (content d4)"
      by (rule new_fsI [OF _ _ chain]) (use c4 fits unib small in auto)
    then show "case rd of (r, d') \<Rightarrow> r = 0 \<and> inv d' \<and> new_fs nblk (unat nib) (content d')"
      using post by (simp add: rd)
  qed
  have build: "owp (setup_freelist bs bino 0 (nib + 1) nb junk d1) (\<lambda>(fl, d2).
      owp (st_write bs bino 0 (set_ref (set_ref null_block 0 nib) (Suc 0) fl) d2) (\<lambda>(r, d3).
      owp (if r < 0 then Ret (- 1, d3) else clear_inodeblocks bs bino (unat nib) 1 d3)
        (\<lambda>(r, d'). r = 0 \<and> inv d' \<and> new_fs nblk (unat nib) (content d'))))"
    if d1: "inv d1" for d1
  proof -
    have "owp (setup_freelist bs bino 0 (nib + 1) nb junk d1) (\<lambda>(fl, d'). inv d' \<and>
       free_chain (content d') fl ({#} + mset_set (block_range (unat (nib + 1)) (unat nb))) \<and>
       (\<forall>x. unat x < unat (nib + 1) \<longrightarrow> content d' x = content d1 x))"
      by (rule setup_freelist_ok) (use d1 nb u fits unib assms(3) in \<open>auto intro: chain_end\<close>)
    then show ?thesis
      by (rule owp_mono) (use fits nb(1) clear in \<open>auto intro!: write_rule\<close>)
  qed
  show ?thesis
    unfolding treedisk_create_def Let_def nib_def [symmetric] owp_obind
    apply (rule owp_mono [OF size_ok [OF d(1)]])
    apply (clarsimp simp: nbw guard owp_obind)
    apply (rule read_rule)
      apply assumption
    subgoal using fits by simp
    subgoal for d0 d1
      using build [of d1] d(2) unib by (auto simp: nbw owp_obind split_def elim!: owp_mono split: if_splits)
    done
qed

end

end
