(* ===== verification/Fs_Disk.thy ===== *)
theory Fs_Disk
  imports Sd_Correct Treedisk_Create
begin

text \<open>
  The inode store over the physical disk (library/file/disk.c), with the SD driver below it and the
  tree file system above it.
\<close>

section \<open>The store\<close>

text \<open>
  \<open>rd\<close> and \<open>wr\<close> are disk_read and disk_write of the earth interface.
\<close>

definition disk_getsize :: "u32 \<Rightarrow> 'd \<Rightarrow> (int \<times> 'd) outcome" where
  "disk_getsize ino d = Ret (int (FS_DISK_SIZE div BLOCK_SIZE), d)"

definition disk_setsize :: "u32 \<Rightarrow> block_no \<Rightarrow> 'd \<Rightarrow> (int \<times> 'd) outcome" where
  "disk_setsize ino n d = Fatal ''disk: cannot set the size''"

definition fs_disk_read :: "(u32 \<Rightarrow> u32 \<Rightarrow> 'd \<Rightarrow> (int \<times> byte list \<times> 'd) outcome) \<Rightarrow>
    u32 \<Rightarrow> block_no \<Rightarrow> block \<Rightarrow> 'd \<Rightarrow> (int \<times> block \<times> 'd) outcome" where
  "fs_disk_read rd ino offset buf d = rd (of_nat GRASS_FS_START + offset) 1 d"

definition fs_disk_write :: "(u32 \<Rightarrow> u32 \<Rightarrow> byte list \<Rightarrow> 'd \<Rightarrow> (int \<times> 'd) outcome) \<Rightarrow>
    u32 \<Rightarrow> block_no \<Rightarrow> block \<Rightarrow> 'd \<Rightarrow> (int \<times> 'd) outcome" where
  "fs_disk_write wr ino offset blk d = wr (of_nat GRASS_FS_START + offset) 1 blk d"

definition fs_disk_init :: "(u32 \<Rightarrow> u32 \<Rightarrow> 'd \<Rightarrow> (int \<times> byte list \<times> 'd) outcome) \<Rightarrow>
    (u32 \<Rightarrow> u32 \<Rightarrow> byte list \<Rightarrow> 'd \<Rightarrow> (int \<times> 'd) outcome) \<Rightarrow> 'd inode_store" where
  "fs_disk_init rd wr = \<lparr>st_getsize = disk_getsize, st_setsize = disk_setsize,
     st_read = fs_disk_read rd, st_write = fs_disk_write wr\<rparr>"

section \<open>Raw disks\<close>

locale raw_disk =
  fixes rd :: "u32 \<Rightarrow> u32 \<Rightarrow> 'd \<Rightarrow> (int \<times> byte list \<times> 'd) outcome"
    and wr :: "u32 \<Rightarrow> u32 \<Rightarrow> byte list \<Rightarrow> 'd \<Rightarrow> (int \<times> 'd) outcome"
    and content :: "'d \<Rightarrow> u32 \<Rightarrow> block"
    and N :: nat
    and inv :: "'d \<Rightarrow> bool"
  assumes rd_ok: "inv d \<Longrightarrow> unat b < N \<Longrightarrow> owp (rd b 1 d)
      (\<lambda>(r, bs, d'). r = 0 \<and> bs = content d b \<and> inv d' \<and> content d' = content d)"
    and wr_ok: "inv d \<Longrightarrow> unat b < N \<Longrightarrow> length bs = BLOCK_SIZE \<Longrightarrow> owp (wr b 1 bs d)
      (\<lambda>(r, d'). r = 0 \<and> inv d' \<and> content d' = (content d)(b := bs))"
    and blk_length: "inv d \<Longrightarrow> unat b < N \<Longrightarrow> length (content d b) = BLOCK_SIZE"
    and large: "GRASS_FS_START + FS_DISK_SIZE div BLOCK_SIZE \<le> N"

text \<open>The part of the disk that holds the file system.\<close>

definition fs_content :: "('d \<Rightarrow> u32 \<Rightarrow> block) \<Rightarrow> 'd \<Rightarrow> block_no \<Rightarrow> block" where
  "fs_content content d = (\<lambda>off. content d (of_nat GRASS_FS_START + off))"

lemma fs_offset: "unat off < 4096 \<Longrightarrow> unat (of_nat GRASS_FS_START + off :: u32) = 4096 + unat off"
  by (simp add: layout_defs unat_word_ariths)

lemma fs_content_upd: "(\<lambda>off. (c(of_nat GRASS_FS_START + x := b)) (of_nat GRASS_FS_START + off :: u32)) =
    (\<lambda>off. c (of_nat GRASS_FS_START + off))(x := b)"
  by auto

sublocale raw_disk \<subseteq> fs: block_store "fs_disk_init rd wr" 0 "fs_content content" 4096 inv
proof (unfold_locales, goal_cases)
  case (1 d)
  then show ?case by (simp add: fs_disk_init_def disk_getsize_def layout_defs)
next
  case (2 d off buf)
  then show ?case
    using rd_ok [OF 2(1), of "of_nat GRASS_FS_START + off"] large fs_offset [OF 2(2)]
    by (auto simp: fs_disk_init_def fs_disk_read_def fs_content_def layout_defs elim!: owp_mono)
next
  case (3 d off b)
  then show ?case
    using wr_ok [OF 3(1), of "of_nat GRASS_FS_START + off" b] large fs_offset [OF 3(2)]
    by (auto simp: fs_disk_init_def fs_disk_write_def fs_content_def fs_content_upd layout_defs elim!: owp_mono)
next
  case (4 d off)
  then show ?case
    using blk_length [OF 4(1), of "of_nat GRASS_FS_START + off"] large fs_offset [OF 4(2)]
    by (simp add: fs_content_def layout_defs)
qed simp

sublocale raw_disk \<subseteq> td: treedisk_on "fs_disk_init rd wr" 0 "fs_content content" 4096 inv
  "\<lparr>below = fs_disk_init rd wr, below_ino = 0, ninodes = 0, stack_junk = sj\<rparr>" for sj
  by unfold_locales simp_all

section \<open>The disk functions over a device\<close>

text \<open>The functions of earth/dev_disk.c as the pointers of the earth interface see them.\<close>

definition earth_disk_read :: "'c spi \<Rightarrow> disk_type \<Rightarrow> sd_type \<Rightarrow> mem \<Rightarrow> u32 \<Rightarrow> u32 \<Rightarrow> 'c \<Rightarrow> (int \<times> byte list \<times> 'c) outcome" where
  "earth_disk_read s type sdt rom b n c =
     (case disk_read_op s type sdt rom b n c of
        None \<Rightarrow> Fatal ''disk_read does not return'' | Some (Fatal e) \<Rightarrow> Fatal e
      | Some (Ret ((r, bs), c')) \<Rightarrow> Ret (r, bs, c'))"

definition earth_disk_write :: "'c spi \<Rightarrow> disk_type \<Rightarrow> sd_type \<Rightarrow> u32 \<Rightarrow> u32 \<Rightarrow> byte list \<Rightarrow> 'c \<Rightarrow> (int \<times> 'c) outcome" where
  "earth_disk_write s type sdt b n src c =
     (case disk_write_op s type sdt b n src c of
        None \<Rightarrow> Fatal ''disk_write does not return'' | Some (Fatal e) \<Rightarrow> Fatal e
      | Some (Ret (r, c')) \<Rightarrow> Ret (r, c'))"

lemma sd_raw_disk:
  assumes x: "spi_xfer s xf" and card: "sd_card xf idle ready content N sdt" and N: "8192 \<le> N" "N \<le> 2 ^ 32"
    and len: "\<And>c a. idle c \<Longrightarrow> unat a < N \<Longrightarrow> length (content c a) = 512"
  shows "raw_disk (earth_disk_read s SD_CARD sdt rom) (earth_disk_write s SD_CARD sdt) content N idle"
proof (unfold_locales, goal_cases)
  case (1 d b)
  have "unat b + 1 \<le> N" using 1(2) by simp
  from sdread_ok [OF x card 1(1) this N(2)] show ?case
    by (auto simp: earth_disk_read_def disk_read_op_def dbind_def)
next
  case (2 d b bs)
  have b: "unat b + 1 \<le> N" and l: "length bs = 512 * 1" using 2(2,3) by simp_all
  have "(\<lambda>x. if unat (x - b) < 1 then take 512 (drop (512 * unat (x - b)) bs) else content d x) = (content d)(b := bs)"
    using 2(3) by (auto simp: fun_eq_iff unat_eq_0)
  with sdwrite_ok [OF x card 2(1) b N(2) l] show ?case
    by (auto simp: earth_disk_write_def disk_write_op_def dbind_def)
qed (use len N in \<open>simp_all add: layout_defs\<close>)

section \<open>A card\<close>

text \<open>
  A card that follows the protocol: bytes to send, the command received so far, and a write in
  progress with its data.
\<close>

record card =
  c_blocks :: "u32 \<Rightarrow> byte list"
  c_out :: "byte list"
  c_cmd :: "byte list"
  c_write :: "(u32 \<times> byte list) option"
  c_rx :: byte

definition card_exec :: "byte list \<Rightarrow> card \<Rightarrow> card" where
  "card_exec cmd c =
     (let a = word32_of (cmd ! 4) (cmd ! 3) (cmd ! 2) (cmd ! 1) in
      if cmd ! 0 = 0x51 then c\<lparr>c_cmd := [], c_out := 0 # 0xFE # c_blocks c a @ [0, 0]\<rparr>
      else if cmd ! 0 = 0x58 then c\<lparr>c_cmd := [], c_out := [0], c_write := Some (a, [])\<rparr>
      else c\<lparr>c_cmd := [], c_out := [0]\<rparr>)"

definition card_xfer :: "byte \<Rightarrow> card \<Rightarrow> byte \<times> card" where
  "card_xfer b c =
     (case c_out c of
        x # xs \<Rightarrow> (x, c\<lparr>c_out := xs, c_rx := x\<rparr>)
      | [] \<Rightarrow> (0xFF,
          let c = c\<lparr>c_rx := 0xFF\<rparr> in
          case c_write c of
            Some (a, d) \<Rightarrow>
              if length d = 514
              then c\<lparr>c_blocks := (c_blocks c)(a := take 512 (drop 1 d)), c_write := None, c_out := [0xE5]\<rparr>
              else c\<lparr>c_write := Some (a, d @ [b])\<rparr>
          | None \<Rightarrow>
              if c_cmd c = [] \<and> b = 0xFF then c
              else if length (c_cmd c) = 5 then card_exec (c_cmd c @ [b]) c
              else c\<lparr>c_cmd := c_cmd c @ [b]\<rparr>))"

definition card_spi :: "card spi" where
  "card_spi = \<lparr>spi_load = (\<lambda>r c. (if r = SPI_RXDATA then ucast (c_rx c) else 0, c)),
     spi_store = (\<lambda>r v c. if r = SPI_TXDATA then snd (card_xfer (ucast v) c) else c)\<rparr>"

definition card_idle :: "card \<Rightarrow> bool" where
  "card_idle c \<longleftrightarrow> c_out c = [] \<and> c_cmd c = [] \<and> c_write c = None \<and> (\<forall>a. length (c_blocks c a) = 512)"

lemma card_xfer_rx: "c_rx (snd (card_xfer b c)) = fst (card_xfer b c)"
  by (simp add: card_xfer_def card_exec_def Let_def split: list.split option.split)

lemma ucast_byte_word: "ucast (ucast b :: u32) = (b :: byte)"
  by (auto intro!: bit_word_eqI simp: bit_simps)

lemma card_spi_xfer: "spi_xfer card_spi card_xfer"
  unfolding spi_xfer_def
proof (intro allI)
  fix b c
  have p: "poll (reg_load card_spi r) (\<lambda>v. \<not> bit v 31) c = Some (Ret (fst (spi_load card_spi r c), c))"
    if "\<not> bit (fst (spi_load card_spi r c)) 31" for r c
    using that by (subst poll.simps) (simp add: reg_load_def card_spi_def)
  have z: "\<not> bit (ucast x :: u32) 31" for x :: byte by (simp add: bit_ucast_iff bit_imp_le_length flip: not_le) (use bit_imp_le_length [of x 31] in auto)
  let ?c = "snd (card_xfer b c)"
  have "poll (reg_load card_spi SPI_TXDATA) (\<lambda>v. \<not> bit v 31) c = Some (Ret (0, c))"
    using p [of SPI_TXDATA c] by (simp add: card_spi_def SPI_TXDATA_def SPI_RXDATA_def)
  moreover have "reg_store card_spi SPI_TXDATA (ucast b) c = Some (Ret ((), ?c))"
    by (simp add: reg_store_def card_spi_def ucast_byte_word)
  moreover have "poll (reg_load card_spi SPI_RXDATA) (\<lambda>v. \<not> bit v 31) ?c = Some (Ret (ucast (fst (card_xfer b c)), ?c))"
    using p [of SPI_RXDATA ?c] z by (simp add: card_spi_def card_xfer_rx)
  ultimately show "send_data_byte card_spi b c = Some (Ret (card_xfer b c))"
    by (simp add: send_data_byte_def dbind_def ucast_byte_word)
qed

lemma card_receives:
  "c_out c = bs @ rest \<Longrightarrow> \<exists>c'. receives card_xfer c bs c' \<and> c_out c' = rest \<and> c_cmd c' = c_cmd c \<and>
     c_write c' = c_write c \<and> c_blocks c' = c_blocks c"
proof (induction bs arbitrary: c)
  case (Cons b bs)
  have x: "card_xfer 0xFF c = (b, c\<lparr>c_out := bs @ rest, c_rx := b\<rparr>)" using Cons.prems by (simp add: card_xfer_def)
  show ?case using Cons.IH [of "c\<lparr>c_out := bs @ rest, c_rx := b\<rparr>"] by (auto simp: x)
qed auto

lemma card_command:
  assumes "card_idle c" "b \<noteq> 0xFF"
  shows "sends card_xfer c (cmd_arg b a) = card_exec (cmd_arg b a) (c\<lparr>c_cmd := take 5 (cmd_arg b a), c_rx := 0xFF\<rparr>)"
  using assms by (simp add: sends_def cmd_arg_def card_xfer_def card_idle_def)

lemma card_collect:
  assumes "c_out c = []" "c_write c = Some (a, d)" "length d + length bs \<le> 514"
  shows "\<exists>c'. sends card_xfer c bs = c' \<and> c_out c' = [] \<and> c_cmd c' = c_cmd c \<and>
     c_write c' = Some (a, d @ bs) \<and> c_blocks c' = c_blocks c"
  using assms
proof (induction bs arbitrary: c d)
  case (Cons b bs)
  have "snd (card_xfer b c) = c\<lparr>c_rx := 0xFF, c_write := Some (a, d @ [b])\<rparr>"
    using Cons.prems by (simp add: card_xfer_def)
  then show ?case using Cons.IH [of "c\<lparr>c_rx := 0xFF, c_write := Some (a, d @ [b])\<rparr>" "d @ [b]"] Cons.prems
    by (auto simp: sends_def)
qed (simp add: sends_def)

lemma card_is_sd_card: "sd_card card_xfer card_idle card_idle c_blocks (2 ^ 32) SD_TYPE_SDHC"
  unfolding sd_card_def
proof (intro conjI allI impI)
  fix c assume c: "card_idle c"
  then show "\<exists>bs c'. 0xFF \<notin> set bs \<and> receives card_xfer c (bs @ [0xFF]) c' \<and> card_idle c' \<and> c_blocks c' = c_blocks c"
    by (intro exI [of _ "[]"]) (auto simp: card_xfer_def card_idle_def)
  fix a :: u32
  show "length (c_blocks c a) = 512" using c by (simp add: card_idle_def)
  have ad: "sd_address SD_TYPE_SDHC a = a" "word32_of (byte_of a 0) (byte_of a 1) (byte_of a 2) (byte_of a 3) = a"
    by (simp_all add: sd_address_def)
  let ?c1 = "sends card_xfer c (cmd_arg 0x51 a)"
  have "c_out ?c1 = (0 # 0xFE # c_blocks c a @ [0, 0]) @ []" "c_cmd ?c1 = []" "c_write ?c1 = None" "c_blocks ?c1 = c_blocks c"
    using card_command [OF c, of "0x51" a] c ad(2) by (simp_all add: card_exec_def cmd_arg_def Let_def card_idle_def)
  with card_receives [of ?c1 _ "[]"] obtain c' where "receives card_xfer ?c1 (0 # 0xFE # c_blocks c a @ [0, 0]) c'"
    "card_idle c'" "c_blocks c' = c_blocks c" using c by (fastforce simp: card_idle_def)
  then show "\<exists>n m x y c'. n < 8000 \<and> receives card_xfer (sends card_xfer c (cmd_arg 0x51 (sd_address SD_TYPE_SDHC a)))
      (replicate n 0xFF @ 0 # replicate m 0xFF @ 0xFE # c_blocks c a @ [x, y]) c' \<and> card_idle c' \<and> c_blocks c' = c_blocks c"
    unfolding ad(1) by (intro exI [of _ 0]) auto
  fix blk :: "byte list" assume blk: "length blk = 512"
  let ?c1 = "sends card_xfer c (cmd_arg 0x58 a)"
  have "c_out ?c1 = [0] @ []" "c_cmd ?c1 = []" "c_write ?c1 = Some (a, [])" "c_blocks ?c1 = c_blocks c"
    using card_command [OF c, of "0x58" a] c ad(2) by (simp_all add: card_exec_def cmd_arg_def Let_def card_idle_def)
  with card_receives [of ?c1 "[0]" "[]"] obtain c2 where c2: "receives card_xfer ?c1 [0] c2" "c_out c2 = []" "c_cmd c2 = []"
    "c_write c2 = Some (a, [])" "c_blocks c2 = c_blocks c" by auto
  from card_collect [OF c2(2,4), of "0xFE # blk @ [0xFF]"] blk obtain c3 where
    c3: "sends card_xfer c2 (0xFE # blk @ [0xFF]) = c3" "c_out c3 = []" "c_cmd c3 = []"
    "c_write c3 = Some (a, 0xFE # blk @ [0xFF])" "c_blocks c3 = c_blocks c" using c2(3,5) by auto
  let ?c4 = "sends card_xfer c2 (0xFE # blk @ [0xFF, 0xFF])"
  have "?c4 = snd (card_xfer 0xFF c3)" using c3(1) by (simp add: sends_def)
  then have c4: "?c4 = c3\<lparr>c_rx := 0xFF, c_blocks := (c_blocks c)(a := blk), c_write := None, c_out := [0xE5]\<rparr>"
    using c3 blk by (simp add: card_xfer_def)
  with card_receives [of ?c4 "[0xE5]" "[]"] obtain c' where "receives card_xfer ?c4 [0xE5] c'"
    "card_idle c'" "c_blocks c' = (c_blocks c)(a := blk)"
    using c c3(3) blk by (auto simp: card_idle_def)
  then show "\<exists>n m r c1 c'. n < 8000 \<and>
      receives card_xfer (sends card_xfer c (cmd_arg 0x58 (sd_address SD_TYPE_SDHC a))) (replicate n 0xFF @ [0]) c1 \<and>
      receives card_xfer (sends card_xfer c1 (0xFE # blk @ [0xFF, 0xFF])) (replicate m 0xFF @ [r]) c' \<and>
      r \<noteq> 0xFF \<and> r AND 0x1F = 5 \<and> card_idle c' \<and> c_blocks c' = (c_blocks c)(a := blk)"
    unfolding ad(1) using c2(1)
    by (intro exI [of _ 0] exI [of _ "0xE5"] exI [of _ c2] exI [of _ c']) simp
qed

interpretation card: raw_disk "earth_disk_read card_spi SD_CARD SD_TYPE_SDHC rom" "earth_disk_write card_spi SD_CARD SD_TYPE_SDHC"
  c_blocks "2 ^ 32" card_idle for rom
  by (rule sd_raw_disk [OF card_spi_xfer card_is_sd_card]) (simp_all add: card_idle_def)

end
