(* ===== verification/Spawn_Run.thy ===== *)
theory Spawn_Run
  imports Spawn_Correct Server_Calls Fs_Disk
begin

text \<open>
  The process server against the directory and file servers, and the start of the grass layer.
\<close>

section \<open>Servers that answer\<close>

text \<open>The server \<open>q\<close> answers the message \<open>m\<close> with \<open>rep\<close>; the call changes the state of devices only.\<close>

definition replies_with :: "'d kernel peers \<Rightarrow> ('d earth \<Rightarrow> bool) \<Rightarrow> int \<Rightarrow> byte list \<Rightarrow> byte list \<Rightarrow> bool" where
  "replies_with srv J q m rep \<longleftrightarrow> (\<forall>k. J (k_earth k) \<longrightarrow> owp (srv q m k) (\<lambda>(r, k').
     (\<exists>pad. r = Some (q, rep @ pad) \<and> length (rep @ pad) = 1024) \<and>
     (\<exists>d. J ((k_earth k)\<lparr>dev := d\<rparr>) \<and> k' = k\<lparr>k_earth := (k_earth k)\<lparr>dev := d\<rparr>\<rparr>)))"

lemma replies_withE:
  assumes "replies_with srv J q m rep" "J (k_earth k)"
  obtains pad d where "srv q m k = Ret (Some (q, rep @ pad), k\<lparr>k_earth := (k_earth k)\<lparr>dev := d\<rparr>\<rparr>)"
    "J ((k_earth k)\<lparr>dev := d\<rparr>)" "length (rep @ pad) = 1024"
  using assms by (fastforce simp: replies_with_def owp_iff)

lemma app_read_reads:
  fixes srv :: "'d kernel peers"
  assumes J: "\<And>e m t. J e \<Longrightarrow> J (e\<lparr>mem := m\<rparr>) \<and> J (e\<lparr>table := t\<rparr>)" and bf: "\<And>b :: u32. length (bf b) = 512" and jb: "length jb = 512"
    and r: "\<And>b :: u32. unat b < N \<Longrightarrow> replies_with srv J GPID_FILE (file_request FILE_READ (of_int ino) b jb) (file_reply FILE_OK (bf b))"
  shows "reads_file srv J (app_read jb ino) bf N"
  unfolding reads_file_def
proof (intro conjI allI impI)
  fix b :: u32 and old and k :: "'d kernel" assume b: "unat b < N" and k: "J (k_earth k)"
  obtain pad d where s: "srv GPID_FILE (file_request FILE_READ (of_int ino) b jb) k =
      Ret (Some (GPID_FILE, file_reply FILE_OK (bf b) @ pad), k\<lparr>k_earth := (k_earth k)\<lparr>dev := d\<rparr>\<rparr>)"
    "J ((k_earth k)\<lparr>dev := d\<rparr>)" "length (file_reply FILE_OK (bf b) @ pad) = 1024"
    by (rule replies_withE [OF r [OF b] k])
  have "run srv (app_read jb ino b old) (None, k) = Ret (bf b, (None, k\<lparr>k_earth := (k_earth k)\<lparr>dev := d\<rparr>\<rparr>))"
    using file_read_reply [where srv = srv and s = k, OF s(1) jb bf s(3)] by (simp add: app_read_def run_ibind)
  then show "owp (run srv (app_read jb ino b old) (None, k)) (\<lambda>(blk, p, k').
        blk = bf b \<and> p = None \<and> (\<exists>d. J ((k_earth k)\<lparr>dev := d\<rparr>) \<and> k' = k\<lparr>k_earth := (k_earth k)\<lparr>dev := d\<rparr>\<rparr>))"
    using s(2) by auto
qed (use J bf in simp_all)

lemma dir_lookup_run:
  assumes r: "replies_with srv J GPID_DIR (lookup_request jn ino nm) (dir_reply (if v = - 1 then DIR_ERROR else DIR_OK) (of_int v))"
    and nm: "0 \<notin> set nm" "length nm < 32" "length jn = 32" and v: "- 1 \<le> v" "v < 2 ^ 31" and k: "J (k_earth k)"
  shows "\<exists>d. J ((k_earth k)\<lparr>dev := d\<rparr>) \<and>
    run srv (dir_lookup jn ino (nm @ 0 # rest)) (None, k) = Ret (v, (None, k\<lparr>k_earth := (k_earth k)\<lparr>dev := d\<rparr>\<rparr>))"
proof -
  let ?st = "if v = - 1 then DIR_ERROR else DIR_OK"
  obtain pad d where s: "srv GPID_DIR (lookup_request jn ino nm) k =
      Ret (Some (GPID_DIR, dir_reply ?st (of_int v) @ pad), k\<lparr>k_earth := (k_earth k)\<lparr>dev := d\<rparr>\<rparr>)"
    "J ((k_earth k)\<lparr>dev := d\<rparr>)" "length (dir_reply ?st (of_int v) @ pad) = 1024"
    by (rule replies_withE [OF r k])
  have "run srv (dir_lookup jn ino (nm @ 0 # rest)) (None, k) = Ret (v, (None, k\<lparr>k_earth := (k_earth k)\<lparr>dev := d\<rparr>\<rparr>))"
    by (rule dir_lookup_reply [where srv = srv and s = k, OF s(1) nm v])
  then show ?thesis using s(2) by blast
qed

section \<open>A command line becomes a process\<close>

text \<open>The buffer of sys_proc when it has received a request to spawn the command of the words \<open>ws\<close>.\<close>

definition spawn_buf :: "byte list list \<Rightarrow> byte list \<Rightarrow> byte list" where
  "spawn_buf ws pad = proc_request_bytes \<lparr>req_type = PROC_SPAWN, req_argc = of_nat (length ws), req_argv = argv_bytes ws\<rparr> @ pad"

text \<open>The words as the shell sends them.\<close>

definition words_ok :: "byte list list \<Rightarrow> bool" where
  "words_ok ws \<longleftrightarrow> ws \<noteq> [] \<and> length ws \<le> 16 \<and> (\<forall>w\<in>set ws. 0 \<notin> set w \<and> w \<noteq> [] \<and> length w < 32)"

definition args_of :: "byte list list \<Rightarrow> nat" where
  "args_of ws = (if hd (last ws) = chr CHR ''&'' then length ws - 1 else length ws)"

lemma sint_small: "n \<le> 16 \<Longrightarrow> sint (of_nat n :: u32) = int n"
  using sint_sbintrunc' [of "int n", where 'a = 32] by (simp add: signed_take_bit_int_eq_self_iff)

lemma spawn_buf_fields:
  assumes "words_ok ws"
  shows "field32 (spawn_buf ws pad) 0 = PROC_SPAWN" "field32 (spawn_buf ws pad) 4 = of_nat (length ws)"
    "drop 8 (spawn_buf ws pad) = argv_bytes ws @ pad" "sint (field32 (spawn_buf ws pad) 4) = int (length ws)"
proof -
  have n: "length ws \<le> 16" using assms by (simp add: words_ok_def)
  show f: "field32 (spawn_buf ws pad) 4 = of_nat (length ws)" and "field32 (spawn_buf ws pad) 0 = PROC_SPAWN"
    "drop 8 (spawn_buf ws pad) = argv_bytes ws @ pad"
    using field32_app [of "word_bytes PROC_SPAWN" _ 0] by (simp_all add: spawn_buf_def proc_request_bytes_def)
  show "sint (field32 (spawn_buf ws pad) 4) = int (length ws)"
    unfolding f by (rule sint_small [OF n])
qed

lemma argv_bytes_first:
  assumes "words_ok ws"
  shows "\<exists>rest. argv_bytes ws @ pad = hd ws @ 0 # rest"
proof -
  obtain w vs where ws: "ws = w # vs" using assms by (cases ws) (auto simp: words_ok_def)
  then have "length w < 32" using assms by (simp add: words_ok_def)
  then have "32 - length w = Suc (31 - length w)" by simp
  then show ?thesis by (simp add: ws argv_bytes_def pad_word_def del: replicate_Suc) (simp add: ws)
qed

lemma last_arg_char_words:
  assumes w: "words_ok ws"
  shows "last_arg_char (of_nat (length ws)) (argv_bytes ws @ pad) = Ret (hd (last ws))"
proof -
  obtain us v where ws: "ws = us @ [v]" using w by (cases ws rule: rev_cases) (simp_all add: words_ok_def)
  have n: "length ws \<le> 16" and v: "v \<noteq> []" and us: "\<forall>u\<in>set us. length u \<le> 32"
    using w by (auto simp: words_ok_def ws)
  have "length (concat (map pad_word us)) = 32 * length us" by (rule length_pads [OF us])
  moreover have "argv_bytes ws = concat (map pad_word us) @ pad_word v @ replicate (512 - 32 * length ws) 0"
    by (simp add: argv_bytes_def ws)
  moreover have "pad_word v = hd v # tl v @ replicate (32 - length v) 0"
    using v by (simp add: pad_word_def flip: append_Cons)
  ultimately have "at (argv_bytes ws @ pad) (length us * 32) = Ret (hd v)" by (simp add: at_def nth_append)
  then show ?thesis using sint_small [OF n] by (simp add: last_arg_char_def CMD_ARG_LEN_def ws nat_add_distrib)
qed

text \<open>What the servers answer when /bin holds the executable \<open>bf\<close> as the file \<open>ino\<close> named \<open>nm\<close>.\<close>

definition serves_app :: "'d kernel peers \<Rightarrow> ('d earth \<Rightarrow> bool) \<Rightarrow> locals \<Rightarrow> byte list \<Rightarrow> int \<Rightarrow> (u32 \<Rightarrow> block) \<Rightarrow> nat \<Rightarrow> bool" where
  "serves_app srv J l nm ino bf N \<longleftrightarrow>
     (\<exists>bin. 0 \<le> bin \<and> bin < 2 ^ 31 \<and>
        replies_with srv J GPID_DIR (lookup_request (name_buf l) 0 (chars ''bin/'')) (dir_reply DIR_OK (of_int bin)) \<and>
        replies_with srv J GPID_DIR (lookup_request (name_buf l) bin nm) (dir_reply DIR_OK (of_int ino))) \<and>
     (\<forall>b. length (bf b) = 512 \<and> (unat b < N \<longrightarrow>
        replies_with srv J GPID_FILE (file_request FILE_READ (of_int ino) b (block_buf l)) (file_reply FILE_OK (bf b))))"

definition locals_ok :: "locals \<Rightarrow> bool" where
  "locals_ok l \<longleftrightarrow> length (elf_buf l) = 512 \<and> length (name_buf l) = 32 \<and> length (block_buf l) = 512"

text \<open>The state of the devices does not matter to the invariants.\<close>

abbreviation with_dev :: "'d kernel \<Rightarrow> 'd \<Rightarrow> 'd kernel" where
  "with_dev k d \<equiv> k\<lparr>k_earth := (k_earth k)\<lparr>dev := d\<rparr>\<rparr>"

lemma page_of_dev [simp]: "page_view qemu_frame (e\<lparr>dev := d\<rparr>) f = page_view qemu_frame e f"
  by (simp add: page_view_def qemu_frame_def)

lemma arg_frame_dev [simp]: "arg_frame (e\<lparr>dev := d\<rparr>) pid f = arg_frame e pid f"
  by (simp add: arg_frame_def)

lemma sys_ok_dev: "sys_ok k \<Longrightarrow> sys_ok (with_dev k d)"
  by (simp add: trap_ok_def kernel_ok_def kernel_wf_def on_qemu_def vm_wf_def)

lemma frames_owned_dev: "frames_owned k \<Longrightarrow> frames_owned (with_dev k d)"
  by (simp add: frames_owned_def)

lemma can_spawn_dev: "can_spawn k i \<Longrightarrow> can_spawn (with_dev k d) i"
  by (simp add: can_spawn_def nfree_def)

lemma spawned_dev: "spawned (with_dev k d) i st argc argv img k' \<longleftrightarrow> spawned k i st argc argv img k'"
  by (simp add: spawned_def new_proc_def)

lemma lookup_in_bin:
  assumes r: "replies_with srv J GPID_DIR (lookup_request (name_buf l) 0 (chars ''bin/'')) (dir_reply DIR_OK (of_int bin))"
      "replies_with srv J GPID_DIR (lookup_request (name_buf l) bin nm) (dir_reply (if ino = - 1 then DIR_ERROR else DIR_OK) (of_int ino))"
    and k: "J (k_earth k)" and l: "locals_ok l"
    and n: "0 \<le> bin" "bin < 2 ^ 31" "0 \<notin> set nm" "length nm < 32" "- 1 \<le> ino" "ino < 2 ^ 31"
  obtains d d' where "J ((k_earth k)\<lparr>dev := d'\<rparr>)"
    "run srv (dir_lookup (name_buf l) 0 (chars ''bin/'' @ [0])) (None, k) = Ret (bin, (None, with_dev k d))"
    "run srv (dir_lookup (name_buf l) bin (nm @ 0 # rest)) (None, with_dev k d) = Ret (ino, (None, with_dev k d'))"
proof -
  have b: "bin \<noteq> - 1" "- 1 \<le> bin" using n by simp_all
  have c: "0 \<notin> set (chars ''bin/'')" "length (chars ''bin/'') < 32" "length (name_buf l) = 32"
    using l by (simp_all add: locals_ok_def chr_def)
  obtain d where d: "J ((k_earth k)\<lparr>dev := d\<rparr>)"
    "run srv (dir_lookup (name_buf l) 0 (chars ''bin/'' @ [0])) (None, k) = Ret (bin, (None, with_dev k d))"
    using dir_lookup_run [where nm = "chars ''bin/''" and ino = 0 and rest = "[]", OF _ c b(2) n(2), of srv J, OF _ k] r(1) b(1) by auto
  then have k1: "J (k_earth (with_dev k d))" by simp
  obtain d' where d': "J ((k_earth k)\<lparr>dev := d'\<rparr>)"
    "run srv (dir_lookup (name_buf l) bin (nm @ 0 # rest)) (None, with_dev k d) = Ret (ino, (None, with_dev k d'))"
    using dir_lookup_run [where ino = bin and rest = rest, OF r(2) n(3,4) c(3) n(5,6) k1] by auto
  show thesis by (rule that [OF d'(1) d(2) d'(2)])
qed

lemma app_spawn_run:
  assumes ok: "sys_ok k" "frames_owned k" "can_spawn k i"
    and J: "\<And>e m t. J e \<Longrightarrow> J (e\<lparr>mem := m\<rparr>) \<and> J (e\<lparr>table := t\<rparr>)" "J (k_earth k)"
    and l: "locals_ok l" and ws: "words_ok ws" and app: "serves_app srv J l (hd ws) ino bf N" "0 \<le> ino" "ino < 2 ^ 31"
    and x: "app_executable bf ph" "0 < N" "unat (p_offset ph) + unat (p_filesz ph) \<le> 512 * N"
  shows "owp (run srv (app_spawn l (spawn_buf ws pad) v) (None, k)) (\<lambda>((r, v'), p, k').
    r = 0 \<and> v' = v\<lparr>app_ino := ino, app_pid := int (unat (proc_nprocs k)) + 1\<rparr> \<and>
    p = None \<and> sys_ok k' \<and> frames_owned k' \<and> J (k_earth k') \<and>
    spawned k i PROC_READY (args_of ws) (argv_bytes ws @ pad) (segment_page bf (p_offset ph div 512) (unat (p_filesz ph))) k')"
proof -
  let ?b = "spawn_buf ws pad" and ?n = "int (unat (proc_nprocs k)) + 1"
  have w: "0 \<notin> set (hd ws)" "length (hd ws) < 32" "args_of ws \<le> 16" "ws \<noteq> []" "args_of ws \<le> length ws"
    using ws by (auto simp: words_ok_def args_of_def)
  note f = spawn_buf_fields [OF ws, of pad]
  obtain rest where rest: "drop 8 ?b = hd ws @ 0 # rest" using argv_bytes_first [OF ws, of pad] f(3) by auto
  obtain bin d d' where k1: "J ((k_earth k)\<lparr>dev := d'\<rparr>)"
    and d: "run srv (dir_lookup (name_buf l) 0 (chars ''bin/'' @ [0])) (None, k) = Ret (bin, (None, with_dev k d))"
      "run srv (dir_lookup (name_buf l) bin (drop 8 ?b)) (None, with_dev k d) = Ret (ino, (None, with_dev k d'))"
  proof -
    obtain bin where bin: "0 \<le> bin" "bin < 2 ^ 31"
      and q: "replies_with srv J GPID_DIR (lookup_request (name_buf l) 0 (chars ''bin/'')) (dir_reply DIR_OK (of_int bin))"
        "replies_with srv J GPID_DIR (lookup_request (name_buf l) bin (hd ws)) (dir_reply (if ino = - 1 then DIR_ERROR else DIR_OK) (of_int ino))"
      using app(1,2) by (auto simp: serves_app_def)
    have "- 1 \<le> ino" using app(2) by simp
    from lookup_in_bin [OF q J(2) l bin w(1,2) this app(3), of rest] that show thesis unfolding rest by blast
  qed
  have rd: "reads_file srv J (app_read (block_buf l) ino) bf N"
    using app(1) l by (intro app_read_reads J(1)) (auto simp: serves_app_def locals_ok_def)
  have ok': "sys_ok (with_dev k d')" "frames_owned (with_dev k d')" "can_spawn (with_dev k d') i" "J (k_earth (with_dev k d'))"
    using ok k1 by (simp_all add: sys_ok_dev frames_owned_dev can_spawn_dev)
  have av: "args_valid (args_of ws) (Some (drop 8 ?b))"
  proof -
    have "\<forall>w\<in>set ws. length w \<le> 32" using ws by (auto simp: words_ok_def)
    from length_pads [OF this] show ?thesis using w(3,5) by (simp add: args_valid_def f(3) argv_bytes_def)
  qed
  have c: "last_arg_char (field32 ?b 4) (drop 8 ?b) = Ret (hd (last ws))" using last_arg_char_words [OF ws] by (simp add: f)
  have n: "unat (proc_nprocs k) + 1 < 2 ^ 31" and fp: "find_proc (\<lambda>p. p_status p = PROC_UNUSED) 0 (proc_set k) = Some i"
    using ok(3) by (simp_all add: can_spawn_def)
  have argc: "(if hd (last ws) = chr CHR ''&'' then int (length ws) - 1 else int (length ws)) = int (args_of ws)"
    using w(4) by (simp add: args_of_def of_nat_diff Suc_leI)
  let ?k1 = "(with_dev k d')\<lparr>proc_nprocs := proc_nprocs k + 1, proc_set := (proc_set k)[i := new_proc (with_dev k d') (proc_set k ! i)]\<rparr>"
  have al: "proc_alloc (with_dev k d') = Ret (?n, ?k1)"
    using alloc_sys_ok(1) [OF ok'(1), of i, OF _ _ refl] n fp by simp
  have "owp (run srv (ibind (elf_load ?n (app_read (block_buf l) ino) (int (args_of ws)) (Some (drop 8 ?b)) (elf_buf l)) (\<lambda>_. set_ready ?n)) (None, ?k1))
    (\<lambda>(_, p, k'). p = None \<and> sys_ok k' \<and> frames_owned k' \<and> J (k_earth k') \<and>
      spawned (with_dev k d') i PROC_READY (args_of ws) (args_given (args_of ws) (Some (drop 8 ?b)))
        (segment_page bf (p_offset ph div 512) (unat (p_filesz ph))) k')"
    by (rule load_ready_ok [OF ok'(1-3) rd ok'(4) x(1) av _ x(2,3)]) (use l in \<open>simp_all add: locals_ok_def\<close>)
  moreover have i: "(ino < 0) = False" using app(2) by simp
  have "run srv (app_spawn l ?b v) (None, k) = obind (run srv (ibind (elf_load ?n (app_read (block_buf l) ino) (int (args_of ws))
      (Some (drop 8 ?b)) (elf_buf l)) (\<lambda>_. set_ready ?n)) (None, ?k1)) (\<lambda>(_, s). Ret ((0, v\<lparr>app_ino := ino, app_pid := ?n\<rparr>), s))"
    unfolding app_spawn_def run_ibind d al run_act run_pure c f(4) argc Let_def obind.simps prod.case i if_False
    by (auto simp: obind_assoc split: prod.split intro!: obind_cong)
  ultimately show ?thesis by (auto simp: owp_iff spawned_dev args_given_def f(3))
qed

text \<open>A name that is not in /bin.\<close>

lemma app_spawn_unknown_run:
  assumes J: "J (k_earth k)" and l: "locals_ok l" and ws: "words_ok ws" and bin: "0 \<le> bin" "bin < 2 ^ 31"
    and r: "replies_with srv J GPID_DIR (lookup_request (name_buf l) 0 (chars ''bin/'')) (dir_reply DIR_OK (of_int bin))"
      "replies_with srv J GPID_DIR (lookup_request (name_buf l) bin (hd ws)) (dir_reply DIR_ERROR (- 1))"
  shows "\<exists>d. run srv (app_spawn l (spawn_buf ws pad) v) (None, k) = Ret ((- 1, v\<lparr>app_ino := - 1\<rparr>), (None, with_dev k d))"
proof -
  have w: "0 \<notin> set (hd ws)" "length (hd ws) < 32" using ws by (auto simp: words_ok_def)
  obtain rest where rest: "drop 8 (spawn_buf ws pad) = hd ws @ 0 # rest"
    using argv_bytes_first [OF ws, of pad] spawn_buf_fields [OF ws, of pad] by auto
  obtain d d' where d: "run srv (dir_lookup (name_buf l) 0 (chars ''bin/'' @ [0])) (None, k) = Ret (bin, (None, with_dev k d))"
    "run srv (dir_lookup (name_buf l) bin (hd ws @ 0 # rest)) (None, with_dev k d) = Ret (- 1, (None, with_dev k d'))"
    by (rule lookup_in_bin [where ino = "- 1" and rest = rest, OF r(1) _ J l bin w]) (use r(2) in simp_all)
  have i: "((- 1 :: int) < 0) = True" by simp
  show ?thesis unfolding app_spawn_def run_ibind rest d Let_def obind.simps prod.case i if_True run.simps by blast
qed

section \<open>The first process\<close>

text \<open>
  The state in which main of the grass layer starts: the process table and the frame table are
  zero, and no process is mapped.
\<close>

definition zero_proc :: process where
  "zero_proc = \<lparr>p_pid = 0, p_status = PROC_UNUSED, p_mepc = 0, saved_register = replicate SAVED_REGISTER_NUM 0, receiver_pid = 0\<rparr>"

definition boot_state :: "'d kernel \<Rightarrow> bool" where
  "boot_state k \<longleftrightarrow> proc_set k = replicate 8 zero_proc \<and> proc_curr_idx k = 0 \<and> proc_nprocs k = 0 \<and>
     on_qemu (k_earth k) \<and> table (k_earth k) = replicate 256 zero_mapping \<and> curr_vm_pid (k_earth k) = - 1"

definition first_procs :: "process list" where
  "first_procs = zero_proc\<lparr>p_pid := 1, p_status := PROC_RUNNING\<rparr> # replicate 7 zero_proc"

lemma first_procs_nth: "j < 8 \<Longrightarrow> first_procs ! j = (if j = 0 then zero_proc\<lparr>p_pid := 1, p_status := PROC_RUNNING\<rparr> else zero_proc)"
  by (simp add: first_procs_def nth_Cons')

lemma first_procs_wf: "procs_wf first_procs 1"
  by (auto simp: procs_wf_def first_procs_nth zero_proc_def SAVED_REGISTER_NUM_def) (auto simp: first_procs_def zero_proc_def SAVED_REGISTER_NUM_def)

lemma first_alloc:
  assumes "boot_state k"
  shows "proc_alloc (k\<lparr>k_earth := e\<rparr>) = Ret (1, k\<lparr>k_earth := e, proc_nprocs := 1, proc_set := first_procs[0 := zero_proc\<lparr>p_pid := 1, p_status := PROC_LOADING\<rparr>]\<rparr>)"
    "proc_set_running 1 (k\<lparr>k_earth := e, proc_nprocs := 1, proc_set := first_procs[0 := zero_proc\<lparr>p_pid := 1, p_status := PROC_LOADING\<rparr>]\<rparr>) =
      k\<lparr>k_earth := e, proc_nprocs := 1, proc_set := first_procs\<rparr>"
  using assms
  by (simp_all add: boot_state_def proc_alloc_def eval_nat_numeral zero_proc_def first_procs_def Let_def proc_set_running_def proc_set_status_def set_status_def)

lemma area_outside: "p \<noteq> ARTY \<Longrightarrow> x \<in> kernel_area p \<Longrightarrow> x \<notin> qemu_store"
  by (auto simp: kernel_area_def in_region_nat in_qemu_store layout_defs)

lemma first_vm_wf_area:
  assumes k: "boot_state k" and l: "loaded (k_earth k) 1 L e" and img: "app_image argc argv img L"
  shows "vm_wf (qemu_store \<union> kernel_area (platform e)) e" "platform e \<noteq> ARTY" "used e i \<Longrightarrow> fm_pid (table e ! i) = 1"
proof -
  note f = loaded_frames [OF l] and p = app_image_pages [OF img]
  have un: "\<not> used (k_earth k) i" for i using k by (simp add: boot_state_def zero_mapping_def)
  show pl: "platform e \<noteq> ARTY"
    using loaded_on_qemu [OF l] by (simp add: on_qemu_def)
  let ?S = "qemu_store \<union> kernel_area (platform e)"
  have "length (table (k_earth k)) = 256" using k by (simp add: boot_state_def)
  then have wf0: "vm_wf ?S (k_earth k)" unfolding vm_wf_def using un by blast
  show "vm_wf ?S e"
    by (rule loaded_vm_wf [OF l wf0 _ _ p(3)]) (use un p(2) app_page_clear pl in auto)
  show "fm_pid (table e ! i) = 1" if "used e i" for i using f(4) [OF that] un f(3) by blast
qed

lemma first_vm_wf:
  assumes "boot_state k" "loaded (k_earth k) 1 L e" "app_image argc argv img L"
  shows "vm_wf qemu_store e"
  using first_vm_wf_area(1) [OF assms] by (simp add: vm_wf_def page_clear_def)

lemma first_mapped:
  assumes k: "boot_state k" and l: "loaded (k_earth k) 1 L e" and img: "app_image argc argv img L"
    and s: "same_pages qemu_frame qemu_store e e'" "on_qemu e'" "curr_vm_pid e' = 1"
    and k': "k' = k\<lparr>k_earth := e', proc_nprocs := 1, proc_set := first_procs\<rparr>"
  shows "sys_ok k'" "frames_owned k'"
    "j < 3 \<Longrightarrow> \<exists>f. used e' f \<and> fm_pid (table e' ! f) = 1 \<and> fm_page_no (table e' ! f) = 0x8005 + of_nat j \<and> page_of k' f = img j"
    "\<exists>f. arg_frame e' 1 f \<and> args_page argc argv (page_of k' f)"
proof -
  note f = loaded_frames [OF l] and p = app_image_pages [OF img]
  have t: "table e' = table e" "platform e' = platform e" using s(1) by (simp_all add: pages_now_def)
  note w = first_vm_wf_area [OF k l img] and wf' = first_vm_wf [OF k l img]
  have view: "page_of k' i = bs" if "(i, pg, bs) \<in> set L" for i pg bs
    using f(3) [OF that] loaded_new_view [OF l _ that] s(1) k by (simp add: k' pages_now_def boot_state_def)
  show "\<exists>f. used e' f \<and> fm_pid (table e' ! f) = 1 \<and> fm_page_no (table e' ! f) = 0x8005 + of_nat j \<and> page_of k' f = img j" if j: "j < 3"
  proof -
    obtain i where i: "(i, 0x8005 + of_nat j, img j) \<in> set L" using p(5) [OF j] by blast
    show ?thesis using f(3) [OF i] view [OF i] unfolding t(1) by blast
  qed
  show arg: "\<exists>f. arg_frame e' 1 f \<and> args_page argc argv (page_of k' f)"
  proof -
    obtain i page where i: "(i, 0x80000, page) \<in> set L" "args_page argc argv page" using p(4) by blast
    show ?thesis using f(3) [OF i(1)] view [OF i(1)] i(2) unfolding t(1) arg_frame_def by auto
  qed
  show "frames_owned k'" using w(3) by (simp add: frames_owned_def k' t(1))
  have "kernel_wf k'" using first_procs_wf k by (simp add: kernel_wf_def k' boot_state_def first_procs_nth) (simp add: zero_proc_def)
  then have "kernel_ok on_qemu qemu_store k'"
    using s(2,3) wf' k by (simp add: kernel_ok_def k' boot_state_def first_procs_nth vm_wf_table [OF t(1)])
  moreover have "\<exists>x. arg_frame e' (p_pid (first_procs ! j)) x" if "j < 8" "live (first_procs ! j)" for j
  proof -
    have "j = 0" using that by (simp add: first_procs_nth live_def zero_proc_def split: if_splits)
    then have "p_pid (first_procs ! j) = 1" by (simp add: first_procs_nth)
    then show ?thesis using arg by auto
  qed
  moreover have "vm_wf (qemu_store \<union> kernel_area (platform e')) e'" using w(1) by (simp add: vm_wf_table [OF t(1)] t(2))
  moreover have "k_earth k' = e'" "proc_set k' = first_procs" by (simp_all add: k')
  ultimately show "sys_ok k'" unfolding trap_ok_def using area_outside [OF w(2)] t(2) by auto
qed

lemma grass_main_run:
  assumes k: "boot_state k" "J (k_earth k)"
    and r: "reads_file srv J (disk_reader (of_nat SYS_PROC_EXEC_START)) bf N" "app_executable bf ph" "length junk = 512"
      "0 < N" "unat (p_offset ph) + unat (p_filesz ph) \<le> 512 * N"
  shows "owp (run srv (grass_main junk) (None, k)) (\<lambda>(a, p, k').
    a = (APPS_ENTRY, APPS_ARG) \<and> p = None \<and> sys_ok k' \<and> frames_owned k' \<and> curr_pid k' = 1 \<and> proc_nprocs k' = 1 \<and>
    (\<forall>j<3. \<exists>f. used (k_earth k') f \<and> fm_pid (table (k_earth k') ! f) = 1 \<and> fm_page_no (table (k_earth k') ! f) = 0x8005 + of_nat j \<and>
      page_of k' f = segment_page bf (p_offset ph div 512) (unat (p_filesz ph)) j) \<and>
    (\<exists>f. arg_frame (k_earth k') 1 f \<and> args_page 0 [] (page_of k' f)))"
proof -
  let ?img = "segment_page bf (p_offset ph div 512) (unat (p_filesz ph))"
  have b: "on_qemu (k_earth k)" "length (table (k_earth k)) = 256" "5 \<le> nfree (k_earth k)" "args_valid 0 None"
    using k(1) by (simp_all add: boot_state_def nfree_def zero_mapping_def args_valid_def)
  have "owp (run srv (elf_load 1 (disk_reader (of_nat SYS_PROC_EXEC_START)) (int 0) None junk) (None, k)) (\<lambda>(_, p', k'). p' = None \<and>
    (\<exists>L e'. k' = k\<lparr>k_earth := e'\<rparr> \<and> loaded (k_earth k) 1 L e' \<and> J e' \<and> app_image 0 (args_given 0 None) ?img L))"
    by (rule elf_load_ok [OF r(1,2) _ b(1,2) k(2) b(3,4) r(3-5)]) simp
  then obtain L e where L: "run srv (elf_load 1 (disk_reader (of_nat SYS_PROC_EXEC_START)) 0 None junk) (None, k) = Ret ((), (None, k\<lparr>k_earth := e\<rparr>))"
    "loaded (k_earth k) 1 L e" "app_image 0 [] ?img L"
    by (auto simp: owp_iff args_given_def)
  have "vm_wf qemu_store e" by (rule first_vm_wf [OF k(1) L(2,3)])
  then obtain e' where e': "mmu_switch 1 e = Ret e'" "on_qemu e'" "curr_vm_pid e' = 1" "same_pages qemu_frame qemu_store e e'"
    using qemu.mmu_switch_ok [of e 1] loaded_on_qemu [OF L(2)] by (auto simp: owp_iff)
  note m = first_mapped [OF k(1) L(2,3) e'(4,2,3) refl]
  have g: "GPID_PROCESS = 1" by (simp add: GPID_PROCESS_def)
  have "run srv (grass_main junk) (None, k) =
    Ret ((APPS_ENTRY, APPS_ARG), (None, k\<lparr>k_earth := e', proc_nprocs := 1, proc_set := first_procs\<rparr>))"
    unfolding grass_main_def run_ibind g L(1) run_act first_alloc [OF k(1)] run_earth_do obind.simps prod.case kernel.simps run.simps
    by (simp add: e'(1))
  then show ?thesis using m k(1) by (simp add: first_procs_nth boot_state_def)
qed

end
