(* ===== verification/Spawn_Properties.thy ===== *)
theory Spawn_Properties
  imports Spawn_Run
begin

text \<open>
  The properties of the shell's parser, of the loader and of the process server, with an example
  executable and example servers.
\<close>

section \<open>Command lines\<close>

text \<open>
  C29: parse_request splits a command line into its words. The line is accepted exactly when every word
  is shorter than 32 bytes and there are at most 16 of them, a space after the last one counting as
  the start of another; then argc is the number of words and argv holds them, padded with zeros.
\<close>

theorem parse_request_splits:
  assumes "0 \<notin> set s"
  shows "if line_fits s
    then parse_request (s @ 0 # rest) req =
      Ret (0, req\<lparr>req_argv := argv_bytes (cmd_words s), req_argc := of_nat (length (cmd_words s))\<rparr>)
    else \<exists>argv. parse_request (s @ 0 # rest) req = Ret (- 1, req\<lparr>req_argv := argv\<rparr>)"
  by (rule parse_request_words [OF assms])

lemma echo_words: "cmd_words (chars ''echo a  b'') = [chars ''echo'', chars ''a'', chars ''b'']"
  by (simp add: cmd_words_def chr_def)

theorem parse_request_splits_witness:
  "parse_request (chars ''echo a  b'' @ [0]) \<lparr>req_type = PROC_SPAWN, req_argc = 0, req_argv = replicate 512 0\<rparr> =
     Ret (0, \<lparr>req_type = PROC_SPAWN, req_argc = 3, req_argv = argv_bytes [chars ''echo'', chars ''a'', chars ''b'']\<rparr>)"
proof -
  have "line_fits (chars ''echo a  b'')" unfolding line_fits_def echo_words by (simp add: layout_defs chr_def)
  moreover have "0 \<notin> set (chars ''echo a  b'')" by (simp add: chr_def)
  ultimately show ?thesis
    using parse_request_splits [of "chars ''echo a  b''" "[]" "\<lparr>req_type = PROC_SPAWN, req_argc = 0, req_argv = replicate 512 0\<rparr>"]
    unfolding echo_words by simp
qed

section \<open>An example executable\<close>

text \<open>The first block has one program header, for a segment of 700 bytes from the next block on.\<close>

definition demo_header :: "byte list" where
  "demo_header = replicate 28 0 @ word_bytes 52 @ replicate 12 0 @ [1, 0] @ replicate 6 0 @
     word_bytes 1 @ word_bytes 512 @ word_bytes 0x08005000 @ word_bytes 0 @ word_bytes 700 @ word_bytes 4096 @ replicate 436 0"

definition demo_prog :: "u32 \<Rightarrow> block" where
  "demo_prog b = (if b = 0 then demo_header else replicate 512 0x13)"

definition demo_segment :: elf32_program_header where
  "demo_segment = \<lparr>p_offset = 512, p_vaddr = 0x08005000, p_filesz = 700, p_memsz = 4096\<rparr>"

lemma field32_skip: "length p \<le> n \<Longrightarrow> field32 (p @ b) n = field32 b (n - length p)"
  using field32_app [of p b "n - length p"] by simp

lemma field32_tl: "0 < n \<Longrightarrow> field32 (x # b) n = field32 b (n - 1)"
  using field32_skip [of "[x]" n b] by simp

lemma length_demo_prog: "length (demo_prog b) = 512"
  by (simp add: demo_prog_def demo_header_def)

lemma demo_prog_app: "app_executable demo_prog demo_segment"
proof -
  have l: "length demo_header = 512" by (simp add: demo_header_def)
  have f: "field32 demo_header 28 = 52" "field32 demo_header 56 = 512" "field32 demo_header 60 = 0x08005000"
    "field32 demo_header 68 = 700" "field32 demo_header 72 = 4096"
    unfolding demo_header_def by (simp_all add: field32_skip field32_tl)
  have n: "demo_header ! 44 = 1" "demo_header ! 45 = 0" by (simp_all add: demo_header_def nth_append)
  show ?thesis unfolding app_executable_def
    by (intro conjI exI [of _ 52] exI [of _ 1] exI [of _ 0])
      (simp_all add: demo_prog_def demo_segment_def e_phoff_def e_phnum_def get32_def get16_def at_def program_header_def
         sizeof_program_header_def l f n layout_defs)
qed

text \<open>The kernel of the example state with process 1 running, on a disk with the executable.\<close>

definition demo_disk :: "u32 \<Rightarrow> u32 \<Rightarrow> u32 \<Rightarrow> bool \<Rightarrow> (int \<times> byte list \<times> bool) outcome" where
  "demo_disk start b n d = Ret (0, demo_prog (b - start), d)"

definition on_demo_disk :: "u32 \<Rightarrow> bool earth \<Rightarrow> bool" where
  "on_demo_disk start e \<longleftrightarrow> disk_read e = demo_disk start"

definition demo_kernel :: "u32 \<Rightarrow> bool kernel" where
  "demo_kernel start = (demo 1 False 0 0 PROC_RUNNABLE)\<lparr>k_earth := (demo_earth 1 False 0 0)\<lparr>disk_read := demo_disk start\<rparr>\<rparr>"

lemma find_proc_5: "find_proc (\<lambda>p. p_status p = PROC_UNUSED) i (replicate 5 (demo_proc 0 PROC_UNUSED 0)) = Some i"
  by (simp add: numeral_eq_Suc)

lemma demo_kernel_ok: "sys_ok (demo_kernel start)" "frames_owned (demo_kernel start)" "can_spawn (demo_kernel start) 3"
  "on_demo_disk start (k_earth (demo_kernel start))"
proof -
  have "sys_ok (demo 1 False 0 0 PROC_RUNNABLE)" by (rule demo_ok) simp_all
  then show "sys_ok (demo_kernel start)"
    by (simp add: trap_ok_def kernel_ok_def kernel_wf_def on_qemu_def vm_wf_def demo_kernel_def arg_frame_def)
  show "frames_owned (demo_kernel start)"
    using demo_used [of _ 1 False 0 0] by (auto simp: frames_owned_def demo_kernel_def demo_table)
  show "can_spawn (demo_kernel start) 3"
    using find_proc_5 by (simp add: can_spawn_def demo_kernel_def nfree_def demo_earth_def demo_def zero_mapping_def)
  show "on_demo_disk start (k_earth (demo_kernel start))" by (simp add: on_demo_disk_def demo_kernel_def)
qed

section \<open>The first process\<close>

text \<open>
  What disk_reader needs of the disk: reads of the blocks of the executable succeed and give its
  contents. The device may change by reading.
\<close>

definition disk_holds :: "('d earth \<Rightarrow> bool) \<Rightarrow> u32 \<Rightarrow> (u32 \<Rightarrow> block) \<Rightarrow> nat \<Rightarrow> bool" where
  "disk_holds J start bf N \<longleftrightarrow>
     (\<forall>e m t. J e \<longrightarrow> J (e\<lparr>mem := m\<rparr>) \<and> J (e\<lparr>table := t\<rparr>)) \<and> (\<forall>b. length (bf b) = 512) \<and>
     (\<forall>e b. J e \<longrightarrow> unat b < N \<longrightarrow> owp (disk_read e (start + b) 1 (dev e)) (\<lambda>(_, bs, d). bs = bf b \<and> J (e\<lparr>dev := d\<rparr>)))"

lemma disk_reader_reads:
  assumes "disk_holds J start bf N"
  shows "reads_file srv J (disk_reader start) bf N"
  using assms unfolding reads_file_def disk_holds_def
  by (auto simp: disk_reader_def run_earth_do owp_iff) blast

lemma demo_disk_holds: "disk_holds (on_demo_disk start) start demo_prog N"
  by (simp add: disk_holds_def on_demo_disk_def demo_disk_def length_demo_prog)

text \<open>
  C26: The start of the grass layer. With zero-initialised tables and an executable of the process server
  in the disk, main of grass.c returns from its calls and jumps to the entry of the application with the
  address of the arguments. The kernel is then well formed, which all the properties of the kernel
  assume, process 1 runs, and its pages hold the segment of the executable, padded with zeros, and an
  argument page with argc 0.
\<close>

theorem grass_main_boots:
  assumes "boot_state k" "J (k_earth k)" "disk_holds J (of_nat SYS_PROC_EXEC_START) bf N"
    "app_executable bf ph" "length junk = 512" "0 < N" "unat (p_offset ph) + unat (p_filesz ph) \<le> 512 * N"
  shows "owp (run srv (grass_main junk) (None, k)) (\<lambda>(a, p, k').
    a = (APPS_ENTRY, APPS_ARG) \<and> p = None \<and> sys_ok k' \<and> frames_owned k' \<and> curr_pid k' = 1 \<and> proc_nprocs k' = 1 \<and>
    (\<forall>j<3. \<exists>f. used (k_earth k') f \<and> fm_pid (table (k_earth k') ! f) = 1 \<and> fm_page_no (table (k_earth k') ! f) = 0x8005 + of_nat j \<and>
      page_of k' f = segment_page bf (p_offset ph div 512) (unat (p_filesz ph)) j) \<and>
    (\<exists>f. arg_frame (k_earth k') 1 f \<and> args_page 0 [] (page_of k' f)))"
  by (rule grass_main_run [OF assms(1,2) disk_reader_reads [OF assms(3)] assms(4-7)])

definition zero_kernel :: "bool kernel" where
  "zero_kernel = \<lparr>proc_set = replicate 8 zero_proc, proc_curr_idx = 0, proc_nprocs = 0, csr_mepc = 0,
     k_earth = (demo_earth 1 False 0 0)\<lparr>table := replicate 256 zero_mapping, curr_vm_pid := - 1,
       disk_read := demo_disk (of_nat SYS_PROC_EXEC_START)\<rparr>\<rparr>"

theorem grass_main_boots_witness:
  "owp (run (\<lambda>_ _ k. Ret (None, k)) (grass_main (replicate 512 0)) (None, zero_kernel)) (\<lambda>(a, p, k').
    a = (APPS_ENTRY, APPS_ARG) \<and> sys_ok k' \<and>
    (\<exists>f. page_of k' f = segment_page demo_prog 1 700 0) \<and> (\<exists>f. arg_frame (k_earth k') 1 f))"
proof -
  have "boot_state zero_kernel" "on_demo_disk (of_nat SYS_PROC_EXEC_START) (k_earth zero_kernel)"
    by (simp_all add: boot_state_def zero_kernel_def on_qemu_def on_demo_disk_def)
  from grass_main_boots [OF this demo_disk_holds demo_prog_app, of "replicate 512 0" 3 "\<lambda>_ _ k. Ret (None, k)"]
  have "owp (run (\<lambda>_ _ k. Ret (None, k)) (grass_main (replicate 512 0)) (None, zero_kernel)) (\<lambda>(a, p, k').
    a = (APPS_ENTRY, APPS_ARG) \<and> p = None \<and> sys_ok k' \<and> frames_owned k' \<and> curr_pid k' = 1 \<and> proc_nprocs k' = 1 \<and>
    (\<forall>j<3. \<exists>f. used (k_earth k') f \<and> fm_pid (table (k_earth k') ! f) = 1 \<and> fm_page_no (table (k_earth k') ! f) = 0x8005 + of_nat j \<and>
      page_of k' f = segment_page demo_prog 1 700 j) \<and>
    (\<exists>f. arg_frame (k_earth k') 1 f \<and> args_page 0 [] (page_of k' f)))"
    by (simp add: demo_segment_def)
  then show ?thesis
  proof (rule owp_mono, goal_cases)
    case (1 x)
    obtain a p k' where x: "x = (a, p, k')" by (cases x)
    note * = 1 [unfolded x prod.case]
    have "\<exists>f. page_of k' f = segment_page demo_prog 1 700 0" using * [THEN conjunct2, THEN conjunct2, THEN conjunct2, THEN conjunct2,
      THEN conjunct2, THEN conjunct2, THEN conjunct1, rule_format, of 0] by auto
    then show ?case unfolding x prod.case using * by blast
  qed
qed

section \<open>Spawning\<close>

text \<open>
  C28: sys_spawn of the process server starts a kernel process from the disk. When the kernel is well
  formed and has an unused entry, five unused frames and a pid below 32, the new process has the next
  pid, is ready and has the pages of its executable; the state is well formed again, and entries, frames
  and page contents of the other processes are unchanged.
\<close>

theorem sys_spawn_starts:
  assumes "sys_ok k" "frames_owned k" "can_spawn k i" "J (k_earth k)" "disk_holds J base bf N"
    "app_executable bf ph" "length (elf_buf l) = 512" "0 < N" "unat (p_offset ph) + unat (p_filesz ph) \<le> 512 * N"
  shows "owp (run srv (sys_spawn l base) (None, k)) (\<lambda>(_, p, k').
    p = None \<and> sys_ok k' \<and> frames_owned k' \<and> J (k_earth k') \<and>
    spawned k i PROC_READY 0 [] (segment_page bf (p_offset ph div 512) (unat (p_filesz ph))) k')"
  by (rule sys_spawn_run [OF assms(1-3) disk_reader_reads [OF assms(5)] assms(4,6-9)])

definition demo_locals :: locals where
  "demo_locals = \<lparr>elf_buf = replicate 512 0, name_buf = replicate 32 0, block_buf = replicate 512 0\<rparr>"

theorem sys_spawn_starts_witness:
  "owp (run (\<lambda>_ _ k. Ret (None, k)) (sys_spawn demo_locals 100) (None, demo_kernel 100)) (\<lambda>(_, p, k').
    p = None \<and> sys_ok k' \<and> spawned (demo_kernel 100) 3 PROC_READY 0 [] (segment_page demo_prog 1 700) k')"
  by (rule owp_mono [OF sys_spawn_starts [OF demo_kernel_ok demo_disk_holds demo_prog_app, of demo_locals 3]])
    (auto simp: demo_locals_def demo_segment_def)










end
