(* ===== verification/Grass_Load.thy ===== *)
theory Grass_Load
  imports Spawn_Properties
begin

text \<open>
  The loading of the grass layer by the earth layer: earth/earth.c calls elf_load with grass_read.
\<close>

section \<open>The call\<close>

definition grass_read :: "'d elf_reader" where
  "grass_read = disk_reader (of_nat GRASS_EXEC_START)"

definition earth_load_grass :: "block \<Rightarrow> ('d kernel, unit) io" where
  "earth_load_grass junk = elf_load 0 grass_read 0 None junk"

section \<open>The image\<close>

definition grass_byte :: "(u32 \<Rightarrow> block) \<Rightarrow> elf32_program_header \<Rightarrow> nat \<Rightarrow> byte" where
  "grass_byte bf ph p = (if p < unat (p_filesz ph) then segment_byte bf (p_offset ph div 512) p else 0)"

lemma grass_block_write:
  assumes "off + 512 \<le> 2 ^ 20" "length blk = 512"
  shows "mem_write m (GRASS_ENTRY + of_nat off) blk x =
    (if off \<le> unat (x - GRASS_ENTRY) \<and> unat (x - GRASS_ENTRY) < off + 512 then blk ! (unat (x - GRASS_ENTRY) - off) else m x)"
proof -
  define y where "y = x - GRASS_ENTRY"
  have o: "unat (of_nat off :: u32) = off" using assms(1) by (simp add: unat_of_nat take_bit_nat_eq_self)
  have e: "x - (GRASS_ENTRY + of_nat off) = y - of_nat off" by (simp add: y_def)
  have "unat (y - of_nat off) < 512 \<longleftrightarrow> off \<le> unat y \<and> unat y < off + 512"
    using in_region_nat [of "of_nat off" 512 y] assms(1) o by (simp add: in_region_def)
  moreover have "unat (y - of_nat off) = unat y - off" if "off \<le> unat y"
    using that o by (simp add: unat_sub word_le_nat_alt)
  ultimately show ?thesis unfolding mem_write_def e y_def [symmetric] assms(2) by auto
qed

lemma grass_blocks_ok:
  assumes r: "reads_file srv J reader bf N"
  shows "off mod 512 = 0 \<Longrightarrow> b = b0 + of_nat (off div 512) \<Longrightarrow> filesz \<le> 0x2800 \<Longrightarrow> off \<le> 0x2800 \<Longrightarrow> unat b0 + 20 \<le> N \<Longrightarrow> N < 2 ^ 32 \<Longrightarrow> J (k_earth k) \<Longrightarrow>
    \<exists>d m. run srv (grass_blocks reader filesz b off) (None, k) = Ret ((), (None, k\<lparr>k_earth := (k_earth k)\<lparr>dev := d, mem := m\<rparr>\<rparr>)) \<and>
      J ((k_earth k)\<lparr>dev := d, mem := m\<rparr>) \<and>
      (\<forall>x. m x = (if off \<le> unat (x - GRASS_ENTRY) \<and> unat (x - GRASS_ENTRY) < 512 * ((filesz + 511) div 512)
        then segment_byte bf b0 (unat (x - GRASS_ENTRY)) else mem (k_earth k) x))"
proof (induction "filesz - off" arbitrary: off b k rule: less_induct)
  case less
  note P = less.prems
  obtain c where c: "off = 512 * c" using P(1) by (auto simp: mod_eq_0_iff_dvd)
  have c20: "c \<le> 20" using P(4) c by simp
  show ?case
  proof (cases "off < filesz")
    case False
    have "filesz + 511 < Suc c * 512" using False c by simp
    then have "(filesz + 511) div 512 \<le> c" using less_mult_imp_div_less less_Suc_eq_le by blast
    then have "512 * ((filesz + 511) div 512) \<le> off" unfolding c by simp
    then have "\<not> (off \<le> unat (x - GRASS_ENTRY) \<and> unat (x - GRASS_ENTRY) < 512 * ((filesz + 511) div 512))" for x :: u32 by linarith
    then have "\<forall>x. mem (k_earth k) x = (if off \<le> unat (x - GRASS_ENTRY) \<and> unat (x - GRASS_ENTRY) < 512 * ((filesz + 511) div 512)
        then segment_byte bf b0 (unat (x - GRASS_ENTRY)) else mem (k_earth k) x)" by (simp only: simp_thms if_False)
    moreover have "run srv (grass_blocks reader filesz b off) (None, k) = Ret ((), (None, k\<lparr>k_earth := (k_earth k)\<lparr>dev := dev (k_earth k), mem := mem (k_earth k)\<rparr>\<rparr>))"
      using False by (subst grass_blocks.simps) simp
    moreover have "J ((k_earth k)\<lparr>dev := dev (k_earth k), mem := mem (k_earth k)\<rparr>)" using P(7) by simp
    ultimately show ?thesis by blast
  next
    case True
    then have lt: "c < 20" using P(3) c by simp
    have "unat b0 + c < 2 ^ 32" using P(5,6) lt by linarith
    then have b: "unat b = unat b0 + c" using P(2) c lt by (simp add: unat_word_ariths unat_of_nat take_bit_nat_eq_self)
    have blk: "length (bf b) = 512" using r by (simp add: reads_file_def)
    obtain d where d: "run srv (read_to reader b (GRASS_ENTRY + of_nat off)) (None, k) = Ret ((), (None,
        k\<lparr>k_earth := (k_earth k)\<lparr>dev := d, mem := mem_write (mem (k_earth k)) (GRASS_ENTRY + of_nat off) (bf b)\<rparr>\<rparr>))" "J ((k_earth k)\<lparr>dev := d\<rparr>)"
      using read_to_ok [OF r P(7), of b "GRASS_ENTRY + of_nat off"] b lt P(5) by (auto simp: owp_iff)
    let ?k = "k\<lparr>k_earth := (k_earth k)\<lparr>dev := d, mem := mem_write (mem (k_earth k)) (GRASS_ENTRY + of_nat off) (bf b)\<rparr>\<rparr>"
    have b1: "b + 1 = b0 + of_nat ((off + 512) div 512)" and J1: "J (k_earth ?k)" and o1: "filesz - (off + 512) < filesz - off" "(off + 512) mod 512 = 0" "off + 512 \<le> 0x2800"
      using P(2) c d(2) r True lt by (simp_all add: reads_file_def)
    obtain d' m where m: "run srv (grass_blocks reader filesz (b + 1) (off + 512)) (None, ?k) = Ret ((), (None, ?k\<lparr>k_earth := (k_earth ?k)\<lparr>dev := d', mem := m\<rparr>\<rparr>))"
      "J ((k_earth ?k)\<lparr>dev := d', mem := m\<rparr>)" "\<forall>x. m x = (if off + 512 \<le> unat (x - GRASS_ENTRY) \<and> unat (x - GRASS_ENTRY) < 512 * ((filesz + 511) div 512)
        then segment_byte bf b0 (unat (x - GRASS_ENTRY)) else mem (k_earth ?k) x)"
      using less.hyps [OF o1(1,2) b1 P(3) o1(3) P(5,6) J1] by blast
    have mx: "m x = (if off \<le> unat (x - GRASS_ENTRY) \<and> unat (x - GRASS_ENTRY) < 512 * ((filesz + 511) div 512)
        then segment_byte bf b0 (unat (x - GRASS_ENTRY)) else mem (k_earth k) x)" for x
    proof -
      define y where "y = unat (x - GRASS_ENTRY)"
      have "c * 512 + 512 \<le> filesz + 511" using True c by simp
      then have "Suc c \<le> (filesz + 511) div 512" by (simp add: less_eq_div_iff_mult_less_eq)
      then have R: "off + 512 \<le> 512 * ((filesz + 511) div 512)" unfolding c by simp
      have w: "mem (k_earth ?k) x = (if off \<le> y \<and> y < off + 512 then bf b ! (y - off) else mem (k_earth k) x)"
        using grass_block_write [OF _ blk, of off "mem (k_earth k)" x] c lt by (simp add: y_def)
      have in_block: "segment_byte bf b0 y = bf b ! (y - off)" if "off \<le> y" "y < off + 512"
      proof -
        define z where "z = y - off"
        have z: "y = 512 * c + z" "z < 512" using that c by (simp_all add: z_def)
        then have "y div 512 = c" "y mod 512 = z" by simp_all
        then show ?thesis using P(2) c z by (simp add: segment_byte_def)
      qed
      consider "y < off" | "off \<le> y" "y < off + 512" | "off + 512 \<le> y" by linarith
      then show ?thesis using m(3) [rule_format, of x] w in_block R unfolding y_def [symmetric] by cases auto
    qed
    have "run srv (grass_blocks reader filesz b off) (None, k) = Ret ((), (None, k\<lparr>k_earth := (k_earth k)\<lparr>dev := d', mem := m\<rparr>\<rparr>))"
      using True d(1) m(1) by (subst grass_blocks.simps) (simp add: run_ibind BLOCK_SIZE_def)
    moreover have "J ((k_earth k)\<lparr>dev := d', mem := m\<rparr>)" using m(2) by simp
    ultimately show ?thesis using mx by blast
  qed
qed

lemma load_grass_ok:
  assumes r: "reads_file srv J reader bf N" and J: "J (k_earth k)"
    and x: "unat (p_filesz ph) \<le> 0x2800" "unat (p_offset ph div 512) + 20 \<le> N" "N < 2 ^ 32"
  shows "owp (run srv (load_grass reader ph) (None, k)) (\<lambda>(_, p, k'). p = None \<and> (\<exists>d m.
      J ((k_earth k)\<lparr>dev := d, mem := m\<rparr>) \<and> k' = k\<lparr>k_earth := (k_earth k)\<lparr>dev := d, mem := m\<rparr>\<rparr> \<and>
      mem_read m GRASS_ENTRY 0x2800 = map (grass_byte bf ph) [0..<0x2800] \<and>
      (\<forall>x. \<not> in_region GRASS_ENTRY 0x2800 x \<longrightarrow> m x = mem (k_earth k) x)))"
proof -
  let ?fs = "unat (p_filesz ph)"
  have b0: "p_offset ph div of_nat BLOCK_SIZE = p_offset ph div 512 + of_nat (0 div 512)" by (simp add: BLOCK_SIZE_def)
  have p0: "0 mod 512 = (0 :: nat)" "(0 :: nat) \<le> 0x2800" by simp_all
  obtain d m where m: "run srv (grass_blocks reader ?fs (p_offset ph div of_nat BLOCK_SIZE) 0) (None, k) =
      Ret ((), (None, k\<lparr>k_earth := (k_earth k)\<lparr>dev := d, mem := m\<rparr>\<rparr>))" "J ((k_earth k)\<lparr>dev := d, mem := m\<rparr>)"
    and mx: "\<And>x. m x = (if 0 \<le> unat (x - GRASS_ENTRY) \<and> unat (x - GRASS_ENTRY) < 512 * ((?fs + 511) div 512) then segment_byte bf (p_offset ph div 512) (unat (x - GRASS_ENTRY))
      else mem (k_earth k) x)"
    using grass_blocks_ok [OF r p0(1) b0 x(1) p0(2) x(2,3) J] by blast
  let ?m = "memset m (GRASS_ENTRY + p_filesz ph) 0 (unat (GRASS_SIZE - p_filesz ph))"
  have val: "?m x = (if unat (x - GRASS_ENTRY) < 0x2800 then grass_byte bf ph (unat (x - GRASS_ENTRY)) else mem (k_earth k) x)" for x
  proof -
    define y where "y = x - GRASS_ENTRY"
    have sz: "unat (GRASS_SIZE - p_filesz ph) = 0x2800 - ?fs" using x(1) by (simp add: layout_defs unat_sub word_le_nat_alt)
    have e: "x - (GRASS_ENTRY + p_filesz ph) = y - p_filesz ph" by (simp add: y_def)
    have "unat (y - p_filesz ph) < 0x2800 - ?fs \<longleftrightarrow> ?fs \<le> unat y \<and> unat y < 0x2800"
      using in_region_nat [of "p_filesz ph" "0x2800 - ?fs" y] x(1) by (simp add: in_region_def)
    then have "?m x = (if ?fs \<le> unat y \<and> unat y < 0x2800 then 0 else m x)" by (simp add: memset_def mem_write_def e sz)
    moreover have "?fs \<le> 512 * ((?fs + 511) div 512)"
      using div_mult_mod_eq [of "?fs + 511" 512] mod_less_divisor [of 512 "?fs + 511"] by linarith
    moreover have "?fs + 511 < 21 * 512" using x(1) by linarith
    then have "(?fs + 511) div 512 < 21" by (rule less_mult_imp_div_less)
    then have "512 * ((?fs + 511) div 512) \<le> 0x2800" by linarith
    ultimately show ?thesis using mx [of x] unfolding y_def [symmetric] grass_byte_def by auto
  qed
  have "mem_read ?m GRASS_ENTRY 0x2800 = map (grass_byte bf ph) [0..<0x2800]"
    by (rule nth_equalityI) (simp_all add: val unat_of_nat take_bit_nat_eq_self)
  moreover have "?m x = mem (k_earth k) x" if "\<not> in_region GRASS_ENTRY 0x2800 x" for x
    using that by (simp add: val in_region_def)
  moreover have "run srv (load_grass reader ph) (None, k) = Ret ((), (None, k\<lparr>k_earth := (k_earth k)\<lparr>dev := d, mem := ?m\<rparr>\<rparr>))"
    using m(1) by (simp add: load_grass_def run_ibind run_mem_do)
  moreover have "J (((k_earth k)\<lparr>dev := d, mem := m\<rparr>)\<lparr>mem := ?m\<rparr>)" using m(2) r unfolding reads_file_def by blast
  ultimately show ?thesis by auto
qed

section \<open>Properties\<close>

text \<open>
  C36: load_grass puts the segment of the executable at GRASS_ENTRY and fills the region of GRASS_SIZE bytes up
  with zeros. No byte outside the region changes. The segment has at most GRASS_SIZE bytes, and the 20 blocks
  from its offset on can be read.
\<close>

theorem load_grass_image:
  assumes "disk_holds J start bf N" "J (k_earth k)"
    "unat (p_filesz ph) \<le> 0x2800" "unat (p_offset ph div 512) + 20 \<le> N" "N < 2 ^ 32"
  shows "owp (run srv (load_grass (disk_reader start) ph) (None, k)) (\<lambda>(_, p, k'). p = None \<and> (\<exists>d m.
      J ((k_earth k)\<lparr>dev := d, mem := m\<rparr>) \<and> k' = k\<lparr>k_earth := (k_earth k)\<lparr>dev := d, mem := m\<rparr>\<rparr> \<and>
      mem_read m GRASS_ENTRY 0x2800 = map (grass_byte bf ph) [0..<0x2800] \<and>
      (\<forall>x. \<not> in_region GRASS_ENTRY 0x2800 x \<longrightarrow> m x = mem (k_earth k) x)))"
  by (rule load_grass_ok [OF disk_reader_reads [OF assms(1)] assms(2-5)])

theorem load_grass_image_witness:
  "owp (run (\<lambda>_ _ k. Ret (None, k)) (load_grass (disk_reader 5) (demo_segment\<lparr>p_vaddr := GRASS_ENTRY\<rparr>)) (None, demo_kernel 5)) (\<lambda>(_, _, k').
    mem (k_earth k') GRASS_ENTRY = 0x13 \<and> mem (k_earth k') (GRASS_ENTRY + 699) = 0x13 \<and> mem (k_earth k') (GRASS_ENTRY + 700) = 0 \<and>
    mem (k_earth k') 0 = mem (k_earth (demo_kernel 5)) 0)"
proof -
  let ?ph = "demo_segment\<lparr>p_vaddr := GRASS_ENTRY\<rparr>"
  have s: "unat (p_filesz ?ph) \<le> 0x2800" "unat (p_offset ?ph div 512) + 20 \<le> 30" "(30 :: nat) < 2 ^ 32" by (simp_all add: demo_segment_def)
  note * = load_grass_image [where srv = "\<lambda>_ _ k. Ret (None, k)", OF demo_disk_holds demo_kernel_ok(4) s]
  show ?thesis
  proof (rule owp_mono [OF *], goal_cases)
    case (1 x)
    obtain u p k' where x: "x = (u, p, k')" by (cases x)
    obtain m where m: "mem (k_earth k') = m" "mem_read m GRASS_ENTRY 0x2800 = map (grass_byte demo_prog ?ph) [0..<0x2800]"
      "\<forall>x. \<not> in_region GRASS_ENTRY 0x2800 x \<longrightarrow> m x = mem (k_earth (demo_kernel 5)) x" using 1 by (auto simp: x)
    have "m (GRASS_ENTRY + of_nat i) = grass_byte demo_prog ?ph i" if "i < 0x2800" for i
      using arg_cong [OF m(2), of "\<lambda>l. l ! i"] that by simp
    from this [of 0] this [of 699] this [of 700]
    have "m GRASS_ENTRY = 0x13" "m (GRASS_ENTRY + 699) = 0x13" "m (GRASS_ENTRY + 700) = 0"
      by (simp_all add: grass_byte_def segment_byte_def demo_segment_def demo_prog_def)
    moreover have "\<not> in_region GRASS_ENTRY 0x2800 0" by (simp add: in_region_def layout_defs)
    ultimately show ?case using m by (simp add: x)
  qed
qed

end
