(* ===== verification/Earth_Properties.thy ===== *)
theory Earth_Properties
  imports Mmu_Correct
begin

text \<open>
  The properties of the memory management unit of earth/cpu_mmu.c over the paging device of
  earth/dev_page.c.
\<close>

section \<open>An example state\<close>

text \<open>Two processes that map the same virtual page, the first of them in place.\<close>

definition two_procs :: "unit earth" where
  "two_procs = \<lparr>mem = (\<lambda>x. if unat x div 4096 = 0x08005 then 7 else 9), platform = QEMU_LATEST,
     translation = SOFT_TLB,
     table = [\<lparr>fm_use = 1, fm_pid = 1, fm_page_no = 0x08005\<rparr>, \<lparr>fm_use = 1, fm_pid = 2, fm_page_no = 0x08005\<rparr>]
       @ replicate 254 zero_mapping,
     curr_vm_pid = 1, cache_slots = replicate ARTY_CACHED_NFRAMES 0xFFFFFFFF, rands = (\<lambda>_. 0), dev = (),
     disk_read = (\<lambda>_ n d. Ret (0, replicate (512 * unat n) 0, d)), disk_write = (\<lambda>_ _ _ d. Ret (0, d)),
     timer_reset = (\<lambda>d. (0, d)), tty_recv_intr = (\<lambda>d. (0, d))\<rparr>"

lemma two_procs_table:
  "length (table two_procs) = 256"
  "used two_procs i \<longleftrightarrow> i < 2"
  "table two_procs ! 0 = \<lparr>fm_use = 1, fm_pid = 1, fm_page_no = 0x08005\<rparr>"
  "table two_procs ! 1 = \<lparr>fm_use = 1, fm_pid = 2, fm_page_no = 0x08005\<rparr>"
  by (auto simp: two_procs_def nth_append nth_Cons' zero_mapping_def split: if_splits)

lemma two_procs_wf: "vm_wf qemu_store two_procs"
proof -
  have "page_clear qemu_store 0x08005"
    by (auto simp: page_clear_def in_page_iff in_qemu_store)
  moreover have "i = 0 \<or> i = 1" if "used two_procs i" for i
    using that two_procs_table(2) [of i] by auto
  ultimately show ?thesis unfolding vm_wf_def using two_procs_table(1,3,4)
    by (metis frame_mapping.select_convs(2,3) one_eq_numeral_iff num.distinct(1))
qed

section \<open>Properties\<close>

text \<open>
  C8: Switching address spaces. On QEMU, mmu_switch returns with the address space of the given
  process in place: each of its mapped pages is in memory at its virtual address. The contents of
  every mapped page of every process, where it is in memory for the process that was running and
  in its frame for the others, is unchanged, and so is all other memory outside the frame store.
\<close>
theorem mmu_switch_preserves_pages:
  assumes "platform e \<noteq> ARTY" "vm_wf qemu_store e"
  shows "\<exists>e'. mmu_switch p e = Ret e' \<and> curr_vm_pid e' = p \<and> table e' = table e \<and>
    vm_wf qemu_store e' \<and> platform e' = platform e \<and>
    (\<forall>i. used e i \<longrightarrow> page_view qemu_frame e' i = page_view qemu_frame e i) \<and>
    (\<forall>i. used e i \<longrightarrow> fm_pid (table e ! i) = p \<longrightarrow>
       mem_read (mem e') (page_addr (fm_page_no (table e ! i))) PAGE_SIZE = page_view qemu_frame e i) \<and>
    (\<forall>x. x \<notin> qemu_store \<longrightarrow> x \<notin> user_pages e p \<longrightarrow> mem e' x = mem e x)"
proof -
  have "mmu_switch p e = soft_tlb_switch p e"
    by (simp add: mmu_switch_def page_table_switch_def split: translation_mode.split)
  moreover have "on_qemu e" using assms(1) by (simp add: on_qemu_def)
  ultimately obtain e' where e': "mmu_switch p e = Ret e'" "vm_wf qemu_store e'" "curr_vm_pid e' = p"
    "same_outside (qemu_store \<union> user_pages e p) e (e'\<lparr>curr_vm_pid := curr_vm_pid e\<rparr>)"
    and view: "\<And>i. used e i \<Longrightarrow> page_view qemu_frame e' i = page_view qemu_frame e i"
    using qemu.soft_tlb_switch_ok [of e p] assms(2) by (auto elim!: owpE)
  have t: "table e' = table e" "platform e' = platform e"
    "\<forall>x. x \<notin> qemu_store \<longrightarrow> x \<notin> user_pages e p \<longrightarrow> mem e' x = mem e x"
    using e'(4) by (auto simp: same_outside_def)
  have "mem_read (mem e') (page_addr (fm_page_no (table e ! i))) PAGE_SIZE = page_view qemu_frame e i"
    if "used e i" "fm_pid (table e ! i) = p" for i
    using view [OF that(1)] that(2) e'(3) t(1) by (simp add: page_view_def [of _ e'] PAGE_SIZE_def)
  with e' t view show ?thesis by blast
qed

theorem mmu_switch_preserves_pages_witness:
  "\<exists>e'. mmu_switch 2 two_procs = Ret e' \<and> mem_read (mem e') (page_addr 0x08005) PAGE_SIZE = replicate 4096 9 \<and>
    page_view qemu_frame e' 0 = replicate 4096 7"
proof -
  have "mem_read (mem two_procs) (page_addr 0x08005) 4096 = replicate 4096 7"
    by (rule mem_read_const) (auto simp: two_procs_def in_region_nat intro!: div_nat_eqI)
  then have v0: "page_view qemu_frame two_procs 0 = replicate 4096 7"
    using two_procs_table(3) by (simp add: page_view_def) (simp add: two_procs_def)
  have "mem_read (mem two_procs) (frame_addr 1) 4096 = replicate 4096 9"
  proof (rule mem_read_const)
    fix x assume "in_region (frame_addr 1) 4096 x"
    then have "unat x div 4096 = 0x80005" by (auto simp: in_region_nat unat_frame_addr intro!: div_nat_eqI)
    then show "mem two_procs x = 9" by (simp add: two_procs_def)
  qed simp
  then have v1: "page_view qemu_frame two_procs 1 = replicate 4096 9"
    using two_procs_table(4) by (simp add: page_view_def qemu_frame_def layout_defs) (simp add: two_procs_def)
  have "platform two_procs \<noteq> ARTY" by (simp add: two_procs_def)
  from mmu_switch_preserves_pages [OF this two_procs_wf, of 2] obtain e' where
    e': "mmu_switch 2 two_procs = Ret e'"
      "\<forall>i. used two_procs i \<longrightarrow> page_view qemu_frame e' i = page_view qemu_frame two_procs i"
      "\<forall>i. used two_procs i \<longrightarrow> fm_pid (table two_procs ! i) = 2 \<longrightarrow>
        mem_read (mem e') (page_addr (fm_page_no (table two_procs ! i))) PAGE_SIZE =
          page_view qemu_frame two_procs i" by blast
  have "mem_read (mem e') (page_addr 0x08005) PAGE_SIZE = replicate 4096 9"
    using e'(3) [rule_format, of 1] v1 two_procs_table(2) [of 1] two_procs_table(4) by simp
  moreover have "page_view qemu_frame e' 0 = replicate 4096 7"
    using e'(2) [rule_format, of 0] v0 two_procs_table(2) [of 0] by simp
  ultimately show ?thesis using e'(1) by blast
qed

text \<open>
  C9: Freeing a process. mmu_free leaves no frame in use by the process, does not touch memory,
  and keeps the contents of every mapped page of every other process.
\<close>
theorem mmu_free_releases:
  assumes "platform e \<noteq> ARTY" "vm_wf qemu_store e"
  shows "vm_wf qemu_store (mmu_free p e) \<and> mem (mmu_free p e) = mem e \<and>
    (\<forall>i. used (mmu_free p e) i \<longleftrightarrow> used e i \<and> fm_pid (table e ! i) \<noteq> p) \<and>
    (\<forall>i. used e i \<longrightarrow> fm_pid (table e ! i) \<noteq> p \<longrightarrow> table (mmu_free p e) ! i = table e ! i \<and>
       page_view qemu_frame (mmu_free p e) i = page_view qemu_frame e i)"
proof -
  have q: "on_qemu e" using assms(1) by (simp add: on_qemu_def)
  note ok = qemu.mmu_free_ok [OF q assms(2), where p = p]
  have "used (mmu_free p e) i \<longleftrightarrow> used e i \<and> fm_pid (table e ! i) \<noteq> p" for i
    using ok(6) [of i] by (auto simp: zero_mapping_def split: if_splits)
  with ok show ?thesis by auto
qed

theorem mmu_free_releases_witness:
  "\<not> used (mmu_free 2 two_procs) 1 \<and> used (mmu_free 2 two_procs) 0"
proof -
  have "platform two_procs \<noteq> ARTY" by (simp add: two_procs_def)
  then have u: "used (mmu_free 2 two_procs) i \<longleftrightarrow> used two_procs i \<and> fm_pid (table two_procs ! i) \<noteq> 2" for i
    using mmu_free_releases [OF _ two_procs_wf, of 2] by blast
  show ?thesis unfolding u using two_procs_table(3,4) by simp
qed

text \<open>
  C10: Allocating a frame. mmu_alloc hands out the first unused frame, marks it as used, and does
  not change the contents of any page in use; when every frame is in use it stops with its error.
\<close>
theorem mmu_alloc_first_unused:
  assumes "platform e \<noteq> ARTY" "vm_wf qemu_store e"
  shows "if \<exists>i<256. \<not> used e i
    then \<exists>i e'. mmu_alloc e = Ret (of_nat i, frame_addr i, e') \<and> i < 256 \<and> \<not> used e i \<and> used e' i \<and>
      (\<forall>j<i. used e j) \<and> mem e' = mem e \<and>
      (\<forall>j. used e j \<longrightarrow> table e' ! j = table e ! j \<and> page_view qemu_frame e' j = page_view qemu_frame e j)
    else mmu_alloc e = Fatal ''mmu_alloc: no more available frames''"
proof (cases "find_unused 0 (table e)")
  case None
  have len: "length (table e) = 256" using assms(2) by (simp add: vm_wf_def)
  have "fm_use (table e ! i) \<noteq> 0" if "i < 256" for i
    using None len that nth_mem [of i "table e"] by (simp add: find_unused_None)
  then show ?thesis using None by (simp add: mmu_alloc_def)
next
  case (Some i)
  have q: "on_qemu e" using assms(1) by (simp add: on_qemu_def)
  have len: "length (table e) = 256" using assms(2) by (simp add: vm_wf_def)
  have i: "i < 256" "fm_use (table e ! i) = 0" "\<forall>j<i. fm_use (table e ! j) \<noteq> 0"
    using find_unused_Some [OF Some] len by auto
  let ?e = "e\<lparr>table := (table e)[i := (table e ! i)\<lparr>fm_use := 1\<rparr>]\<rparr>"
  have r: "mmu_alloc e = Ret (of_nat i, frame_addr i, ?e)"
    using Some by (simp add: mmu_alloc_def qemu_paging [OF q])
  have keep: "table ?e ! j = table e ! j \<and> page_view qemu_frame ?e j = page_view qemu_frame e j"
    if "used e j" for j
    using that i(2) by (cases "j = i") (auto simp: page_view_def qemu_frame_def)
  have ex: "\<exists>i<256. \<not> used e i" using i(1,2) by (intro exI [of _ i]) simp
  show ?thesis unfolding if_P [OF ex]
    by (rule exI [of _ i], rule exI [of _ ?e]) (use r i keep len in simp)
qed

theorem mmu_alloc_first_unused_witness:
  "\<exists>e'. mmu_alloc two_procs = Ret (2, frame_addr 2, e')"
proof -
  have q: "platform two_procs \<noteq> ARTY" by (simp add: two_procs_def)
  have "\<not> used two_procs 2" unfolding two_procs_table(2) by simp
  then have ex: "\<exists>i<256. \<not> used two_procs i" by (intro exI [of _ 2]) simp
  from mmu_alloc_first_unused [OF q two_procs_wf, unfolded if_P [OF ex]]
  obtain i e' where i: "mmu_alloc two_procs = Ret (of_nat i, frame_addr i, e')" "i < 256"
    "\<not> used two_procs i" "\<forall>j<i. used two_procs j" by blast
  have "i = 2" using i(2,3,4) [unfolded two_procs_table(2)] by (metis less_2_cases_iff linorder_neqE_nat less_irrefl)
  with i(1) show ?thesis by auto
qed

end
