(* ===== verification/Mkfs.thy ===== *)
theory Mkfs
  imports Treedisk_Create Layout
begin

text \<open>
  tools/mkfs.c: the RAM disk, an inode store over an array of FS_DISK_SIZE bytes, and mkfs,
  which creates a file system on it and writes the initial files. The RAM disk provides the
  interface the tree file system is built on.
\<close>

section \<open>The RAM disk\<close>

definition ram_getsize :: "u32 \<Rightarrow> byte list \<Rightarrow> (int \<times> byte list) outcome" where
  "ram_getsize ino fs = Ret (int (FS_DISK_SIZE div BLOCK_SIZE), fs)"

definition ram_setsize :: "u32 \<Rightarrow> block_no \<Rightarrow> byte list \<Rightarrow> (int \<times> byte list) outcome" where
  "ram_setsize ino newsize fs = Fatal ''assert''"

text \<open>An access beyond the array is an error of the model.\<close>

definition ramread :: "u32 \<Rightarrow> block_no \<Rightarrow> block \<Rightarrow> byte list \<Rightarrow> (int \<times> block \<times> byte list) outcome" where
  "ramread ino offset blk fs =
     (let a = unat (offset * of_nat BLOCK_SIZE) in
      if a + BLOCK_SIZE \<le> length fs then Ret (0, take BLOCK_SIZE (drop a fs), fs)
      else Fatal ''ramread: out of bounds'')"

definition ramwrite :: "u32 \<Rightarrow> block_no \<Rightarrow> block \<Rightarrow> byte list \<Rightarrow> (int \<times> byte list) outcome" where
  "ramwrite ino offset blk fs =
     (let a = unat (offset * of_nat BLOCK_SIZE) in
      if a + BLOCK_SIZE \<le> length fs then Ret (0, take a fs @ blk @ drop (a + BLOCK_SIZE) fs)
      else Fatal ''ramwrite: out of bounds'')"

definition ramdisk_init :: "byte list inode_store" where
  "ramdisk_init = \<lparr>st_getsize = ram_getsize, st_setsize = ram_setsize,
                   st_read = ramread, st_write = ramwrite\<rparr>"

definition ram_content :: "byte list \<Rightarrow> contents" where
  "ram_content fs off = take BLOCK_SIZE (drop (BLOCK_SIZE * unat off) fs)"

definition ram_ok :: "byte list \<Rightarrow> bool" where
  "ram_ok fs \<longleftrightarrow> length fs = FS_DISK_SIZE"

lemma ram_offset:
  fixes off :: u32
  assumes "unat off < 4096"
  shows "unat (off * of_nat BLOCK_SIZE) = 512 * unat off" "512 * unat off + 512 \<le> 2097152"
  using assms by (simp_all add: unat_word_ariths)

lemma ram_content_write:
  assumes "unat off < 4096" "length b = 512" "length fs = 2097152"
  shows "ram_content (take (512 * unat off) fs @ b @ drop (512 * unat off + 512) fs) =
    (ram_content fs)(off := b)"
proof
  fix x :: block_no
  let ?a = "512 * unat off"
  have a: "length (take ?a fs) = ?a" using assms(1,3) by simp
  consider "unat x < unat off" | "x = off" | "unat off < unat x"
    by (metis linorder_neqE_nat word_unat_eq_iff)
  then show "ram_content (take ?a fs @ b @ drop (?a + 512) fs) x = ((ram_content fs)(off := b)) x"
  proof cases
    case 1
    then have "512 * unat x + 512 \<le> ?a" by linarith
    then show ?thesis using 1 a by (auto simp: ram_content_def drop_take min_def)
  next
    case 2
    then show ?thesis using a assms(2) by (simp add: ram_content_def)
  next
    case 3
    then have "?a + 512 \<le> 512 * unat x" by linarith
    then have "drop (512 * unat x) (take ?a fs @ b @ drop (?a + 512) fs) = drop (512 * unat x) fs"
      using a assms(2) by simp
    then show ?thesis using 3 by (auto simp: ram_content_def)
  qed
qed

interpretation ram: block_store ramdisk_init bi ram_content 4096 ram_ok for bi
proof (unfold_locales, goal_cases)
  case (1 d)
  then show ?case by (simp add: ramdisk_init_def ram_getsize_def layout_defs)
next
  case (2 d off buf)
  then show ?case
    using ram_offset [OF 2(2)]
    by (simp add: ramdisk_init_def ramread_def ram_ok_def ram_content_def Let_def FS_DISK_SIZE_def)
next
  case (3 d off b)
  then show ?case
    using ram_offset [OF 3(2)] ram_content_write [OF 3(2)]
    by (simp add: ramdisk_init_def ramwrite_def ram_ok_def Let_def FS_DISK_SIZE_def)
next
  case (4 d off)
  then show ?case by (simp add: ram_content_def ram_ok_def FS_DISK_SIZE_def)
qed simp

interpretation ram: treedisk_on ramdisk_init bi ram_content 4096 ram_ok
  "\<lparr>below = ramdisk_init, below_ino = bi, ninodes = ni, stack_junk = sj\<rparr>" for bi ni sj
  by unfold_locales simp_all

section \<open>mkfs\<close>

text \<open>
  The files of the host are a parameter: \<open>host name\<close> is what reading the named file to its end
  yields. \<open>buf\<close> is the buffer that the files go through; it keeps what earlier files left in it.
\<close>

definition strncpy :: "byte list \<Rightarrow> string \<Rightarrow> nat \<Rightarrow> byte list" where
  "strncpy dst src n = take n (map of_char src @ replicate n 0) @ drop n dst"

function load_blocks ::
  "'d inode_store \<Rightarrow> u32 \<Rightarrow> nat \<Rightarrow> nat \<Rightarrow> byte list \<Rightarrow> 'd \<Rightarrow> 'd outcome" where
  "load_blocks td ino b st_size buf d =
     (if b * BLOCK_SIZE < st_size then
        obind (st_write td ino (of_nat b) (take BLOCK_SIZE (drop (b * BLOCK_SIZE) buf)) d)
          (\<lambda>(_, d). load_blocks td ino (b + 1) st_size buf d)
      else Ret d)"
  by pat_completeness auto
termination
  by (relation "measure (\<lambda>(td, ino, b, n, buf, d). n - b * BLOCK_SIZE)") auto

declare load_blocks.simps [simp del]

definition load_file ::
  "'d inode_store \<Rightarrow> (string \<Rightarrow> byte list) \<Rightarrow> u32 \<Rightarrow> string \<Rightarrow> byte list \<Rightarrow> 'd
     \<Rightarrow> (byte list \<times> 'd) outcome" where
  "load_file td host ino text buf d =
     (if text = [] \<or> hd text \<noteq> CHR ''#'' then
        let buf = strncpy buf text BLOCK_SIZE in
        obind (st_write td ino 0 (take BLOCK_SIZE buf) d) (\<lambda>(_, d). Ret (buf, d))
      else
        let data = host (tl text) in
        if length buf < length data then Fatal ''mkfs: buf out of bounds''
        else let buf = data @ drop (length data) buf in
          obind (load_blocks td ino 0 (length data) buf d) (\<lambda>d. Ret (buf, d)))"

fun load_files ::
  "'d inode_store \<Rightarrow> (string \<Rightarrow> byte list) \<Rightarrow> u32 \<Rightarrow> string list \<Rightarrow> byte list \<Rightarrow> 'd \<Rightarrow> 'd outcome" where
  "load_files td host ino [] buf d = Ret d"
| "load_files td host ino (text # rest) buf d =
     obind (load_file td host ino text buf d) (\<lambda>(buf, d).
     load_files td host (ino + 1) rest buf d)"

definition mkfs_contents :: "string list" where
  "mkfs_contents =
    [''./   0 ../   0 home/   1 bin/   6 '',
     ''./   1 ../   0 yunhao/   2 rvr/   3 lorenzo/   4 '',
     ''./   2 ../   1 README   5 '',
     ''./   3 ../   1 '',
     ''./   4 ../   1 '',
     ''With only 2000 lines of code, egos-2000 implements boot loader, microSD driver, tty driver, memory paging, address translation, interrupt handling, process scheduling and messaging, system call, file system, shell, 7 user commands and the `mkfs/mkrom` tools.'',
     ''./   6 ../   0 echo   7 cat   8 ls   9 cd  10 pwd  11 clock  12 crash1  13 crash2  14 ult  15 '',
     ''#../build/release/echo.elf'',
     ''#../build/release/cat.elf'',
     ''#../build/release/ls.elf'',
     ''#../build/release/cd.elf'',
     ''#../build/release/pwd.elf'',
     ''#../build/release/clock.elf'',
     ''#../build/release/crash1.elf'',
     ''#../build/release/crash2.elf'',
     ''#../build/release/ult.elf'']"

definition mkfs :: "(string \<Rightarrow> byte list) \<Rightarrow> byte list \<Rightarrow> block \<Rightarrow> byte list \<Rightarrow> byte list outcome" where
  "mkfs host buf junk fs =
     obind (treedisk_create ramdisk_init 0 (of_nat NINODES) junk fs) (\<lambda>(r, fs).
     if r < 0 then Fatal ''assert''
     else load_files (treedisk_init ramdisk_init 0 junk) host 0 mkfs_contents buf fs)"

section \<open>What mkfs leaves on the disk\<close>

text \<open>A file holds a sequence of bytes, followed by anything up to the end of the last block.\<close>

definition holds_bytes :: "byte list \<Rightarrow> vfile \<Rightarrow> bool" where
  "holds_bytes bs f \<longleftrightarrow> fsize f = (length bs + 511) div 512 \<and>
     (\<forall>i<length bs. fdata f (i div 512) ! (i mod 512) = bs ! i)"

definition file_bytes :: "(string \<Rightarrow> byte list) \<Rightarrow> string \<Rightarrow> byte list" where
  "file_bytes host text =
     (if text = [] \<or> hd text \<noteq> CHR ''#'' then map of_char text else host (tl text))"

definition load_cost :: "(string \<Rightarrow> byte list) \<Rightarrow> string \<Rightarrow> nat" where
  "load_cost host text = 11 * ((length (file_bytes host text) + 511) div 512)"

text \<open>
  What the loop of load_blocks does to the files from iteration \<open>b\<close> on: the remaining chunks of
  the buffer replace blocks of the file.
\<close>

definition loaded :: "nat \<Rightarrow> contents \<Rightarrow> (nat \<Rightarrow> vfile) \<Rightarrow> block_no multiset \<Rightarrow> nat \<Rightarrow> nat \<Rightarrow> nat
    \<Rightarrow> byte list \<Rightarrow> bool" where
  "loaded N c fs F ino b n buf \<longleftrightarrow> (\<exists>f F'.
     size F \<le> size F' + 11 * ((n + 511) div 512 - b) \<and> holds_files N c (fs(ino := f)) F' \<and>
     fsize f = (if b * 512 < n then max (fsize (fs ino)) ((n + 511) div 512) else fsize (fs ino)) \<and>
     (\<forall>x. fdata f x = (if b \<le> x \<and> x * 512 < n then take 512 (drop (x * 512) buf)
                      else fdata (fs ino) x)))"

lemma loaded_done:
  assumes "\<not> b * 512 < n" "holds_files N c fs F"
  shows "loaded N c fs F ino b n buf"
proof -
  have "\<not> (b \<le> x \<and> x * 512 < n)" for x
    using assms(1) by (meson le_trans linorder_not_less mult_le_mono1)
  then show ?thesis unfolding loaded_def using assms
    by (auto intro!: exI [of _ "fs ino"] exI [of _ F])
qed

lemma loaded_step:
  assumes "loaded N c (fs(ino := vfile_write (fs ino) b (take 512 (drop (b * 512) buf)))) F1 ino (b + 1) n buf"
    and "b * 512 < n" "size F \<le> size F1 + 11"
  shows "loaded N c fs F ino b n buf"
proof -
  let ?g = "vfile_write (fs ino) b (take 512 (drop (b * 512) buf))" and ?m = "(n + 511) div 512"
  obtain f F' where f: "size F1 \<le> size F' + 11 * (?m - (b + 1))" "holds_files N c (fs(ino := f)) F'"
    "fsize f = (if (b + 1) * 512 < n then max (fsize ?g) ?m else fsize ?g)"
    "\<forall>x. fdata f x = (if b + 1 \<le> x \<and> x * 512 < n then take 512 (drop (x * 512) buf) else fdata ?g x)"
    using assms(1) by (auto simp: loaded_def)
  have m: "b + 1 \<le> ?m" using assms(2) by linarith
  have m': "?m = b + 1" if "\<not> (b + 1) * 512 < n" using assms(2) that by (intro div_nat_eqI) simp_all
  have "size F \<le> size F' + 11 * (?m - b)" using f(1) assms(3) m by linarith
  moreover have "fsize f = max (fsize (fs ino)) ?m" using f(3) m m' by (auto simp: vfile_write_def)
  moreover have "fdata f x = (if b \<le> x \<and> x * 512 < n then take 512 (drop (x * 512) buf)
      else fdata (fs ino) x)" for x
    using f(4) assms(2) by (cases "x = b") (auto simp: vfile_write_def)
  ultimately show ?thesis unfolding loaded_def
    using f(2) assms(2) by (intro exI [of _ f] exI [of _ F']) simp
qed

lemma loaded_bytes:
  assumes "loaded N c fs F ino 0 n buf" "fs ino = empty_file" "n \<le> length buf"
  shows "\<exists>f F'. holds_bytes (take n buf) f \<and> holds_files N c (fs(ino := f)) F' \<and>
    size F \<le> size F' + 11 * ((n + 511) div 512)"
proof -
  obtain f F' where f: "size F \<le> size F' + 11 * ((n + 511) div 512)" "holds_files N c (fs(ino := f)) F'"
    "fsize f = (if 0 < n then max (fsize (fs ino)) ((n + 511) div 512) else fsize (fs ino))"
    "\<forall>x. fdata f x = (if x * 512 < n then take 512 (drop (x * 512) buf) else fdata (fs ino) x)"
    using assms(1) by (auto simp: loaded_def)
  have "fdata f (i div 512) ! (i mod 512) = take n buf ! i" if "i < n" for i
  proof -
    have lt: "i div 512 * 512 < n"
      using that by (metis div_times_less_eq_dividend le_less_trans)
    then have "fdata f (i div 512) = take 512 (drop (i div 512 * 512) buf)" using f(4) by simp
    moreover have "take 512 (drop k buf) ! (i mod 512) = buf ! (k + i mod 512)" if "k \<le> length buf" for k
      using that by simp
    moreover have "i div 512 * 512 \<le> length buf" using lt assms(3) by linarith
    ultimately show ?thesis using that by simp
  qed
  moreover have "fsize f = (n + 511) div 512" using f(3) assms(2) by (auto simp: empty_file_def)
  ultimately have "holds_bytes (take n buf) f" using assms(3) by (simp add: holds_bytes_def)
  with f(1,2) show ?thesis by blast
qed

context treedisk_on
begin

lemma load_blocks_ok:
  assumes td: "st_write td = treedisk_write ts" and "inv d" "holds_files nblk (content d) fs F"
    and "unat ino < fs_inodes (content d)"
    and buf: "512 * ((n + 511) div 512) \<le> length buf" "length buf < 2 ^ 31"
    and "11 * ((n + 511) div 512 - b) \<le> size F"
  shows "owp (load_blocks td ino b n buf d) (\<lambda>d'. inv d' \<and>
     fs_inodes (content d') = fs_inodes (content d) \<and> loaded nblk (content d') fs F (unat ino) b n buf)"
  using assms(2-4,7)
proof (induction "(n + 511) div 512 - b" arbitrary: b d fs F)
  case 0
  then have "\<not> b * 512 < n" by linarith
  moreover from this have "load_blocks td ino b n buf d = Ret d" by (subst load_blocks.simps) simp
  ultimately show ?case using 0 loaded_done by simp
next
  case (Suc k)
  let ?blk = "take 512 (drop (b * 512) buf)"
  have b: "b * 512 < n" "b * 512 + 512 \<le> length buf" using Suc.hyps(2) buf(1) by linarith+
  then have len: "length ?blk = 512" by simp
  have ub: "unat (of_nat b :: u32) = b" "unat ((of_nat b :: u32) + 1) = b + 1"
    using b buf(2) by (simp_all add: unat_of_nat take_bit_nat_eq_self unat_word_ariths)
  have bw: "(of_nat b :: u32) + 1 \<noteq> 0" using ub(2) by (metis add_is_0 unat_0 zero_neq_one)
  have step: "load_blocks td ino b n buf d = obind (treedisk_write ts ino (of_nat b) ?blk d)
      (\<lambda>(_, d). load_blocks td ino (b + 1) n buf d)"
    using b(1) td by (subst load_blocks.simps) simp
  have enough: "11 \<le> size F" using Suc.prems(4) Suc.hyps(2) by linarith
  show ?case unfolding step owp_obind
  proof (rule write_files_rule [OF Suc.prems(1-3) len bw enough], simp)
    fix d' F'
    assume d': "inv d'" "fs_inodes (content d') = fs_inodes (content d)" "size F \<le> size F' + 11"
      "holds_files nblk (content d')
        (fs(unat ino := vfile_write (fs (unat ino)) (unat (of_nat b :: u32)) ?blk)) F'"
    have "11 * ((n + 511) div 512 - (b + 1)) \<le> size F'"
      using d'(3) Suc.prems(4) Suc.hyps(2) by linarith
    then have "owp (load_blocks td ino (b + 1) n buf d') (\<lambda>d''. inv d'' \<and>
       fs_inodes (content d'') = fs_inodes (content d') \<and>
       loaded nblk (content d'') (fs(unat ino := vfile_write (fs (unat ino)) b ?blk)) F' (unat ino) (b + 1) n buf)"
      using Suc.hyps(2) Suc.prems(3) d' ub(1) by (intro Suc.hyps(1)) auto
    then show "owp (load_blocks td ino (Suc b) n buf d') (\<lambda>d'. inv d' \<and>
       fs_inodes (content d') = fs_inodes (content d) \<and> loaded nblk (content d') fs F (unat ino) b n buf)"
      using loaded_step [OF _ b(1) d'(3)] d'(2) by (auto elim!: owp_mono)
  qed
qed

end

definition file_loaded ::
  "nat \<Rightarrow> contents \<Rightarrow> contents \<Rightarrow> (nat \<Rightarrow> vfile) \<Rightarrow> block_no multiset \<Rightarrow> nat \<Rightarrow> byte list \<Rightarrow> nat \<Rightarrow> bool" where
  "file_loaded N c c' fs F ino bs n \<longleftrightarrow> fs_inodes c' = fs_inodes c \<and>
     (\<exists>f F'. holds_bytes bs f \<and> holds_files N c' (fs(ino := f)) F' \<and> size F \<le> size F' + n)"

definition loadable :: "(string \<Rightarrow> byte list) \<Rightarrow> string \<Rightarrow> bool" where
  "loadable host text \<longleftrightarrow> text \<noteq> [] \<and>
     (if hd text = CHR ''#'' then length (host (tl text)) \<le> 131072 else length text \<le> 512)"

lemma one_block: "s \<noteq> [] \<Longrightarrow> length s \<le> 512 \<Longrightarrow> (length s + 511) div 512 = 1"
  by (cases s) (auto intro!: div_nat_eqI)

lemma holds_bytes_text:
  assumes "text \<noteq> []" "length text \<le> 512"
  shows "holds_bytes (map of_char text)
    (vfile_write empty_file 0 (take 512 (map of_char text @ replicate 512 0)))"
  using one_block [OF assms] assms(2)
  by (auto simp: holds_bytes_def vfile_write_def empty_file_def nth_append)

context treedisk_on
begin

lemma load_file_ok:
  assumes td: "st_write td = treedisk_write ts" and d: "inv d" "holds_files nblk (content d) fs F"
    and ino: "unat ino < fs_inodes (content d)" "fs (unat ino) = empty_file"
    and buf: "length buf = 131072" and tx: "loadable host text" "load_cost host text \<le> size F"
  shows "owp (load_file td host ino text buf d) (\<lambda>(buf', d'). length buf' = 131072 \<and> inv d' \<and>
     file_loaded nblk (content d) (content d') fs F (unat ino) (file_bytes host text)
       (load_cost host text))"
proof (cases "hd text = CHR ''#''")
  case False
  have text': "text \<noteq> []" "length text \<le> 512" using tx(1) False by (auto simp: loadable_def)
  let ?blk = "take 512 (map of_char text @ replicate 512 0)"
  have cost: "load_cost host text = 11" using False one_block [OF text'] by (simp add: load_cost_def file_bytes_def)
  have eq: "load_file td host ino text buf d =
      obind (treedisk_write ts ino 0 ?blk d) (\<lambda>(_, d). Ret (strncpy buf text 512, d))"
    using False td text'(2) by (simp add: load_file_def strncpy_def Let_def min_absorb1)
  show ?thesis unfolding eq owp_obind
  proof (rule write_files_rule [OF d ino(1)], goal_cases)
    case (4 d' F')
    then show ?case using ino(2) cost buf False holds_bytes_text [OF text']
      by (auto simp: file_loaded_def strncpy_def file_bytes_def)
  qed (use cost tx in auto)
next
  case True
  let ?data = "host (tl text)"
  let ?buf = "?data @ drop (length ?data) buf"
  have data: "text \<noteq> []" "length ?data \<le> 131072" using tx(1) True by (auto simp: loadable_def)
  have eq: "load_file td host ino text buf d =
      obind (load_blocks td ino 0 (length ?data) ?buf d) (\<lambda>d. Ret (?buf, d))"
    using True data buf by (simp add: load_file_def Let_def)
  have cost: "load_cost host text = 11 * ((length ?data + 511) div 512)"
    "file_bytes host text = ?data"
    using True data(1) by (simp_all add: load_cost_def file_bytes_def)
  have lenb: "length ?buf = 131072" using data(2) buf by simp
  have "(length ?data + 511) div 512 < 257" using data(2) by (intro less_mult_imp_div_less) simp
  then have nb: "512 * ((length ?data + 511) div 512) \<le> length ?buf" unfolding lenb by simp
  have nb31: "length ?buf < 2 ^ 31" unfolding lenb by simp
  have ld: "owp (load_blocks td ino 0 (length ?data) ?buf d) (\<lambda>d'. inv d' \<and>
     fs_inodes (content d') = fs_inodes (content d) \<and>
     loaded nblk (content d') fs F (unat ino) 0 (length ?data) ?buf)"
    by (rule load_blocks_ok [OF td d ino(1) nb nb31]) (use tx(2) cost(1) in simp)
  show ?thesis unfolding eq owp_obind
    using loaded_bytes [of nblk _ fs F "unat ino" "length ?data" ?buf] ino(2) cost lenb
    by (auto simp: file_loaded_def intro!: owp_mono [OF ld])
qed

lemma load_files_ok:
  assumes "st_write td = treedisk_write ts" "inv d" "holds_files nblk (content d) fs F"
    and "unat ino + length texts \<le> fs_inodes (content d)" "fs_inodes (content d) < 2 ^ 32"
    and "\<forall>k\<ge>unat ino. fs k = empty_file" "length buf = 131072"
    and "\<forall>t\<in>set texts. loadable host t" "(\<Sum>t\<leftarrow>texts. load_cost host t) \<le> size F"
  shows "owp (load_files td host ino texts buf d) (\<lambda>d'. inv d' \<and>
     fs_inodes (content d') = fs_inodes (content d) \<and>
     (\<exists>fs' F'. holds_files nblk (content d') fs' F' \<and> (\<forall>k<unat ino. fs' k = fs k) \<and>
        (\<forall>j<length texts. holds_bytes (file_bytes host (texts ! j)) (fs' (unat ino + j)))))"
  using assms(2-4,5-9)
proof (induction texts arbitrary: ino fs F buf d)
  case Nil
  then show ?case by auto
next
  case (Cons t texts)
  have u: "unat (ino + 1) = Suc (unat ino)"
    using Cons.prems(3,4) by (simp add: unat_word_ariths)
  show ?case unfolding load_files.simps owp_obind
  proof (rule owp_mono [OF load_file_ok [OF assms(1) Cons.prems(1,2)]], goal_cases)
    case (6 bd)
    obtain buf' d' where bd: "bd = (buf', d')" by fastforce
    then obtain f F' where d': "length buf' = 131072" "inv d'"
      "fs_inodes (content d') = fs_inodes (content d)"
      "holds_bytes (file_bytes host t) f" "holds_files nblk (content d') (fs(unat ino := f)) F'"
      "size F \<le> size F' + load_cost host t"
      using 6 by (auto simp: file_loaded_def)
    have "owp (load_files td host (ino + 1) texts buf' d') (\<lambda>d''. inv d'' \<and>
     fs_inodes (content d'') = fs_inodes (content d') \<and>
     (\<exists>fs' F'. holds_files nblk (content d'') fs' F' \<and>
        (\<forall>k<unat (ino + 1). fs' k = (fs(unat ino := f)) k) \<and>
        (\<forall>j<length texts. holds_bytes (file_bytes host (texts ! j)) (fs' (unat (ino + 1) + j)))))"
      by (rule Cons.IH [OF d'(2,5)]) (use u d' Cons.prems in auto)
    then show ?case unfolding bd prod.case
    proof (rule owp_mono, elim conjE exE, intro conjI, goal_cases)
      case (3 d'' fs' F'')
      have "holds_bytes (file_bytes host ((t # texts) ! j)) (fs' (unat ino + j))"
        if "j < length (t # texts)" for j
        using 3 u d'(4) that by (cases j) auto
      with 3 u show ?case by (intro exI [of _ fs'] exI [of _ F'']) auto
    qed (use d'(3) in auto)
  qed (use Cons.prems in auto)
qed

end

lemma mkfs_texts: "\<forall>t\<in>set mkfs_contents. t \<noteq> [] \<and> (hd t = CHR ''#'' \<or> length t \<le> 512)"
  unfolding mkfs_contents_def by code_simp

lemma mkfs_counts:
  "length mkfs_contents = 16" "length (filter (\<lambda>t. hd t = CHR ''#'') mkfs_contents) = 9"
  "length (filter (\<lambda>t. hd t \<noteq> CHR ''#'') mkfs_contents) = 7"
  unfolding mkfs_contents_def by code_simp+

lemma sum_list_two_bounds:
  fixes f :: "'a \<Rightarrow> nat"
  assumes "\<forall>t\<in>set ts. f t \<le> (if P t then a else b)"
  shows "(\<Sum>t\<leftarrow>ts. f t) \<le> a * length (filter P ts) + b * length (filter (\<lambda>t. \<not> P t) ts)"
  using assms by (induction ts) fastforce+

lemma mkfs_loadable:
  assumes "\<forall>name. length (host name) \<le> 20480"
  shows "\<forall>t\<in>set mkfs_contents. loadable host t"
    and "(\<Sum>t\<leftarrow>mkfs_contents. load_cost host t) \<le> 4037"
proof -
  have h: "length (host name) \<le> 131072" for name
    using assms [rule_format, of name] by linarith
  show "\<forall>t\<in>set mkfs_contents. loadable host t"
    using mkfs_texts h by (auto simp: loadable_def)
  have "load_cost host t \<le> (if hd t = CHR ''#'' then 440 else 11)" if "t \<in> set mkfs_contents" for t
  proof (cases "hd t = CHR ''#''")
    case True
    have "(length (host (tl t)) + 511) div 512 < 41"
      using assms [rule_format, of "tl t"] by (intro less_mult_imp_div_less) simp
    moreover have "t \<noteq> []" using that mkfs_texts by blast
    ultimately show ?thesis using True by (simp add: load_cost_def file_bytes_def)
  next
    case False
    then have "(length t + 511) div 512 = 1" using that mkfs_texts one_block [of t] by blast
    then show ?thesis using False by (simp add: load_cost_def file_bytes_def)
  qed
  then show "(\<Sum>t\<leftarrow>mkfs_contents. load_cost host t) \<le> 4037"
    using sum_list_two_bounds [of mkfs_contents "load_cost host" "\<lambda>t. hd t = CHR ''#''" 440 11]
    unfolding mkfs_counts by simp
qed

section \<open>The tree file system on the RAM disk\<close>

lemma fresh_ram: "ram_ok (replicate FS_DISK_SIZE 0)" "n_inodeblocks (ram_content (replicate FS_DISK_SIZE 0) 0) = 0"
proof -
  show "ram_ok (replicate FS_DISK_SIZE 0)" by (simp add: ram_ok_def)
  have "ram_content (replicate FS_DISK_SIZE 0) 0 = null_block"
    unfolding ram_content_def null_block_def by (simp only: mult_0_right unat_0 drop0 take_replicate)
      (simp add: FS_DISK_SIZE_def)
  then show "n_inodeblocks (ram_content (replicate FS_DISK_SIZE 0) 0) = 0" by (simp add: ref_simps)
qed

text \<open>The file system on the RAM disk with NINODES inodes, as mkfs creates it.\<close>

lemma ram_created:
  assumes "length junk = 512"
  obtains d where
    "treedisk_create ramdisk_init 0 (of_nat NINODES) junk (replicate FS_DISK_SIZE 0) = Ret (0, d)"
    "ram_ok d" "new_fs 4096 2 (ram_content d)"
proof -
  have "owp (treedisk_create ramdisk_init 0 (of_nat NINODES) junk (replicate FS_DISK_SIZE 0))
    (\<lambda>(r, d'). r = 0 \<and> ram_ok d' \<and> new_fs 4096 (create_inodeblocks (of_nat NINODES)) (ram_content d'))"
    by (rule ram.treedisk_create_ok [OF fresh_ram assms]) (simp_all add: create_inodeblocks_def NINODES_def)
  moreover have "create_inodeblocks (of_nat NINODES) = 2"
    by (simp add: create_inodeblocks_def NINODES_def)
  ultimately show ?thesis by (elim owpE) (auto intro: that)
qed

lemma new_fs_holds:
  assumes "new_fs N nib c"
  shows "holds_files N c (\<lambda>_. empty_file) (mset_set (data_blocks N c))"
  using assms by (simp add: new_fs_def holds_files_def)

lemma new_fs_free:
  assumes "new_fs 4096 2 c"
  shows "size (mset_set (data_blocks 4096 c)) = 4093"
proof -
  have "unat (n_inodeblocks (c 0)) = 2" using assms by (simp add: new_fs_def fs_inodes_def)
  then have "data_blocks 4096 c = block_range 3 4096"
    by (auto simp: data_blocks_def block_range_def)
  moreover have "bij_betw unat (block_range 3 4096) {3..<4096}"
  proof (rule bij_betw_byWitness [where f' = "\<lambda>n. of_nat n :: u32"])
    show "\<forall>a\<in>block_range 3 4096. of_nat (unat a) = a" by simp
  qed (auto simp: block_range_def unat_of_nat take_bit_nat_eq_self)
  ultimately show ?thesis using bij_betw_same_card by fastforce
qed

end
