(* ===== verification/FS_Properties.thy ===== *)
theory FS_Properties
  imports Mkfs
begin

text \<open>
  The properties of the file system of library/file/file.c on the RAM disk of tools/mkfs.c:
  what the methods of treedisk_init do to the files, and what mkfs leaves on the disk.
\<close>

lemmas td_ops = treedisk_init_def Let_def

text \<open>A disk with no data block at all, all of it inode blocks.\<close>

definition inode_only_disk :: "byte list" where
  "inode_only_disk = set_ref null_block 0 4095 @ replicate (FS_DISK_SIZE - BLOCK_SIZE) 0"

lemma inode_only_disk_ok: "ram_ok inode_only_disk"
  by (simp add: inode_only_disk_def ram_ok_def layout_defs)

lemma inode_only_disk_content:
  "ram_content inode_only_disk x = (if x = 0 then set_ref null_block 0 4095
     else if unat x < 4096 then null_block else [])"
proof (cases "x = 0")
  case True
  then show ?thesis by (simp add: ram_content_def inode_only_disk_def)
next
  case False
  then have x: "1 \<le> unat x" by (simp add: unat_gt_0 Suc_leI)
  let ?r = "replicate (FS_DISK_SIZE - 512) 0 :: byte list"
  have "ram_content inode_only_disk x = take 512 (drop (512 * unat x - 512) ?r)"
    using x by (simp add: ram_content_def inode_only_disk_def)
  also have "\<dots> = replicate (min 512 (FS_DISK_SIZE - 512 - (512 * unat x - 512))) 0"
    by (simp only: drop_replicate take_replicate)
  also have "min 512 (FS_DISK_SIZE - 512 - (512 * unat x - 512)) = (if unat x < 4096 then 512 else 0)"
    using x by (auto simp: FS_DISK_SIZE_def)
  finally show ?thesis using False by (simp add: null_block_def)
qed

lemma inode_only_disk_new: "new_fs 4096 4095 (ram_content inode_only_disk)"
proof -
  have sb: "set_ref null_block 0 (4095 :: u32) = set_ref (set_ref null_block 0 4095) (Suc 0) 0"
    by (simp add: set_ref_def null_block_def byte_of_def numeral_nat list_update_same_conv)
  have "new_fs 4096 (unat (4095 :: u32)) (ram_content inode_only_disk)"
    by (rule new_fsI [of _ 4095 0])
      (use sb in \<open>auto simp: inode_only_disk_content intro: chain_end\<close>)
  then show ?thesis by simp
qed

lemma created_disk:
  obtains d where "ram_ok d" "new_fs 4096 2 (ram_content d)" "fs_inodes (ram_content d) = 128"
    "fs_wf 4096 (ram_content d) (mset_set (data_blocks 4096 (ram_content d)))"
    "size (mset_set (data_blocks 4096 (ram_content d))) = 4093"
    "\<And>k. k < 128 \<Longrightarrow> fs_file (ram_content d) k = empty_file"
proof -
  obtain d where "ram_ok d" and new: "new_fs 4096 2 (ram_content d)"
    using ram_created [of null_block] by auto
  with new_fs_free [OF new] that show ?thesis by (auto simp: new_fs_def)
qed

lemma ram_content_inj:
  assumes "ram_ok d" "ram_ok d'" "ram_content d = ram_content d'"
  shows "d = d'"
proof (rule nth_equalityI)
  show "length d = length d'" using assms(1,2) by (simp add: ram_ok_def)
  fix i assume i: "i < length d"
  have elem: "ram_content x (of_nat (i div 512)) ! (i mod 512) = x ! i" if "ram_ok x" for x
  proof -
    have "i div 512 < 4096" using i assms(1) by (simp add: ram_ok_def FS_DISK_SIZE_def div_less_iff_less_mult)
    then have "unat (of_nat (i div 512) :: u32) = i div 512"
      by (simp add: unat_of_nat take_bit_nat_eq_self)
    moreover have "512 * (i div 512) \<le> length x"
      using that i assms(1) by (simp add: ram_ok_def)
    ultimately show ?thesis by (simp add: ram_content_def)
  qed
  show "d ! i = d' ! i" using elem [OF assms(1)] elem [OF assms(2)] assms(3) by metis
qed

section \<open>Writing\<close>

text \<open>
  C0: Writing a block. On a well-formed disk with enough free blocks, the write method of the
  file system returns 0 and changes exactly the file it is called for, the way the
  specification \<open>vfile_write\<close> says: block \<open>off\<close> becomes \<open>blk\<close>, the size grows to cover it, and
  every other block of every file is as before. The disk stays well-formed (each data block is
  once in a file or once on the free list), and at most \<open>write_cost\<close> blocks leave the free list.
\<close>
theorem treedisk_write_refines:
  assumes "ram_ok d" "fs_wf 4096 (ram_content d) F" "unat ino < fs_inodes (ram_content d)"
    and "length blk = BLOCK_SIZE" "off \<noteq> 0xFFFFFFFF"
    and "write_cost (ram_content d) (unat ino) off \<le> size F"
  shows "\<exists>d' F'. st_write (treedisk_init ramdisk_init 0 junk) ino off blk d = Ret (0, d') \<and>
    ram_ok d' \<and> fs_wf 4096 (ram_content d') F' \<and> F' \<subseteq># F \<and>
    size F \<le> size F' + write_cost (ram_content d) (unat ino) off \<and>
    fs_inodes (ram_content d') = fs_inodes (ram_content d) \<and>
    (\<forall>k<fs_inodes (ram_content d). fs_file (ram_content d') k =
       (if k = unat ino then vfile_write (fs_file (ram_content d) k) (unat off) blk
        else fs_file (ram_content d) k))"
proof -
  have minus1: "(- 1 :: u32) = 0xFFFFFFFF" by simp
  have "off + 1 \<noteq> 0" using assms(5) by (metis add_eq_0_iff2 minus1)
  then have "owp (st_write (treedisk_init ramdisk_init 0 junk) ino off blk d) (\<lambda>(r, d'). r = 0 \<and>
      ram_ok d' \<and> write_post 4096 (ram_content d) (ram_content d') F (unat ino) (unat off) blk
        (write_cost (ram_content d) (unat ino) off))"
    using ram.treedisk_write_ok [OF assms(1-3), where bi = 0 and ni = 0 and sj = junk] assms(4,6)
    by (simp add: td_ops)
  then show ?thesis by (elim owpE) (auto simp: write_post_def)
qed

theorem treedisk_write_refines_witness:
  "\<exists>d d'. ram_ok d \<and> fs_file (ram_content d) 3 = empty_file \<and>
     st_write (treedisk_init ramdisk_init 0 null_block) 3 200 (replicate 512 7) d = Ret (0, d') \<and>
     fs_file (ram_content d') 3 = vfile_write empty_file 200 (replicate 512 7)"
proof -
  obtain d where d: "ram_ok d" "fs_inodes (ram_content d) = 128"
    "fs_wf 4096 (ram_content d) (mset_set (data_blocks 4096 (ram_content d)))"
    "size (mset_set (data_blocks 4096 (ram_content d))) = 4093"
    "\<And>k. k < 128 \<Longrightarrow> fs_file (ram_content d) k = empty_file"
    by (rule created_disk) blast
  have "write_cost (ram_content d) (unat (3 :: u32)) 200 \<le> 4093"
    by (rule order.trans [OF write_cost_le]) simp
  with treedisk_write_refines [OF d(1,3), of 3 "replicate 512 7" 200 null_block] d
  show ?thesis by auto
qed

lemma ram_read_eq:
  assumes "ram_ok d" "fs_wf 4096 (ram_content d) F"
  shows "st_read (treedisk_init ramdisk_init 0 junk) ino off buf d =
    (case (if unat ino < fs_inodes (ram_content d)
           then vfile_read (fs_file (ram_content d) (unat ino)) (unat off) else None) of
       Some blk \<Rightarrow> Ret (0, blk, d) | None \<Rightarrow> Ret (- 1, buf, d))"
proof -
  have "owp (st_read (treedisk_init ramdisk_init 0 junk) ino off buf d) (\<lambda>(r, blk, d').
     ram_ok d' \<and> ram_content d' = ram_content d \<and>
     (if unat ino < fs_inodes (ram_content d) \<and> unat off < fsize (fs_file (ram_content d) (unat ino))
      then r = 0 \<and> blk = fdata (fs_file (ram_content d) (unat ino)) (unat off)
      else r = - 1 \<and> blk = buf))"
    using ram.treedisk_read_ok [OF assms, where bi = 0 and ni = 0 and sj = junk] by (simp add: td_ops)
  then show ?thesis
    by (elim owpE)
      (auto simp: vfile_read_def split: if_splits dest: ram_content_inj [OF _ assms(1)])
qed

text \<open>
  C2: Reading a block, on every branch. The read method never changes the disk. For an existing
  inode and an offset below the size of its file it returns 0 and the block of the file, which
  is a block of zeros where nothing was written; otherwise it returns -1 and leaves the buffer.
\<close>
theorem treedisk_read_refines:
  assumes "ram_ok d" "fs_wf 4096 (ram_content d) F"
  shows "st_read (treedisk_init ramdisk_init 0 junk) ino off buf d =
    (case (if unat ino < fs_inodes (ram_content d)
           then vfile_read (fs_file (ram_content d) (unat ino)) (unat off) else None) of
       Some blk \<Rightarrow> Ret (0, blk, d) | None \<Rightarrow> Ret (- 1, buf, d))"
  using assms by (rule ram_read_eq)

theorem treedisk_read_refines_witness:
  "\<exists>d. ram_ok d \<and> fs_inodes (ram_content d) = 128 \<and>
     st_read (treedisk_init ramdisk_init 0 null_block) 5 0 (replicate 512 1) d
       = Ret (- 1, replicate 512 1, d)"
proof -
  obtain d where d: "ram_ok d" "fs_inodes (ram_content d) = 128"
    "fs_wf 4096 (ram_content d) (mset_set (data_blocks 4096 (ram_content d)))"
    "\<And>k. k < 128 \<Longrightarrow> fs_file (ram_content d) k = empty_file"
    by (rule created_disk) blast
  with treedisk_read_refines [OF d(1,3), of null_block 5 0 "replicate 512 1"]
  show ?thesis by (auto simp: vfile_read_def empty_file_def)
qed

text \<open>
  C0: Reading back. After a successful write of \<open>blk\<close> at block \<open>off\<close> of a file, reading that
  block returns \<open>blk\<close>, and reading any other block of any file returns what it returned before,
  except that blocks between the old size and \<open>off\<close> now read as zeros instead of failing.
\<close>
theorem treedisk_read_after_write:
  assumes "ram_ok d" "fs_wf 4096 (ram_content d) F" "unat ino < fs_inodes (ram_content d)"
    and "length blk = BLOCK_SIZE" "off \<noteq> 0xFFFFFFFF" "11 \<le> size F"
    and "unat ino' < fs_inodes (ram_content d)"
  shows "\<exists>d'. st_write (treedisk_init ramdisk_init 0 junk) ino off blk d = Ret (0, d') \<and>
    st_read (treedisk_init ramdisk_init 0 junk) ino' off' buf d' =
      (if ino' = ino \<and> off' = off then Ret (0, blk, d')
       else case st_read (treedisk_init ramdisk_init 0 junk) ino' off' buf d of
         Ret (r, b, _) \<Rightarrow> if r < 0 \<and> ino' = ino \<and> unat off' < unat off
                        then Ret (0, null_block, d') else Ret (r, b, d')
       | Fatal e \<Rightarrow> Fatal e)"
proof -
  let ?td = "treedisk_init ramdisk_init 0 junk" and ?c = "ram_content d"
  have cost: "write_cost ?c (unat ino) off \<le> 11" by (rule write_cost_le)
  have minus1: "(- 1 :: u32) = 0xFFFFFFFF" by simp
  have "off + 1 \<noteq> 0" using assms(5) by (metis add_eq_0_iff2 minus1)
  then have "owp (st_write ?td ino off blk d) (\<lambda>(r, d'). r = 0 \<and> ram_ok d' \<and>
      write_post 4096 ?c (ram_content d') F (unat ino) (unat off) blk (write_cost ?c (unat ino) off))"
    using ram.treedisk_write_ok [OF assms(1-3), where bi = 0 and ni = 0 and sj = junk] assms(4,6) cost
    by (simp add: td_ops)
  then obtain d' F' where d': "st_write ?td ino off blk d = Ret (0, d')" "ram_ok d'"
    "fs_wf 4096 (ram_content d') F'" "fs_inodes (ram_content d') = fs_inodes ?c"
    "\<forall>k<fs_inodes ?c. fs_file (ram_content d') k =
       (if k = unat ino then vfile_write (fs_file ?c (unat ino)) (unat off) blk else fs_file ?c k)"
    by (elim owpE) (auto simp: write_post_def)
  have hole: "fdata (fs_file ?c (unat ino)) x = null_block" if "fsize (fs_file ?c (unat ino)) \<le> x" for x
    using that assms(2,3) by (auto simp: fs_wf_def)
  consider "unat off' < unat off" | "off' = off" | "unat off < unat off'"
    by (metis linorder_neqE_nat word_unat_eq_iff)
  then show ?thesis
    using d' assms(3,7) hole ram_read_eq [OF assms(1,2)] ram_read_eq [OF d'(2,3)]
    by cases (auto simp: vfile_read_def vfile_write_def max_def word_unat_eq_iff [symmetric] split: if_splits)
qed

theorem treedisk_read_after_write_witness:
  "\<exists>d d'. ram_ok d \<and>
     st_write (treedisk_init ramdisk_init 0 null_block) 3 200 (replicate 512 7) d = Ret (0, d') \<and>
     st_read (treedisk_init ramdisk_init 0 null_block) 3 200 null_block d' = Ret (0, replicate 512 7, d')"
proof -
  obtain d where d: "ram_ok d" "fs_inodes (ram_content d) = 128"
    "fs_wf 4096 (ram_content d) (mset_set (data_blocks 4096 (ram_content d)))"
    "size (mset_set (data_blocks 4096 (ram_content d))) = 4093"
    by (rule created_disk) blast
  with treedisk_read_after_write [OF d(1,3), of 3 "replicate 512 7" 200 3 null_block 200 null_block]
  show ?thesis by auto
qed

section \<open>Errors\<close>

text \<open>
  C6: A full disk. When no free block is left, writing past the end of a file that has no block
  yet stops in treedisk_alloc_block instead of returning; nothing is silently dropped.
\<close>
theorem treedisk_write_full_disk:
  assumes "ram_ok d" "fs_wf 4096 (ram_content d) {#}" "unat ino < fs_inodes (ram_content d)"
    and "file_root (ram_content d) (unat ino) = 0" "file_size (ram_content d) (unat ino) \<le> off"
  shows "st_write (treedisk_init ramdisk_init 0 junk) ino off blk d =
    Fatal ''treedisk_alloc_block: inode store is full''"
  using ram.write_full [OF assms, where bi = 0 and ni = 0 and sj = junk] by (simp add: td_ops)

theorem treedisk_write_full_disk_witness:
  "st_write (treedisk_init ramdisk_init 0 null_block) 9 4 (replicate 512 7) inode_only_disk =
    Fatal ''treedisk_alloc_block: inode store is full''"
proof (rule treedisk_write_full_disk)
  have new: "new_fs 4096 4095 (ram_content inode_only_disk)" by (rule inode_only_disk_new)
  then have n: "fs_inodes (ram_content inode_only_disk) = 64 * 4095" by (simp add: new_fs_def)
  then have nib: "unat (n_inodeblocks (ram_content inode_only_disk 0)) = 4095" by (simp add: fs_inodes_def)
  have "data_blocks 4096 (ram_content inode_only_disk) = {}" by (auto simp: data_blocks_def nib)
  with new show "fs_wf 4096 (ram_content inode_only_disk) {#}" by (simp add: new_fs_def)
  show "unat (9 :: u32) < fs_inodes (ram_content inode_only_disk)" using n by simp
  show "file_root (ram_content inode_only_disk) (unat (9 :: u32)) = 0"
    "file_size (ram_content inode_only_disk) (unat (9 :: u32)) \<le> 4"
    by (simp_all add: file_root_def file_size_def inode_blk_def inode_only_disk_content ref_simps)
qed (rule inode_only_disk_ok)

text \<open>
  C7: A bad inode number. getsize and write return -1 for an inode number that the disk does not
  have, without changing the disk, and getsize of an existing inode returns the number of blocks
  of its file as a signed integer.
\<close>
theorem treedisk_bad_inode:
  assumes "ram_ok d" "fs_wf 4096 (ram_content d) F"
  shows "st_getsize (treedisk_init ramdisk_init 0 junk) ino d =
      Ret (if unat ino < fs_inodes (ram_content d) then sint (file_size (ram_content d) (unat ino)) else - 1, d) \<and>
    (fs_inodes (ram_content d) \<le> unat ino \<longrightarrow>
      st_write (treedisk_init ramdisk_init 0 junk) ino off blk d = Ret (- 1, d))"
proof (intro conjI impI)
  show "st_getsize (treedisk_init ramdisk_init 0 junk) ino d =
      Ret (if unat ino < fs_inodes (ram_content d) then sint (file_size (ram_content d) (unat ino)) else - 1, d)"
    using ram.getsize_ok [OF assms, where bi = 0 and ni = 0 and sj = junk]
      ram.bad_inode(1) [OF assms, where bi = 0 and ni = 0 and sj = junk]
    by (auto simp: td_ops not_less elim!: owpE dest: ram_content_inj [OF _ assms(1)])
  assume "fs_inodes (ram_content d) \<le> unat ino"
  then show "st_write (treedisk_init ramdisk_init 0 junk) ino off blk d = Ret (- 1, d)"
    using ram.bad_inode(2) [OF assms, where bi = 0 and ni = 0 and sj = junk]
    by (auto simp: td_ops elim!: owpE dest: ram_content_inj [OF _ assms(1)])
qed

theorem treedisk_bad_inode_witness:
  "\<exists>d. ram_ok d \<and> st_getsize (treedisk_init ramdisk_init 0 null_block) 128 d = Ret (- 1, d) \<and>
     st_write (treedisk_init ramdisk_init 0 null_block) 128 0 null_block d = Ret (- 1, d)"
proof -
  obtain d where d: "ram_ok d" "fs_inodes (ram_content d) = 128"
    "fs_wf 4096 (ram_content d) (mset_set (data_blocks 4096 (ram_content d)))"
    by (rule created_disk) blast
  with treedisk_bad_inode [OF d(1,3), of null_block 128 0 null_block] show ?thesis by auto
qed

section \<open>Creating\<close>

text \<open>
  C4: Creating a file system. On a disk whose superblock has no inode blocks and that has room
  for the inode blocks and one data block, treedisk_create returns 0 and leaves a well-formed
  disk: every inode has an empty file, and every block after the inode blocks is on the free
  list exactly once.
\<close>
theorem treedisk_create_new:
  assumes "ram_ok d" "n_inodeblocks (ram_content d 0) = 0" "length junk = BLOCK_SIZE"
    and "unat nino \<le> 64 * 4094"
  shows "\<exists>d'. treedisk_create ramdisk_init 0 nino junk d = Ret (0, d') \<and> ram_ok d' \<and>
    fs_wf 4096 (ram_content d') (mset_set (data_blocks 4096 (ram_content d'))) \<and>
    fs_inodes (ram_content d') = 64 * create_inodeblocks nino \<and>
    unat nino \<le> fs_inodes (ram_content d') \<and>
    (\<forall>ino<fs_inodes (ram_content d'). fs_file (ram_content d') ino = empty_file)"
proof -
  have n: "unat nino + 63 < 2 ^ 32" "create_inodeblocks nino + 2 \<le> 4096"
    "unat nino \<le> 64 * create_inodeblocks nino"
    using assms(4) by (simp_all add: create_inodeblocks_def)
  have "owp (treedisk_create ramdisk_init 0 nino junk d) (\<lambda>(r, d'). r = 0 \<and> ram_ok d' \<and>
      new_fs 4096 (create_inodeblocks nino) (ram_content d'))"
    by (rule ram.treedisk_create_ok [OF assms(1,2) _ n(1,2)]) (simp add: assms(3) [simplified])
  then show ?thesis using n(3) by (elim owpE) (auto simp: new_fs_def)
qed

theorem treedisk_create_new_witness:
  "\<exists>d'. treedisk_create ramdisk_init 0 128 null_block (replicate FS_DISK_SIZE 0) = Ret (0, d') \<and>
    fs_inodes (ram_content d') = 128 \<and> fs_file (ram_content d') 100 = empty_file"
  using treedisk_create_new [OF fresh_ram, of null_block 128]
  by (auto simp: create_inodeblocks_def)

text \<open>
  C0: mkfs. Given executables of at most 20480 bytes, the loop over the initial contents runs to
  its end, and the disk it leaves is well-formed and holds, for each of the 16 initial inodes, the
  bytes of its entry in \<open>mkfs_contents\<close>: the text itself, or the named executable.
\<close>
theorem mkfs_installs:
  assumes "\<forall>name. length (host name) \<le> 20480" "length buf = GRASS_EXEC_SIZE div GRASS_NEXEC"
    and "length junk = BLOCK_SIZE"
  shows "\<exists>d F. mkfs host buf junk (replicate FS_DISK_SIZE 0) = Ret d \<and> ram_ok d \<and>
    fs_wf 4096 (ram_content d) F \<and> fs_inodes (ram_content d) = NINODES \<and>
    (\<forall>ino<length mkfs_contents.
       holds_bytes (file_bytes host (mkfs_contents ! ino)) (fs_file (ram_content d) ino))"
proof -
  obtain d where d: "treedisk_create ramdisk_init 0 (of_nat NINODES) junk (replicate FS_DISK_SIZE 0) = Ret (0, d)"
    "ram_ok d" "new_fs 4096 2 (ram_content d)"
    using ram_created [of junk] assms(3) by auto
  have n: "fs_inodes (ram_content d) = 128" using d(3) by (simp add: new_fs_def)
  note hf = new_fs_holds [OF d(3)] and free = new_fs_free [OF d(3)]
  have "owp (load_files (treedisk_init ramdisk_init 0 junk) host 0 mkfs_contents buf d) (\<lambda>d'. ram_ok d' \<and>
     fs_inodes (ram_content d') = fs_inodes (ram_content d) \<and>
     (\<exists>fs' F'. holds_files 4096 (ram_content d') fs' F' \<and> (\<forall>k<unat (0 :: u32). fs' k = empty_file) \<and>
        (\<forall>j<length mkfs_contents. holds_bytes (file_bytes host (mkfs_contents ! j)) (fs' (unat (0 :: u32) + j)))))"
    by (rule ram.load_files_ok [where bi = 0 and ni = 0 and sj = junk, OF _ d(2) hf])
      (use mkfs_loadable [OF assms(1)] mkfs_counts(1) n free assms(2) in \<open>auto simp: td_ops layout_defs\<close>)
  then obtain d' fs' F' where "load_files (treedisk_init ramdisk_init 0 junk) host 0 mkfs_contents buf d = Ret d'"
    "ram_ok d'" "fs_inodes (ram_content d') = 128" "holds_files 4096 (ram_content d') fs' F'"
    "\<forall>j<16. holds_bytes (file_bytes host (mkfs_contents ! j)) (fs' j)"
    using n mkfs_counts(1) by (elim owpE) auto
  with d(1) show ?thesis
    by (auto simp: mkfs_def holds_files_def mkfs_counts(1) NINODES_def)
qed

theorem mkfs_installs_witness:
  "\<exists>d. mkfs (\<lambda>name. replicate 700 (of_nat (length name))) (replicate 131072 0) null_block
      (replicate FS_DISK_SIZE 0) = Ret d \<and>
    holds_bytes (map of_char ''./   3 ../   1 '') (fs_file (ram_content d) 3)"
proof -
  have "mkfs_contents ! 3 = ''./   3 ../   1 ''" by (simp add: mkfs_contents_def)
  then have three: "file_bytes host (mkfs_contents ! 3) = map of_char ''./   3 ../   1 ''" for host
    by (simp add: file_bytes_def)
  let ?host = "\<lambda>name. replicate 700 (of_nat (length name))"
  obtain d where d: "mkfs ?host (replicate 131072 0) null_block (replicate FS_DISK_SIZE 0) = Ret d"
    "\<forall>ino<16. holds_bytes (file_bytes ?host (mkfs_contents ! ino)) (fs_file (ram_content d) ino)"
    using mkfs_installs [of ?host "replicate 131072 0" null_block]
    by (auto simp: layout_defs mkfs_counts(1))
  then have "holds_bytes (file_bytes ?host (mkfs_contents ! 3)) (fs_file (ram_content d) 3)" by simp
  with d(1) show ?thesis unfolding three by blast
qed

end
