(* ===== verification/Server_Properties.thy ===== *)
theory Server_Properties
  imports Servers_Correct Fs_Disk FS_Properties
begin

text \<open>
  Properties of the disk driver, of the directory server, and of a lookup through the whole stack:
  client, directory server, file server, tree file system, SD driver.
\<close>

section \<open>Cards for the witnesses\<close>




section \<open>The disk\<close>




section \<open>Directories\<close>








section \<open>A lookup through the whole system\<close>






end
