(* ===== verification/Apps.thy ===== *)
theory Apps
  imports Shell
begin

text \<open>
  The user applications of apps/user/. They share the working directory of struct grass, send messages to
  the servers, and print; printf writes its text to the standard output at once. The messages that INFO
  and SUCCESS log are left out. The arguments are the strings of the argument page, in slots of
  CMD_ARG_LEN bytes.
\<close>

section \<open>Environment\<close>

record env =
  workdir_ino :: int
  workdir :: "byte list"
  stdout :: "byte list"

definition printf :: "byte list \<Rightarrow> (env, unit) io" where
  "printf bs = act (\<lambda>s. Ret ((), s\<lparr>stdout := stdout s @ bs\<rparr>))"

definition get_env :: "(env \<Rightarrow> 'a) \<Rightarrow> (env, 'a) io" where
  "get_env f = act (\<lambda>s. Ret (f s, s))"

text \<open>What printf shows of a string argument.\<close>

definition text_of :: "byte list \<Rightarrow> byte list outcome" where
  "text_of b = obind (strlen b) (\<lambda>n. Ret (take n b))"

definition argv_at :: "byte list \<Rightarrow> nat \<Rightarrow> byte list" where
  "argv_at args i = drop (i * CMD_ARG_LEN) args"

definition newline :: "byte list" where
  "newline = chars [CHR 0x0D, CHR 0x0A]"

text \<open>\<open>%d\<close> of a number that is not negative, and of any number.\<close>

function decimal :: "nat \<Rightarrow> byte list" where
  "decimal n = (if n < 10 then [of_nat (48 + n)] else decimal (n div 10) @ [of_nat (48 + n mod 10)])"
  by auto

termination by (relation "measure id") auto

declare decimal.simps [simp del]

definition decimal_int :: "int \<Rightarrow> byte list" where
  "decimal_int v = (if v < 0 then chars ''-'' @ decimal (nat (- v)) else decimal (nat v))"

section \<open>echo and pwd\<close>

definition echo_main :: "int \<Rightarrow> byte list \<Rightarrow> (env, int) io" where
  "echo_main argc args =
     ibind (foldr (\<lambda>i t. ibind (pure (text_of (argv_at args i))) (\<lambda>s. ibind (printf (s @ chars '' '')) (\<lambda>_. t)))
       [1..<unat (of_int argc :: u32)] (Done ())) (\<lambda>_.
     ibind (printf newline) (\<lambda>_. Done 0))"

definition pwd_main :: "(env, int) io" where
  "pwd_main =
     ibind (get_env workdir) (\<lambda>w.
     ibind (pure (text_of w)) (\<lambda>s.
     ibind (printf (s @ newline)) (\<lambda>_. Done 0)))"

section \<open>clock\<close>

text \<open>The inner loop, which only counts to let time pass, is left out. The counter is unsigned, and so is the comparison with \<open>cnt\<close>.\<close>

definition clock_main :: "int \<Rightarrow> byte list \<Rightarrow> (env, int) io" where
  "clock_main argc args =
     ibind (pure (if argc = 1 then Ret 1000 else atoi (argv_at args 1))) (\<lambda>cnt.
     ibind (foldr (\<lambda>i t. ibind (printf (chars ''clock: tick#'' @ decimal_int (sint (of_nat i + 1 :: u32)) @ chars '' / #'' @ decimal_int cnt @ newline)) (\<lambda>_. t))
       [0..<unat (of_int cnt :: u32)] (Done ())) (\<lambda>_. Done 0))"

section \<open>cat\<close>

text \<open>\<open>jn\<close> and \<open>jb\<close> are the uninitialised parts of the requests of dir_lookup and file_read.\<close>

definition cat_main :: "byte list \<Rightarrow> block \<Rightarrow> int \<Rightarrow> byte list \<Rightarrow> (env, int) io" where
  "cat_main jn jb argc args =
     (if argc = 1 then Done (- 1)
      else
        ibind (get_env workdir_ino) (\<lambda>ino.
        ibind (dir_lookup jn ino (argv_at args 1)) (\<lambda>file_ino.
        if file_ino < 0 then Done (- 1)
        else
          ibind (file_read jb file_ino 0) (\<lambda>(_, buf).
          ibind (pure (text_of buf)) (\<lambda>s.
          ibind (printf s) (\<lambda>_.
          ibind (pure (at buf (unat (of_nat (length s) - 1 :: u32)))) (\<lambda>c.
          ibind (if c \<noteq> chr (CHR 0x0A) then printf newline else Done ()) (\<lambda>_. Done 0))))))))"

section \<open>ls\<close>

text \<open>The loop that replaces the inode numbers; strlen(buf) is evaluated in each iteration.\<close>

function ls_loop :: "nat \<Rightarrow> byte list \<Rightarrow> byte list outcome" where
  "ls_loop i buf =
     obind (strlen buf) (\<lambda>n.
     if i < n then
       ls_loop (Suc i) (if buf ! (i - 1) = 32 \<and> 48 \<le> buf ! i \<and> buf ! i \<le> 57 then buf[i := 32] else buf)
     else Ret buf)"
  by auto

termination
proof (relation "measure (\<lambda>(i, buf). length buf - i)")
  fix i buf n assume "i < n" "strlen buf = Ret n"
  have "length (cstr buf) \<le> length buf" by (simp add: cstr_def length_takeWhile_le)
  then show "((Suc i, if buf ! (i - 1) = 32 \<and> 48 \<le> buf ! i \<and> buf ! i \<le> 57 then buf[i := 32] else buf), i, buf)
      \<in> measure (\<lambda>(i, buf). length buf - i)"
    using \<open>i < n\<close> \<open>strlen buf = Ret n\<close> by (auto simp: strlen_def split: if_splits)
qed simp

declare ls_loop.simps [simp del]

definition ls_main :: "block \<Rightarrow> int \<Rightarrow> (env, int) io" where
  "ls_main jb argc =
     (if 1 < argc then Done (- 1)
      else
        ibind (get_env workdir_ino) (\<lambda>ino.
        ibind (file_read jb ino 0) (\<lambda>(_, buf).
        ibind (pure (ls_loop 1 buf)) (\<lambda>buf.
        ibind (pure (text_of buf)) (\<lambda>s.
        ibind (printf (s @ newline)) (\<lambda>_. Done 0))))))"

section \<open>cd\<close>

text \<open>The loop that removes the last component of the path; an index before the array is an error of the model.\<close>

fun strip_loop :: "nat \<Rightarrow> byte list \<Rightarrow> (nat \<times> byte list) outcome" where
  "strip_loop len w =
     obind (at w len) (\<lambda>c.
     if c \<noteq> chr (CHR ''/'') then
       (case len of 0 \<Rightarrow> Fatal undefined_read | Suc n \<Rightarrow> strip_loop n (w[len := 0]))
     else Ret (len, w))"

declare strip_loop.simps [simp del]

text \<open>\<open>name\<close> is argv[1] with the slash appended.\<close>

definition cd_path :: "byte list \<Rightarrow> byte list \<Rightarrow> byte list outcome" where
  "cd_path w name =
     obind (strcmp_eq (chars ''./'' @ [0]) name) (\<lambda>here.
     if here then Ret w
     else
       obind (strlen w) (\<lambda>len.
       obind (strcmp_eq (chars ''../'' @ [0]) name) (\<lambda>up.
       if \<not> up then
         obind (if 1 < len then strcat w (chars ''/'' @ [0]) else Ret w) (\<lambda>w.
         obind (strlen name) (\<lambda>n. strncat w name (n - 1)))
       else
         obind (strip_loop len w) (\<lambda>(len, w). if len \<noteq> 0 then put w len 0 else Ret w))))"

definition cd_main :: "byte list \<Rightarrow> int \<Rightarrow> byte list \<Rightarrow> (env, int) io" where
  "cd_main jn argc args =
     (if argc = 1 then
        ibind (dir_lookup jn 0 (chars ''home/'' @ [0])) (\<lambda>home_ino.
        ibind (dir_lookup jn home_ino (chars ''yunhao/'' @ [0])) (\<lambda>ino.
        ibind (act (\<lambda>s. obind (strcpy (workdir s) (chars ''/home/yunhao'' @ [0])) (\<lambda>w.
          Ret ((), s\<lparr>workdir_ino := ino, workdir := w\<rparr>)))) (\<lambda>_. Done 0)))
      else
        ibind (pure (strcat (argv_at args 1) (chars ''/'' @ [0]))) (\<lambda>name.
        ibind (get_env workdir_ino) (\<lambda>ino.
        ibind (dir_lookup jn ino name) (\<lambda>dir_ino.
        if dir_ino = - 1 then Done (- 1)
        else
          ibind (act (\<lambda>s. Ret ((), s\<lparr>workdir_ino := dir_ino\<rparr>))) (\<lambda>_.
          ibind (act (\<lambda>s. obind (cd_path (workdir s) name) (\<lambda>w. Ret ((), s\<lparr>workdir := w\<rparr>)))) (\<lambda>_. Done 0))))))"

section \<open>crash2\<close>

definition crash2_main :: "mem \<Rightarrow> mem" where
  "crash2_main m = memset m FRAME_CACHE_START 0 (unat (FRAME_CACHE_END - FRAME_CACHE_START))"

section \<open>Producers and consumers\<close>

text \<open>
  The bodies of the loops of producer and consumer of ult.c between the calls of the semaphores, which the
  source leaves open. The state has the slots and the indices in and out.
\<close>

definition NSLOTS :: nat where "NSLOTS = 3"

record 'a ring =
  slots :: "'a list"
  ring_in :: nat
  ring_out :: nat

definition produce :: "'a \<Rightarrow> 'a ring \<Rightarrow> 'a ring" where
  "produce x r = (let i = ring_in r + 1 in
     r\<lparr>slots := (slots r)[ring_in r := x], ring_in := if i = NSLOTS then 0 else i\<rparr>)"

definition consume :: "'a ring \<Rightarrow> 'a \<times> 'a ring" where
  "consume r = (let i = ring_out r + 1 in (slots r ! ring_out r, r\<lparr>ring_out := if i = NSLOTS then 0 else i\<rparr>))"

end
