(* ===== verification/Apps_Correct.thy ===== *)
theory Apps_Correct
  imports Apps Server_Calls
begin

text \<open>
  The applications against the servers: the path of cd, and the text of ls.
\<close>

section \<open>ls\<close>

text \<open>The text with the inode numbers replaced, where \<open>p\<close> is the character before it.\<close>

fun blank :: "byte \<Rightarrow> byte list \<Rightarrow> byte list" where
  "blank p [] = []"
| "blank p (c # cs) = (let c' = (if p = 32 \<and> 48 \<le> c \<and> c \<le> 57 then 32 else c) in c' # blank c' cs)"

lemma strlen_text: "0 \<notin> set t \<Longrightarrow> strlen (t @ 0 # r) = Ret (length t)"
  by (simp add: strlen_def cstr_app)

lemma ls_loop_blank:
  assumes "xs \<noteq> []" "0 \<notin> set xs" "0 \<notin> set ys"
  shows "ls_loop (length xs) (xs @ ys @ 0 # rest) = Ret (xs @ blank (last xs) ys @ 0 # rest)"
  using assms
proof (induction ys arbitrary: xs)
  case Nil
  then show ?case using strlen_text [of xs rest] by (simp add: ls_loop.simps)
next
  case (Cons c ys)
  let ?c = "if last xs = 32 \<and> 48 \<le> c \<and> c \<le> 57 then 32 else c"
  have n: "strlen (xs @ (c # ys) @ 0 # rest) = Ret (length (xs @ c # ys))" using strlen_text [of "xs @ c # ys" rest] Cons.prems by simp
  have b: "(xs @ (c # ys) @ 0 # rest) ! (length xs - 1) = last xs" "(xs @ (c # ys) @ 0 # rest) ! length xs = c"
    using Cons.prems(1) by (simp_all add: nth_append last_conv_nth)
  have "ls_loop (length xs) (xs @ (c # ys) @ 0 # rest) = ls_loop (length (xs @ [?c])) ((xs @ [?c]) @ ys @ 0 # rest)"
    by (subst ls_loop.simps) (simp add: n [simplified] b [simplified])
  also have "\<dots> = Ret ((xs @ [?c]) @ blank (last (xs @ [?c])) ys @ 0 # rest)" using Cons.prems by (intro Cons.IH) auto
  finally show ?case by (simp add: Let_def)
qed

text \<open>What ls shows: the names, and spaces in place of the numbers.\<close>

definition hidden :: "dir_entry list \<Rightarrow> byte list" where
  "hidden es = concat (map (\<lambda>(name, pad, num). name @ replicate (Suc pad + length num + 1) 32) es)"

lemma blank_spaces: "blank p (replicate k 32 @ xs) = replicate k 32 @ blank (if k = 0 then p else 32) xs"
  by (induction k arbitrary: p) auto

lemma blank_gap: "0 < k \<Longrightarrow> blank p (replicate k 32 @ xs) = replicate k 32 @ blank 32 xs"
  by (simp add: blank_spaces)

lemma blank_name:
  assumes "\<forall>c\<in>set n. c \<noteq> 32" "n \<noteq> []" "p \<noteq> 32 \<or> \<not> is_digit (hd n)"
  shows "blank p (n @ xs) = n @ blank (last n) xs"
  using assms
proof (induction n arbitrary: p)
  case (Cons c n)
  have "blank p ((c # n) @ xs) = c # blank c (n @ xs)" using Cons.prems by (auto simp: Let_def is_digit_def)
  then show ?case using Cons.IH [of c] Cons.prems(1) by (cases n) auto
qed simp

lemma blank_number: "\<forall>c\<in>set num. is_digit c \<Longrightarrow> blank 32 (num @ xs) = replicate (length num) 32 @ blank 32 xs"
  by (induction num) (auto simp: is_digit_def)

lemma blank_dir:
  assumes "\<forall>e\<in>set es. valid_entry e \<and> \<not> is_digit (hd (fst e))"
  shows "blank 32 (dir_text es) = hidden es"
  using assms
proof (induction es)
  case (Cons e es)
  obtain n pad num where e: "e = (n, pad, num)" by (cases e)
  have v: "\<forall>c\<in>set n. c \<noteq> 32" "n \<noteq> []" "\<not> is_digit (hd n)" "\<forall>c\<in>set num. is_digit c"
    using Cons.prems by (auto simp: e valid_entry_def valid_name_def)
  have "blank 32 (dir_text (e # es)) = blank 32 (n @ replicate (Suc pad) 32 @ num @ replicate 1 32 @ dir_text es)"
    by (simp add: dir_text_def entry_text_def e)
  also have "\<dots> = n @ replicate (Suc pad) 32 @ replicate (length num) 32 @ replicate 1 32 @ blank 32 (dir_text es)"
    unfolding blank_name [OF v(1,2) disjI2 [OF v(3)]] blank_gap [of "Suc pad", OF zero_less_Suc] blank_number [OF v(4)] blank_gap [of 1, OF zero_less_one] ..
  also have "\<dots> = (n @ replicate (Suc pad + length num + 1) 32) @ hidden es"
    using Cons.IH Cons.prems by (simp only: replicate_add append_assoc) simp
  also have "\<dots> = hidden (e # es)" by (simp add: hidden_def e)
  finally show ?case .
qed (simp add: dir_text_def hidden_def)

lemma ls_loop_dir:
  assumes "\<forall>e\<in>set es. valid_entry e \<and> \<not> is_digit (hd (fst e))"
  shows "ls_loop 1 (dir_text es @ 0 # rest) = Ret (hidden es @ 0 # rest)"
proof (cases "dir_text es")
  case Nil
  then have "hidden es = []" using blank_dir [OF assms] by simp
  then show ?thesis using Nil strlen_text [of "[]" rest] by (subst ls_loop.simps) simp
next
  case (Cons c cs)
  have z: "0 \<notin> set (dir_text es)" by (rule dir_text_no_null) (use assms in blast)
  obtain n pad num es' where es: "es = (n, pad, num) # es'" using Cons by (cases es) (auto simp: dir_text_def)
  have n: "n \<noteq> []" "\<not> is_digit (hd n)" using assms by (auto simp: es valid_entry_def valid_name_def)
  have "hd (dir_text es) = hd n" using n(1) by (simp add: es dir_text_def entry_text_def)
  then have "\<not> is_digit c" using n(2) Cons by simp
  then have "blank 32 (c # cs) = c # blank c cs" by (auto simp: is_digit_def Let_def)
  then have "hidden es = c # blank c cs" using blank_dir [OF assms] Cons by simp
  then show ?thesis using ls_loop_blank [of "[c]" cs rest] z Cons by simp
qed

section \<open>cd\<close>

abbreviation slash :: byte where
  "slash \<equiv> chr (CHR ''/'')"

text \<open>A path as a list of names, and its text.\<close>

definition path_text :: "byte list list \<Rightarrow> byte list" where
  "path_text P = (if P = [] then [slash] else concat (map (\<lambda>n. slash # n) P))"

definition path_name :: "byte list \<Rightarrow> bool" where
  "path_name n \<longleftrightarrow> n \<noteq> [] \<and> 0 \<notin> set n \<and> slash \<notin> set n"

definition path_step :: "byte list list \<Rightarrow> byte list \<Rightarrow> byte list list" where
  "path_step P n = (if n = chars ''.'' then P else if n = chars ''..'' then butlast P else P @ [n])"

lemma strcmp_eq_text: "0 \<notin> set a \<Longrightarrow> 0 \<notin> set b \<Longrightarrow> strcmp_eq (a @ 0 # r) (b @ 0 # s) = Ret (a = b)"
proof (induction a arbitrary: b)
  case Nil
  then show ?case by (cases b) auto
next
  case (Cons c a)
  then show ?case by (cases b) auto
qed

lemma path_text_no_null: "\<forall>n\<in>set P. path_name n \<Longrightarrow> 0 \<notin> set (path_text P)"
  by (auto simp: path_text_def path_name_def chr_def)

lemma length_path_text: "0 < length (path_text P)" "P \<noteq> [] \<Longrightarrow> \<forall>n\<in>set P. path_name n \<Longrightarrow> 1 < length (path_text P)"
  by (cases P; auto simp: path_text_def path_name_def)+

lemma strip_loop_name:
  assumes "slash \<notin> set m"
  shows "strip_loop (length p + length m) (p @ slash # m @ rest) = Ret (length p, p @ slash # replicate (length m) 0 @ rest)"
  using assms
proof (induction m arbitrary: rest rule: rev_induct)
  case Nil
  then show ?case by (subst strip_loop.simps) (simp add: nth_append)
next
  case (snoc c m)
  have "(p @ slash # (m @ [c]) @ rest)[Suc (length p + length m) := 0] = p @ slash # m @ 0 # rest"
    by (simp add: list_update_append nth_append)
  moreover have "at (p @ slash # (m @ [c]) @ rest) (Suc (length p + length m)) = Ret c" by (simp add: at_def nth_append)
  ultimately have "strip_loop (Suc (length p + length m)) (p @ slash # (m @ [c]) @ rest) = strip_loop (length p + length m) (p @ slash # m @ 0 # rest)"
    using snoc.prems by (subst strip_loop.simps) auto
  also have "\<dots> = Ret (length p, p @ slash # replicate (length m) 0 @ 0 # rest)" using snoc by simp
  finally show ?case by (simp add: replicate_app_Cons_same)
qed

lemma strncat_text:
  assumes "0 \<notin> set a" "0 \<notin> set b" "n \<le> length b" "n \<le> length r"
  shows "strncat (a @ 0 # r) (b @ 0 # s) n = Ret (a @ take n b @ 0 # drop n r)"
  using assms by (simp add: strncat_def strlen_text cstr_app splice_at_def)

lemma strcat_text:
  assumes "0 \<notin> set a" "0 \<notin> set b" "length b \<le> length r"
  shows "strcat (a @ 0 # r) (b @ 0 # s) = Ret (a @ b @ 0 # drop (length b) r)"
  using assms by (simp add: strcat_def strlen_text cstr_app splice_at_def)

lemma path_text_last:
  "path_text P = concat (map (\<lambda>n. slash # n) (butlast P)) @ slash # (if P = [] then [] else last P)"
  by (cases P rule: rev_cases) (auto simp: path_text_def)

lemma cd_up:
  assumes P: "\<forall>n\<in>set P. path_name n" and w: "w = path_text P @ 0 # rest"
  shows "obind (strip_loop (length (path_text P)) w) (\<lambda>(len, w). if len \<noteq> 0 then put w len 0 else Ret w)
    = Ret (path_text (butlast P) @ 0 # replicate (length (path_text P) - length (path_text (butlast P))) 0 @ rest)"
proof -
  let ?p = "concat (map (\<lambda>n. slash # n) (butlast P))"
  let ?l = "if P = [] then [] else last P"
  have "slash \<notin> set (?l @ [0])" using P by (auto simp: path_name_def chr_def)
  note strip = strip_loop_name [OF this, of ?p rest]
  have w': "w = ?p @ slash # (?l @ [0]) @ rest" unfolding w path_text_last [of P] by simp
  have len: "length (path_text P) = length ?p + length (?l @ [0])" by (simp add: path_text_last [of P])
  show ?thesis
  proof (cases "butlast P = []")
    case True
    then have "?p = []" by simp
    then show ?thesis using strip unfolding len w' by (simp add: True path_text_def)
  next
    case False
    then have t: "path_text (butlast P) = ?p" "?p \<noteq> []" by (auto simp: path_text_def)
    then show ?thesis using strip unfolding len w' t(1) by (simp add: list_update_append)
  qed
qed

lemma cd_down:
  assumes P: "\<forall>n\<in>set P. path_name n" and nm: "path_name nm" and w: "w = path_text P @ 0 # rest" "length (path_text P) + 1 + length nm < length w"
  shows "\<exists>rest'. obind (if 1 < length (path_text P) then strcat w (chars ''/'' @ [0]) else Ret w) (\<lambda>w. strncat w (nm @ slash # 0 # junk) (length nm))
    = Ret (path_text (P @ [nm]) @ 0 # rest') \<and> length (path_text (P @ [nm]) @ 0 # rest') = length w"
proof -
  have z: "0 \<notin> set (path_text P)" by (rule path_text_no_null [OF P])
  have nz: "0 \<notin> set (nm @ [slash])" using nm by (simp add: path_name_def chr_def)
  show ?thesis
  proof (cases P)
    case Nil
    then show ?thesis using strncat_text [OF z nz, of "length nm" rest junk] w by (simp add: path_text_def)
  next
    case (Cons x xs)
    have z': "0 \<notin> set (path_text P @ [slash])" using z by (simp add: chr_def)
    have "1 < length (path_text P)" using length_path_text(2) [OF _ P] Cons by simp
    moreover have "strcat w (chars ''/'' @ [0]) = Ret ((path_text P @ [slash]) @ 0 # drop 1 rest)"
      using strcat_text [OF z, of "[slash]" rest "[]"] w by (simp add: chr_def)
    moreover have "strncat ((path_text P @ [slash]) @ 0 # drop 1 rest) (nm @ slash # 0 # junk) (length nm)
        = Ret (path_text (P @ [nm]) @ 0 # drop (length nm) (drop 1 rest))"
      using strncat_text [OF z' nz, of "length nm" "drop 1 rest" junk] w by (simp add: path_text_def Cons)
    ultimately show ?thesis using w by (simp add: path_text_def Cons)
  qed
qed

lemma cd_path_ok:
  assumes P: "\<forall>n\<in>set P. path_name n" and nm: "path_name nm" and w: "length (path_text P) + 1 + length nm < length w" "w = path_text P @ 0 # rest"
  shows "\<exists>rest'. cd_path w (nm @ slash # 0 # junk) = Ret (path_text (path_step P nm) @ 0 # rest') \<and> length (path_text (path_step P nm) @ 0 # rest') = length w"
proof -
  have z: "0 \<notin> set (path_text P)" by (rule path_text_no_null [OF P])
  have nz: "0 \<notin> set (nm @ [slash])" using nm by (simp add: path_name_def chr_def)
  have here: "strcmp_eq (chars ''./'' @ [0]) (nm @ slash # 0 # junk) = Ret (nm = chars ''.'')"
    using strcmp_eq_text [of "chars ''./''" "nm @ [slash]" "[]" junk] nz by (cases nm) (auto simp: chr_def)
  have up: "strcmp_eq (chars ''../'' @ [0]) (nm @ slash # 0 # junk) = Ret (nm = chars ''..'')"
    using strcmp_eq_text [of "chars ''../''" "nm @ [slash]" "[]" junk] nz by (cases nm) (auto simp: chr_def)
  have sl: "strlen w = Ret (length (path_text P))" "strlen (nm @ slash # 0 # junk) = Ret (Suc (length nm))"
    using strlen_text [OF z, of rest] strlen_text [OF nz, of junk] w(2) by simp_all
  consider "nm = chars ''.''" | "nm = chars ''..''" | "nm \<noteq> chars ''.''" "nm \<noteq> chars ''..''" by blast
  then show ?thesis
  proof cases
    case 1
    then show ?thesis using here w(2) by (simp add: cd_path_def path_step_def)
  next
    case 2
    then have "path_step P nm = butlast P" "nm \<noteq> chars ''.''" by (simp_all add: path_step_def chr_def)
    moreover have "length (path_text (butlast P)) \<le> length (path_text P)"
      by (cases P rule: rev_cases) (auto simp: path_text_def)
    moreover have "cd_path w (nm @ slash # 0 # junk)
        = obind (strip_loop (length (path_text P)) w) (\<lambda>(len, w). if len \<noteq> 0 then put w len 0 else Ret w)"
      unfolding cd_path_def here up sl(1) using 2 by (simp add: chr_def)
    then have "cd_path w (nm @ slash # 0 # junk)
        = Ret (path_text (butlast P) @ 0 # replicate (length (path_text P) - length (path_text (butlast P))) 0 @ rest)"
      unfolding cd_up [OF P w(2)] .
    ultimately show ?thesis using w(2) by simp
  next
    case 3
    then have "path_step P nm = P @ [nm]" by (simp add: path_step_def)
    moreover have "cd_path w (nm @ slash # 0 # junk)
        = obind (if 1 < length (path_text P) then strcat w (chars ''/'' @ [0]) else Ret w) (\<lambda>w. strncat w (nm @ slash # 0 # junk) (length nm))"
      unfolding cd_path_def here up sl using 3 by simp
    ultimately show ?thesis using cd_down [OF P nm w(2), of junk] w by metis
  qed
qed

end
