(* ===== verification/Apps_Properties.thy ===== *)
theory Apps_Properties
  imports Apps_Correct Earth_Properties
begin

text \<open>
  Properties of the user applications: the working directory of cd, the listing of ls, the buffer that the
  producers and consumers of ult.c share, and what crash2 does to the other processes.
\<close>

section \<open>The shared buffer\<close>

text \<open>The buffer holds the entries \<open>q\<close>, from the oldest to the newest.\<close>

definition ring_holds :: "'a ring \<Rightarrow> 'a list \<Rightarrow> bool" where
  "ring_holds r q \<longleftrightarrow> length (slots r) = NSLOTS \<and> ring_out r < NSLOTS \<and> length q \<le> NSLOTS \<and>
     ring_in r = (ring_out r + length q) mod NSLOTS \<and> (\<forall>i<length q. slots r ! ((ring_out r + i) mod NSLOTS) = q ! i)"

lemma produce_holds:
  assumes "ring_holds r q" "length q < NSLOTS"
  shows "ring_holds (produce x r) (q @ [x])"
proof -
  have n: "ring_out r < 3" "length q < 3" "ring_in r = (ring_out r + length q) mod 3"
    using assms by (simp_all add: ring_holds_def NSLOTS_def)
  have sep: "(ring_out r + i) mod 3 \<noteq> ring_in r" if "i < length q" for i
  proof
    assume "(ring_out r + i) mod 3 = ring_in r"
    then have "(ring_out r + length q) mod 3 = (ring_out r + i) mod 3" using n(3) by simp
    then have "3 dvd (ring_out r + length q) - (ring_out r + i)" using that by (subst (asm) mod_eq_dvd_iff_nat) auto
    then have "3 dvd length q - i" by simp
    then show False using n(2) that by (auto dest: dvd_imp_le)
  qed
  have wrap: "(if ring_in r + 1 = NSLOTS then 0 else ring_in r + 1) = (ring_out r + Suc (length q)) mod 3"
    using n(3) by (simp add: NSLOTS_def mod_Suc)
  have f: "length (slots (produce x r)) = 3" "ring_out (produce x r) = ring_out r" "ring_in (produce x r) = (ring_out r + Suc (length q)) mod 3"
    using assms(1) wrap unfolding produce_def Let_def by (simp_all add: ring_holds_def NSLOTS_def)
  have "slots (produce x r) ! ((ring_out r + i) mod 3) = (q @ [x]) ! i" if "i < Suc (length q)" for i
    using that sep [of i] assms(1) n(3) by (cases "i = length q") (auto simp: produce_def Let_def ring_holds_def NSLOTS_def nth_append)
  then show ?thesis using n(1,2) unfolding ring_holds_def NSLOTS_def f by (simp del: nth_append)
qed

lemma consume_holds:
  assumes "ring_holds r (x # q)"
  shows "fst (consume r) = x \<and> ring_holds (snd (consume r)) q"
proof -
  have o: "ring_out r = 0 \<or> ring_out r = 1 \<or> ring_out r = 2" using assms by (auto simp: ring_holds_def NSLOTS_def)
  have s: "slots r ! ((ring_out r + Suc i) mod NSLOTS) = q ! i" if "i < length q" for i
    using assms that by (auto simp: ring_holds_def dest!: spec [of _ "Suc i"])
  have "slots r ! ring_out r = x" using assms by (auto simp: ring_holds_def dest!: spec [of _ 0])
  moreover have "slots r ! ((Suc (ring_out r) mod NSLOTS + i) mod NSLOTS) = q ! i" if "i < length q" for i
    using s [OF that] by (simp add: mod_simps)
  moreover have "snd (consume r) = r\<lparr>ring_out := Suc (ring_out r) mod NSLOTS\<rparr>"
    using o by (auto simp: consume_def NSLOTS_def)
  moreover have "fst (consume r) = slots r ! ring_out r" by (simp add: consume_def Let_def)
  ultimately show ?thesis using assms by (simp add: ring_holds_def mod_simps NSLOTS_def)
qed

text \<open>
  A sequence of rounds: \<open>Some x\<close> is a round of a producer of \<open>x\<close>, \<open>None\<close> one of a consumer. The result has the
  entries that the consumers got.
\<close>

fun transfers :: "'a option list \<Rightarrow> 'a ring \<Rightarrow> 'a list \<times> 'a ring" where
  "transfers [] r = ([], r)"
| "transfers (Some x # ops) r = transfers ops (produce x r)"
| "transfers (None # ops) r = (let (x, r) = consume r; (xs, r) = transfers ops r in (x # xs, r))"

text \<open>The orders that the semaphores s_empty and s_full admit, with \<open>n\<close> entries in the buffer.\<close>

fun admitted :: "nat \<Rightarrow> 'a option list \<Rightarrow> bool" where
  "admitted n [] \<longleftrightarrow> True"
| "admitted n (Some x # ops) \<longleftrightarrow> n < NSLOTS \<and> admitted (Suc n) ops"
| "admitted n (None # ops) \<longleftrightarrow> 0 < n \<and> admitted (n - 1) ops"

lemma transfers_holds:
  assumes "ring_holds r q" "admitted (length q) ops"
  shows "\<exists>q'. ring_holds (snd (transfers ops r)) q' \<and> q @ List.map_filter id ops = fst (transfers ops r) @ q'"
  using assms
proof (induction ops r arbitrary: q rule: transfers.induct)
  case (1 r)
  then show ?case by (simp add: map_filter_simps)
next
  case (2 x ops r)
  then have "ring_holds (produce x r) (q @ [x])" "admitted (length (q @ [x])) ops" by (simp_all add: produce_holds)
  from 2(1) [OF this] show ?case by (simp add: map_filter_simps)
next
  case (3 ops r)
  then obtain y p where q: "q = y # p" by (cases q) auto
  obtain x r' where c: "consume r = (x, r')" by (cases "consume r")
  have h: "x = y" "ring_holds r' p" using consume_holds [of r y p] 3(2) q c by auto
  moreover have "admitted (length p) ops" using 3(3) q by simp
  ultimately show ?case using 3(1) [OF c [symmetric] refl, of p] by (auto simp: q c map_filter_simps split: prod.split)
qed

section \<open>Corrupted memory\<close>

lemma crash2_bytes: "crash2_main m x = (if 0x80004000 \<le> unat x \<and> unat x < 0x80020000 then 0 else m x)"
proof -
  have r: "in_region 0x80004000 0x1C000 x \<longleftrightarrow> 0x80004000 \<le> unat x \<and> unat x < 0x80020000" by (simp add: in_region_nat)
  have "crash2_main m = mem_write m 0x80004000 (replicate 0x1C000 0)"
    by (simp add: crash2_main_def memset_def layout_defs)
  then show ?thesis unfolding r [symmetric] by (simp add: mem_write_def in_region_def)
qed

section \<open>Properties\<close>

text \<open>
  C0: cd moves through the directory tree. When the directory server finds the directory, cd sets the working
  directory to it, and the path becomes the path with the name appended, with its last name removed for the
  name \<open>..\<close> (the root stays the root), or unchanged for the name \<open>.\<close>; when the server does not find it, cd
  returns -1 and nothing changes.
\<close>

theorem cd_follows_path:
  assumes "srv GPID_DIR (lookup_request jn (workdir_ino s) (nm @ [slash])) s =
      Ret (Some (GPID_DIR, dir_reply (if v = - 1 then DIR_ERROR else DIR_OK) (of_int v) @ pad), s)"
    and "argc \<noteq> 1" "argv_at args 1 = nm @ 0 # junk" "junk \<noteq> []" "length jn = 32" "path_name nm" "length nm < 31" "- 1 \<le> v" "v < 2 ^ 31"
    and "\<forall>n\<in>set P. path_name n" "workdir s = path_text P @ 0 # rest" "length (path_text P) + 1 + length nm < length (workdir s)"
  shows "\<exists>w rest'. w = path_text (path_step P nm) @ 0 # rest' \<and> length w = length (workdir s) \<and>
    run srv (cd_main jn argc args) (None, s) =
      (if v = - 1 then Ret (- 1, (None, s)) else Ret (0, (None, s\<lparr>workdir_ino := v, workdir := w\<rparr>)))"
proof -
  have nm: "0 \<notin> set nm" using assms(6) by (simp add: path_name_def)
  then have "strcat (argv_at args 1) (chars ''/'' @ [0]) = Ret (nm @ slash # 0 # drop 1 junk)"
    using strcat_text [of nm "[slash]" junk "[]"] assms(3,4) by (cases junk) (auto simp: chr_def)
  moreover have "run srv (dir_lookup jn (workdir_ino s) (nm @ slash # 0 # drop 1 junk)) (None, s) = Ret (v, (None, s))"
    using dir_lookup_reply [where srv = srv and s = s, OF assms(1) _ _ assms(5,8,9), of "drop 1 junk"] nm assms(7) by (simp add: chr_def)
  moreover obtain rest' where "cd_path (workdir s) (nm @ slash # 0 # drop 1 junk) = Ret (path_text (path_step P nm) @ 0 # rest')"
    "length (path_text (path_step P nm) @ 0 # rest') = length (workdir s)"
    using cd_path_ok [OF assms(10,6,12,11), of "drop 1 junk"] by blast
  ultimately show ?thesis using assms(2)
    by (intro exI [of _ "path_text (path_step P nm) @ 0 # rest'"] exI [of _ rest'])
      (simp add: cd_main_def run_ibind run_pure run_act get_env_def)
qed

text \<open>Servers that answer each lookup with inode 5 and each read with a directory of one entry.\<close>

definition demo_tree :: "env peers" where
  "demo_tree q m s =
     Ret (Some (q, if q = GPID_DIR then dir_reply DIR_OK 5 @ replicate 1016 0
                   else file_reply FILE_OK (chars ''ls 7 '' @ replicate 507 0) @ replicate 508 0), s)"

definition at_home :: env where
  "at_home = \<lparr>workdir_ino = 1, workdir = chars ''/home'' @ replicate 123 0, stdout = []\<rparr>"

theorem cd_follows_path_witness:
  "\<exists>rest'. run demo_tree (cd_main (replicate 32 0) 2 (replicate 32 0 @ chars ''yunhao'' @ replicate 26 0)) (None, at_home) =
    Ret (0, (None, at_home\<lparr>workdir_ino := 5, workdir := chars ''/home/yunhao'' @ 0 # rest'\<rparr>))"
proof -
  let ?args = "replicate 32 0 @ chars ''yunhao'' @ replicate 26 0"
  have arg: "argv_at ?args 1 = chars ''yunhao'' @ 0 # replicate 25 0"
    by (simp add: argv_at_def CMD_ARG_LEN_def numeral_eq_Suc)
  have w: "workdir at_home = path_text [chars ''home''] @ 0 # replicate 122 0"
    by (simp add: at_home_def path_text_def numeral_eq_Suc)
  have n: "path_name (chars ''yunhao'')" "path_name (chars ''home'')" by (simp_all add: path_name_def chr_def)
  have srv: "demo_tree GPID_DIR m s = Ret (Some (GPID_DIR, dir_reply (if (5 :: int) = - 1 then DIR_ERROR else DIR_OK) (of_int 5) @ replicate 1016 0), s)" for m s
    by (simp add: demo_tree_def)
  have "path_step [chars ''home''] (chars ''yunhao'') = [chars ''home'', chars ''yunhao'']"
    by (simp add: path_step_def chr_def)
  with cd_follows_path [where srv = demo_tree and s = at_home and v = 5 and jn = "replicate 32 0" and argc = 2, OF srv _ arg _ _ n(1) _ _ _ _ w] n(2) show ?thesis
    by (auto simp: w path_text_def)
qed

text \<open>
  C38: ls lists the working directory: for a directory whose names do not begin with a digit, it prints the
  names in the order of the directory, with spaces in place of the inode numbers, and a line end.
\<close>

theorem ls_lists_names:
  assumes "srv GPID_FILE (file_request FILE_READ (of_int (workdir_ino s)) 0 jb) s =
      Ret (Some (GPID_FILE, file_reply FILE_OK (dir_text es @ 0 # rest) @ pad), s)"
    and "argc \<le> 1" "length jb = 512" "length (dir_text es @ 0 # rest) = 512"
      "length (file_reply FILE_OK (dir_text es @ 0 # rest) @ pad) = 1024"
    and "\<forall>e\<in>set es. valid_entry e \<and> \<not> is_digit (hd (fst e))"
  shows "run srv (ls_main jb argc) (None, s) = Ret (0, (None, s\<lparr>stdout := stdout s @ hidden es @ newline\<rparr>))"
proof -
  have "run srv (file_read jb (workdir_ino s) 0) (None, s) = Ret ((0, dir_text es @ 0 # rest), (None, s))"
    by (rule file_read_reply [where srv = srv and s = s, OF assms(1,3-5)])
  moreover have "0 \<notin> set (hidden es)"
    using assms(6) by (fastforce simp: hidden_def valid_entry_def valid_name_def)
  then have "text_of (hidden es @ 0 # rest) = Ret (hidden es)" by (simp add: text_of_def strlen_text)
  ultimately show ?thesis using assms(2) ls_loop_dir [OF assms(6), of rest]
    by (simp add: ls_main_def run_ibind run_pure run_act get_env_def printf_def)
qed

theorem ls_lists_names_witness:
  "run demo_tree (ls_main (replicate 512 0) 1) (None, at_home) = Ret (0, (None, at_home\<lparr>stdout := chars ''ls   '' @ newline\<rparr>))"
proof -
  let ?es = "[(chars ''ls'', 0, chars ''7'')]"
  have t: "chars ''ls 7 '' @ replicate 507 0 = dir_text ?es @ 0 # replicate 506 0"
    by (simp add: dir_text_def entry_text_def numeral_eq_Suc chr_def)
  have "demo_tree GPID_FILE m s = Ret (Some (GPID_FILE, file_reply FILE_OK (dir_text ?es @ 0 # replicate 506 0) @ replicate 508 0), s)" for m s
    unfolding t [symmetric] by (simp add: demo_tree_def GPID_DIR_def GPID_FILE_def)
  note ls = ls_lists_names [where srv = demo_tree and s = at_home and es = ?es and rest = "replicate 506 0" and pad = "replicate 508 0", OF this, of 1]
  have "hidden ?es = chars ''ls   ''" by (simp add: hidden_def chr_def)
  moreover have "\<forall>e\<in>set ?es. valid_entry e \<and> \<not> is_digit (hd (fst e))"
    by (simp add: valid_entry_def valid_name_def is_digit_def chr_def digits_val_def digit_val_def)
  moreover have "length (dir_text ?es @ 0 # replicate 506 0) = 512" by (simp add: dir_text_def entry_text_def)
  moreover have "stdout at_home = []" by (simp add: at_home_def)
  ultimately show ?thesis using ls by simp
qed

text \<open>
  C39: The buffer of ult.c is a queue: for every order of rounds that the semaphores admit, the consumers get
  the entries in the order in which the producers stored them, each one once, and at most three wait.
\<close>

theorem ring_fifo:
  assumes "length (slots r) = NSLOTS" "ring_in r = 0" "ring_out r = 0" "admitted 0 ops" "transfers ops r = (xs, r')"
  shows "\<exists>q. List.map_filter id ops = xs @ q \<and> ring_holds r' q"
proof -
  have "ring_holds r []" using assms(1-3) by (simp add: ring_holds_def NSLOTS_def)
  from transfers_holds [OF this, of ops] show ?thesis using assms(4,5) by auto
qed

theorem ring_fifo_witness:
  "[1, 2, 3, 4] = [1, 2, 3] @ [4 :: nat] \<and>
    ring_holds (snd (transfers [Some 1, Some 2, None, Some 3, Some 4, None, None] \<lparr>slots = [0, 0, 0], ring_in = 0, ring_out = 0\<rparr>)) [4 :: nat]"
proof -
  define r :: "nat ring" where "r = \<lparr>slots = [0, 0, 0], ring_in = 0, ring_out = 0\<rparr>"
  define ops :: "nat option list" where "ops = [Some 1, Some 2, None, Some 3, Some 4, None, None]"
  have t: "fst (transfers ops r) = [1, 2, 3]" by (simp add: ops_def r_def produce_def consume_def NSLOTS_def)
  have "List.map_filter id ops = [1, 2, 3, 4]" by (simp add: ops_def map_filter_simps)
  moreover have "transfers ops r = ([1, 2, 3], snd (transfers ops r))" by (simp add: t prod_eq_iff)
  moreover have "admitted 0 ops" by (simp add: ops_def NSLOTS_def)
  moreover have "length (slots r) = NSLOTS" "ring_in r = 0" "ring_out r = 0" by (simp_all add: r_def NSLOTS_def)
  ultimately have "ring_holds (snd (transfers ops r)) [4]" using ring_fifo [of r ops "[1, 2, 3]" "snd (transfers ops r)"] by auto
  then show ?thesis unfolding ops_def r_def by simp
qed

text \<open>
  C40: With the software translation on QEMU, nothing protects the frames of the other processes: after crash2
  the pages of the other processes in the first 28 frames read as zeros. Its own pages and the other frames keep
  their contents.
\<close>

theorem crash2_zeroes_others:
  assumes "vm_wf qemu_store e" "used e i"
  shows "page_view qemu_frame (e\<lparr>mem := crash2_main (mem e)\<rparr>) i =
    (if fm_pid (table e ! i) \<noteq> curr_vm_pid e \<and> i < 28 then replicate 4096 0 else page_view qemu_frame e i)"
proof -
  have i: "i < 256" "page_clear qemu_store (fm_page_no (table e ! i))" using assms by (auto simp: vm_wf_def)
  have inside: "crash2_main (mem e) x = (if 0x80004000 \<le> unat x \<and> unat x < 0x80020000 then 0 else mem e x)" for x
    by (rule crash2_bytes)
  show ?thesis
  proof (cases "fm_pid (table e ! i) = curr_vm_pid e")
    case True
    have "mem_read (crash2_main (mem e)) (page_addr (fm_page_no (table e ! i))) 4096 = mem_read (mem e) (page_addr (fm_page_no (table e ! i))) 4096"
      using i(2) by (intro page_read_cong) (auto simp: page_clear_def inside in_qemu_store)
    then show ?thesis using True by (simp add: page_view_def)
  next
    case False
    have "mem_read (crash2_main (mem e)) (frame_addr i) 4096 = (if i < 28 then replicate 4096 0 else mem_read (mem e) (frame_addr i) 4096)"
    proof (cases "i < 28")
      case True
      then show ?thesis using i(1) by (auto intro!: mem_read_const simp: inside in_region_nat unat_frame_addr)
    next
      case False
      then show ?thesis using i(1) by (auto intro!: mem_read_cong simp: inside in_region_nat unat_frame_addr)
    qed
    then show ?thesis using False i(1) by (simp add: page_view_def qemu_frame_def layout_defs)
  qed
qed

theorem crash2_zeroes_others_witness:
  "page_view qemu_frame (two_procs\<lparr>mem := crash2_main (mem two_procs)\<rparr>) 1 = replicate 4096 0 \<and>
   page_view qemu_frame (two_procs\<lparr>mem := crash2_main (mem two_procs)\<rparr>) 0 = page_view qemu_frame two_procs 0"
proof -
  have "fm_pid (table two_procs ! 1) \<noteq> curr_vm_pid two_procs" "fm_pid (table two_procs ! 0) = curr_vm_pid two_procs"
    unfolding two_procs_table(3,4) by (simp_all add: two_procs_def)
  moreover have "used two_procs 0" "used two_procs 1" unfolding two_procs_table(2) by simp_all
  ultimately show ?thesis
    using crash2_zeroes_others [OF two_procs_wf, of 0] crash2_zeroes_others [OF two_procs_wf, of 1] by presburger
qed

end
