(* ===== verification/Libc.thy ===== *)
theory Libc
  imports Tty
begin

text \<open>
  The support for the C library in library/libc/: _sbrk, which hands out the memory of the heap to malloc, and
  _write, through which printf reaches the terminal. The bounds of the heap on the Arty board come
  from the linker script and are parameters.
\<close>

section \<open>Heap\<close>

definition heap_end :: "platform_type \<Rightarrow> u32 \<Rightarrow> u32" where
  "heap_end p linker_end = (if p = ARTY then linker_end else 0xA000000)"

text \<open>
  The state is brk; the result has the old value. Beyond the end of the heap the function
  prints a message and stores to an address without memory, and the trap ends the program.
\<close>

definition sbrk :: "platform_type \<Rightarrow> u32 \<Rightarrow> int \<Rightarrow> u32 \<Rightarrow> (u32 \<times> u32) outcome" where
  "sbrk p linker_end sz brk =
     (if brk + of_int sz > heap_end p linker_end then Fatal ''_sbrk: heap grows too large''
      else Ret (brk, brk + of_int sz))"

fun sbrks :: "platform_type \<Rightarrow> u32 \<Rightarrow> int list \<Rightarrow> u32 \<Rightarrow> (u32 list \<times> u32) outcome" where
  "sbrks p e [] brk = Ret ([], brk)"
| "sbrks p e (n # ns) brk =
     obind (sbrk p e n brk) (\<lambda>(a, brk). obind (sbrks p e ns brk) (\<lambda>(as, brk). Ret (a # as, brk)))"

lemma sbrk_extends:
  assumes "0 \<le> sz" "unat brk + nat sz < 2 ^ 32" "sbrk p e sz brk = Ret (a, brk')"
  shows "a = brk" "unat brk' = unat brk + nat sz" "unat brk' \<le> unat (heap_end p e)"
proof -
  obtain n where n: "sz = int n" using assms(1) by (rule nonneg_int_cases)
  then have "unat (of_int sz :: u32) = nat sz" using assms(2) by (simp add: unat_of_nat take_bit_nat_eq_self)
  then show "a = brk" "unat brk' = unat brk + nat sz" "unat brk' \<le> unat (heap_end p e)"
    using assms(2,3) by (auto simp: sbrk_def unat_word_ariths word_le_nat_alt not_less split: if_splits)
qed

text \<open>
  Blocks of non-negative sizes are consecutive from the first break on, and end before the end of the heap, as long as the
  addresses do not wrap around.
\<close>

lemma sbrks_consecutive:
  assumes "\<forall>n\<in>set ns. 0 \<le> n" "unat brk + nat (sum_list ns) < 2 ^ 32" "unat brk \<le> unat (heap_end p e)"
    and "sbrks p e ns brk = Ret (as, brk')"
  shows "unat brk' = unat brk + nat (sum_list ns) \<and> unat brk' \<le> unat (heap_end p e) \<and> length as = length ns \<and>
    (\<forall>i<length ns. unat (as ! i) = unat brk + nat (sum_list (take i ns)))"
  using assms
proof (induction ns arbitrary: brk as)
  case (Cons n ns)
  obtain a b as' where s: "sbrk p e n brk = Ret (a, b)" "sbrks p e ns b = Ret (as', brk')" "as = a # as'"
    using Cons.prems(4) by (auto simp: obind_eq_Ret)
  have pos: "0 \<le> n" "0 \<le> sum_list ns" "\<And>i. 0 \<le> sum_list (take i ns)"
    using Cons.prems(1) by (auto intro!: sum_list_nonneg dest: in_set_takeD)
  have "unat brk + nat n < 2 ^ 32" using Cons.prems(2) pos by (simp add: nat_add_distrib)
  note b = sbrk_extends [OF pos(1) this s(1)]
  have "unat b + nat (sum_list ns) < 2 ^ 32" using Cons.prems(2) pos b(2) by (simp add: nat_add_distrib)
  from Cons.IH [OF _ this b(3) s(2)] Cons.prems(1) show ?case
    using b pos by (auto simp: s(3) nat_add_distrib nth_Cons split: nat.split)
qed simp

section \<open>Standard output\<close>

definition STDOUT_FILENO :: int where "STDOUT_FILENO = 1"

text \<open>
  The result of _write is that of tty_write, which has no return statement: it is unspecified, the parameter \<open>r\<close>.
\<close>

definition libc_write :: "int \<Rightarrow> 'c bus \<Rightarrow> platform_type \<Rightarrow> int \<Rightarrow> byte list \<Rightarrow> ('c, int) dev_op" where
  "libc_write r b p file bs =
     (if file \<noteq> STDOUT_FILENO then dret (- 1) else dbind (tty_write b p bs) (\<lambda>_. dret r))"

definition libc_isatty :: "int \<Rightarrow> bool" where
  "libc_isatty file \<longleftrightarrow> file = STDOUT_FILENO"

lemma libc_write_other: "\<not> libc_isatty file \<Longrightarrow> libc_write r b p file bs c = Some (Ret (- 1, c))"
  by (simp add: libc_write_def libc_isatty_def dret_def)

end
