(* ===== verification/Spec2Isabelle.thy ===== *)
theory Spec2Isabelle
  imports Boot_Properties Grass_Load Earth_Properties Server_Properties Spawn_Properties Apps_Properties Libc
begin

text \<open>
  Verification of egos-2000, a small operating system for RISC-V (QEMU and the Arty board).

  \<^bold>\<open>The program.\<close> egos has three layers. The \<^emph>\<open>earth\<close> layer (src/earth/) starts the machine and drives its devices:
  terminal, timer, SD card, memory management. The \<^emph>\<open>grass\<close> layer (src/grass/) is the kernel: the process table, the
  scheduler, and two system calls, which send and receive messages. Everything else is a process (src/apps/): four servers
  (processes, files, directories, shell) and small applications, which talk to each other by messages
  only. The libraries (src/library/) hold the file system, the ELF loader and the stubs through which a process calls the
  servers. src/tools/mkfs.c makes the disk image.

  \<^bold>\<open>Conventions.\<close> Machine integers are words of their width (Prelude: \<open>byte\<close>, \<open>u32\<close>, \<open>u64\<close>); where the code mixes
  signed and unsigned values the conversions are written out. Code that may call FATAL or run into undefined behaviour of C
  (a read or write outside a buffer) returns an \<open>outcome\<close>: \<open>Ret\<close> with a result or \<open>Fatal\<close> with a message. \<open>owp\<close> states that
  a computation returns and what holds of its result, so it is total correctness. Memory is a function from
  addresses to bytes (Memory). Definitions have the names of the functions of C; a loop inside a function has a name
  of its own. Uninitialised variables are arguments.

  \<^bold>\<open>File system\<close> (library/file/, tools/mkfs.c). Inode_Store has blocks and the record of methods of inode.h; Treedisk has
  file.c, function by function, over any store below. Treedisk_Correct, Treedisk_Files and Treedisk_Create define well-formed
  disks (every data block is on the free list or in one place of one file) and show in the locales \<open>block_store\<close> and
  \<open>treedisk_on\<close> that the methods refine a map from inode numbers to lists of blocks. The locales are interpreted by the RAM disk of
  mkfs.c (Mkfs) and, through the sublocales of \<open>raw_disk\<close>, by the SD card (Fs_Disk). FS_Properties: writing,
  reading, reading what was written, creating, the contents that mkfs installs, a full disk, bad inode numbers.

  \<^bold>\<open>Memory management\<close> (earth/cpu_mmu.c, earth/dev_page.c). Earth has the record of struct earth with the frame table and
  the paging device; Mmu_Correct shows over the locale \<open>paging_device\<close> (interpreted on QEMU, where frames are memory) that
  switching address spaces keeps the contents of every page of every process. Page_Table and Page_Table_Correct have the Sv32
  tables of the identity mapping, read back by a page walk. Earth_Properties: switching, freeing, allocating.

  \<^bold>\<open>Devices and boot\<close> (earth/). Sd_Driver has earth/sd/ and dev_disk.c; Timer and Tty have cpu_timer.c, bus_uart.c,
  bus_gpio.c and dev_tty.c; Boot has cpu_intr.c, earth.c, mmu_init and disk_init. The hardware is a parameter: the effect of
  loads and stores of device registers on a state. What the code relies on is stated as predicates, such as \<open>is_clint\<close> (the timer
  advances by a bounded amount between accesses), and each is shown to hold for an example device. Loops that poll a device
  are \<open>partial_function (option)\<close>: not returning is \<open>None\<close>, and the theorems
  show that the result is \<open>Some\<close>. Sd_Correct runs the driver against a card that answers as the SD protocol
  says. Tty_Correct has a reference line editor. Device_Properties and Boot_Properties: line editing, output, the timer
  (reading 64 bits in halves, arming the comparator), the page tables of mmu_init. Libc has _sbrk and _write.

  \<^bold>\<open>Kernel\<close> (grass/). Process and Kernel have process.c and kernel.c: trap entry with saving and restoring of contexts, interrupts,
  scheduling, the copying of messages between address spaces. Kernel_Correct, Ipc_Correct, Trap_Correct, Kernel_Invariant, Kernel_Runs
  and Syscall_Correct build the invariant \<open>sys_ok\<close>: pids are distinct, the running process is mapped, pages
  of processes do not overlap the kernel or each other, each live process has a page for its system calls.
  Kernel_Properties and Process_Properties: every trap keeps it or stops with one of three messages, contexts survive, processes that store to
  their own pages only are isolated (crash2 shows what another store can do), yielding is fair, what each system call does.

  \<^bold>\<open>Processes and servers\<close> (grass/syscall.c, library/servers/, apps/system/). Io has programs of processes as trees of calls: send, receive,
  and actions on the state outside. They run in two ways, by rendezvous in a system of
  processes (Io) and one process against the answers of the others (Io_Run). Servers, Shell and Sys_Proc have the servers, one
  definition for the start and one for a round of the loop. Dir_Correct has the text of directories. Servers_Correct and Server_Calls have the exchange
  of client and server. Server_Properties: a lookup through the whole stack down to the SD card. Cstring has the string functions of C.

  \<^bold>\<open>Loader and spawning\<close> (library/elf/, sys_proc.c, grass.c). Elf has the loader; Elf_Correct, Load_Correct, Spawn_Correct and Spawn_Run
  show what it leaves in the pages of a new process. Spawn_Properties: the start of the grass layer, spawning of servers and commands, an unknown command, the parsing of
  command lines. Grass_Load: the image of the grass layer.

  \<^bold>\<open>Applications\<close> (apps/user/). Apps has cat, cd, clock, echo, ls, pwd, crash2 and the buffer of ult.c; Apps_Correct and Apps_Properties have the path of
  cd, the listing of ls, the buffer as a queue, and the effect of crash2.

  \<^bold>\<open>Bounds.\<close> No definition uses fuel: loops are structural recursion, recursion with a termination proof, or
  \<open>partial_function\<close>. The hypotheses of the theorems on spawning are those of the code's tables: a free entry of the process
  table, 5 free frames (3 for the program, 1 for its arguments, 1 for its stack), and pids below 32, the size of the table of page
  table bases. The kernel invariant is about the software translation: it requires that a process maps a page only once, and the frames of page tables,
  which the code marks with pid 0 and page 0, do not satisfy that; the theorems on page tables are about mmu_init. Memory
  correctness of paging is proved for QEMU; the page cache of the Arty board is modelled without a correctness theorem.

  \<^bold>\<open>Not modelled.\<close>
  The assembly files and linker scripts, whose addresses are parameters.
  The formatting of printf and the logging functions INFO, SUCCESS, CRITICAL, FATAL of dev_tty.c, which only print; FATAL stops the
  model. The I/O of mkfs.c and mkrom.c on the host. crash1, whose malloc is in the C library. The threads and semaphores of ult.c, which are
  stubs without a body; the orders that semaphores admit are a hypothesis instead. page_table_map and page_table_switch have the bodies of the software translation in the source,
  and so in the model. The instruction set, privilege modes and physical memory protection of the processor: registers written by
  mmu_init, intr_init and main are recorded, but their effect on later instructions is not. The endless loops after exit and sys_invoke.
\<close>

end
